(* ===== verification/DVF_Prelude.thy ===== *)
theory DVF_Prelude
  imports Main "HOL-Library.AList" "HOL-Library.Word" "HOL-Library.Signed_Division"
begin

text \<open>
  The shared vocabulary of the development: the pieces of the Go language and of its standard
  library that the orchestrator uses, and the generic lemmas about them.

  \<^item> A Go map is an association list with distinct keys (\<open>gomap\<close>). Reading it is
    \<open>map_of\<close>, writing \<open>m[k] = v\<close> is \<open>AList.update\<close>, \<open>delete(m, k)\<close> is
    \<open>AList.delete\<close>. The order in which \<open>for k := range m\<close> visits the keys is not
    specified by Go: where it is observable the model takes the visiting order as an argument
    and \<open>is_range\<close> says that it is one.
  \<^item> Go's \<open>int\<close> and \<open>int64\<close> have 64 bits. Values are \<open>int\<close>; where an
    addition may leave the range, \<open>wrap64\<close> writes the wrap-around out.
  \<^item> Strings are byte lists. \<open>itoa\<close> is \<open>strconv.Itoa\<close> and the verb \<open>%d\<close>,
    \<open>parse_int64\<close> is \<open>strconv.ParseInt(s, 10, 64)\<close>, \<open>go_quote\<close> is the verb
    \<open>%q\<close> (on bytes of the ASCII range), \<open>strings_fields\<close> is \<open>strings.Fields\<close>.
\<close>

named_theorems gomap_simps \<open>rewrite rules for reading and writing Go maps\<close>
named_theorems inv_intros \<open>introduction rules for the preservation of component invariants\<close>

subsection \<open>Maps\<close>

type_synonym ('k, 'v) gomap = "('k \<times> 'v) list"

abbreviation gput :: "'k \<Rightarrow> 'v \<Rightarrow> ('k, 'v) gomap \<Rightarrow> ('k, 'v) gomap" where
  "gput \<equiv> AList.update"

abbreviation gdel :: "'k \<Rightarrow> ('k, 'v) gomap \<Rightarrow> ('k, 'v) gomap" where
  "gdel \<equiv> AList.delete"

abbreviation gkeys :: "('k, 'v) gomap \<Rightarrow> 'k list" where
  "gkeys m \<equiv> map fst m"

abbreviation gvals :: "('k, 'v) gomap \<Rightarrow> 'v list" where
  "gvals m \<equiv> map snd m"

text \<open>A write through the pointer stored under \<open>k\<close>: nothing happens when there is none.\<close>

definition gmodify :: "'k \<Rightarrow> ('v \<Rightarrow> 'v) \<Rightarrow> ('k, 'v) gomap \<Rightarrow> ('k, 'v) gomap" where
  "gmodify k f m = (case map_of m k of None \<Rightarrow> m | Some v \<Rightarrow> gput k (f v) m)"

text \<open>Reading a missing key of a \<open>map[string]int\<close> gives 0.\<close>

definition gcount :: "('k, int) gomap \<Rightarrow> 'k \<Rightarrow> int" where
  "gcount m k = (case map_of m k of None \<Rightarrow> 0 | Some n \<Rightarrow> n)"

text \<open>Reading a missing key of a \<open>map[string][]T\<close> gives the nil slice.\<close>

definition gslice :: "('k, 'v list) gomap \<Rightarrow> 'k \<Rightarrow> 'v list" where
  "gslice m k = (case map_of m k of None \<Rightarrow> [] | Some vs \<Rightarrow> vs)"

definition is_range :: "'k list \<Rightarrow> ('k, 'v) gomap \<Rightarrow> bool" where
  "is_range ks m \<longleftrightarrow> distinct ks \<and> set ks = dom (map_of m)"

subsection \<open>Integers\<close>

definition wrap64 :: "int \<Rightarrow> int" where
  "wrap64 x = (x + 2 ^ 63) mod 2 ^ 64 - 2 ^ 63"

definition wrap32 :: "int \<Rightarrow> int" where
  "wrap32 x = (x + 2 ^ 31) mod 2 ^ 32 - 2 ^ 31"

definition in_int64 :: "int \<Rightarrow> bool" where
  "in_int64 x \<longleftrightarrow> - (2 ^ 63) \<le> x \<and> x < 2 ^ 63"

definition in_int32 :: "int \<Rightarrow> bool" where
  "in_int32 x \<longleftrightarrow> - (2 ^ 31) \<le> x \<and> x < 2 ^ 31"

text \<open>\<open>t.Sub(u)\<close> of two instants in nanoseconds saturates at the range of a duration.\<close>

definition time_sub :: "int \<Rightarrow> int \<Rightarrow> int" where
  "time_sub t u = max (- (2 ^ 63)) (min (2 ^ 63 - 1) (t - u))"

text \<open>\<open>d.Milliseconds()\<close>: integer division rounds towards zero in Go.\<close>

definition milliseconds :: "int \<Rightarrow> int" where
  "milliseconds d = d sdiv 1000000"

subsection \<open>Strings\<close>

definition digit_char :: "nat \<Rightarrow> char" where
  "digit_char d = ''0123456789'' ! d"

fun nat_str :: "nat \<Rightarrow> string" where
  "nat_str n = (if n < 10 then [digit_char n] else nat_str (n div 10) @ [digit_char (n mod 10)])"

definition itoa :: "int \<Rightarrow> string" where
  "itoa i = (if i < 0 then CHR ''-'' # nat_str (nat (- i)) else nat_str (nat i))"

definition digit_val :: "char \<Rightarrow> nat option" where
  "digit_val c = (let n = (of_char c :: nat) in if 48 \<le> n \<and> n \<le> 57 then Some (n - 48) else None)"

fun digits_val :: "nat \<Rightarrow> string \<Rightarrow> nat option" where
  "digits_val acc [] = Some acc"
| "digits_val acc (c # cs) =
     (case digit_val c of None \<Rightarrow> None | Some d \<Rightarrow> digits_val (10 * acc + d) cs)"

definition parse_nat :: "string \<Rightarrow> nat option" where
  "parse_nat s = (if s = [] then None else digits_val 0 s)"

definition parse_int64 :: "string \<Rightarrow> int option" where
  "parse_int64 s =
     (let (neg, ds) = (case s of [] \<Rightarrow> (False, [])
                       | c # cs \<Rightarrow> if c = CHR ''-'' then (True, cs)
                                  else if c = CHR ''+'' then (False, cs) else (False, s))
      in case parse_nat ds of
           None \<Rightarrow> None
         | Some n \<Rightarrow> let i = (if neg then - int n else int n) in
                     if in_int64 i then Some i else None)"

definition has_prefix :: "string \<Rightarrow> string \<Rightarrow> bool" where
  "has_prefix s p \<longleftrightarrow> take (length p) s = p"

definition is_space :: "char \<Rightarrow> bool" where
  "is_space c \<longleftrightarrow> c = CHR '' '' \<or> (let n = (of_char c :: nat) in 9 \<le> n \<and> n \<le> 13)"

text \<open>\<open>strings.Fields\<close>: the maximal runs of non-space bytes, \<open>cur\<close> being the run so far.\<close>

fun fields_from :: "string \<Rightarrow> string \<Rightarrow> string list" where
  "fields_from cur [] = (if cur = [] then [] else [cur])"
| "fields_from cur (c # cs) =
     (if is_space c then (if cur = [] then fields_from [] cs else cur # fields_from [] cs)
      else fields_from (cur @ [c]) cs)"

definition strings_fields :: "string \<Rightarrow> string list" where
  "strings_fields s = fields_from [] s"

definition hex_digit :: "nat \<Rightarrow> char" where
  "hex_digit d = ''0123456789abcdef'' ! d"

definition quote_char :: "char \<Rightarrow> string" where
  "quote_char c =
     (let n = (of_char c :: nat) in
      if n = 34 then [CHR 0x5C, CHR 0x22]
      else if n = 92 then [CHR 0x5C, CHR 0x5C]
      else if n = 7 then [CHR 0x5C, CHR ''a'']
      else if n = 8 then [CHR 0x5C, CHR ''b'']
      else if n = 12 then [CHR 0x5C, CHR ''f'']
      else if n = 10 then [CHR 0x5C, CHR ''n'']
      else if n = 13 then [CHR 0x5C, CHR ''r'']
      else if n = 9 then [CHR 0x5C, CHR ''t'']
      else if n = 11 then [CHR 0x5C, CHR ''v'']
      else if n < 32 \<or> n = 127 then [CHR 0x5C, CHR ''x'', hex_digit (n div 16), hex_digit (n mod 16)]
      else [c])"

definition go_quote :: "string \<Rightarrow> string" where
  "go_quote s = [CHR 0x22] @ concat (map quote_char s) @ [CHR 0x22]"

subsection \<open>Paths\<close>

text \<open>The segments between slashes, empty ones included.\<close>

fun split_slash :: "string \<Rightarrow> string list" where
  "split_slash [] = [[]]"
| "split_slash (c # cs) =
     (if c = CHR ''/'' then [] # split_slash cs
      else case split_slash cs of x # xs \<Rightarrow> (c # x) # xs | [] \<Rightarrow> [[c]])"

fun join_slash :: "string list \<Rightarrow> string" where
  "join_slash [] = []"
| "join_slash [x] = x"
| "join_slash (x # y # ys) = x @ ''/'' @ join_slash (y # ys)"

text \<open>\<open>path.Clean\<close>: \<open>out\<close> holds the segments kept so far, last one first.\<close>

fun clean_segs :: "bool \<Rightarrow> string list \<Rightarrow> string list \<Rightarrow> string list" where
  "clean_segs rooted out [] = rev out"
| "clean_segs rooted out (x # xs) =
     (if x = [] \<or> x = ''.'' then clean_segs rooted out xs
      else if x = ''..'' then
        (case out of
           [] \<Rightarrow> clean_segs rooted (if rooted then [] else [x]) xs
         | y # ys \<Rightarrow> if y = ''..'' then clean_segs rooted (x # out) xs else clean_segs rooted ys xs)
      else clean_segs rooted (x # out) xs)"

definition path_clean :: "string \<Rightarrow> string" where
  "path_clean p =
     (let rooted = (case p of c # _ \<Rightarrow> c = CHR ''/'' | [] \<Rightarrow> False);
          segs = clean_segs rooted [] (split_slash p)
      in if rooted then CHR ''/'' # join_slash segs
         else if segs = [] then ''.'' else join_slash segs)"

text \<open>\<open>filepath.Join\<close>.\<close>

definition path_join :: "string list \<Rightarrow> string" where
  "path_join elems =
     (case filter (\<lambda>e. e \<noteq> []) elems of [] \<Rightarrow> [] | es \<Rightarrow> path_clean (join_slash es))"

subsection \<open>Lemmas: maps\<close>

lemmas gomap_conv [simp, gomap_simps] = update_conv' delete_conv'

lemma gkeys_gput: "gkeys (gput k v m) = (if k \<in> set (gkeys m) then gkeys m else gkeys m @ [k])"
  by (rule update_keys)

lemma distinct_gput [simp, intro]: "distinct (gkeys m) \<Longrightarrow> distinct (gkeys (gput k v m))"
  by (rule distinct_update)

lemma distinct_gdel [simp, intro]: "distinct (gkeys m) \<Longrightarrow> distinct (gkeys (gdel k m))"
  by (simp add: distinct_delete)

lemma dom_gkeys: "dom (map_of m) = set (gkeys m)"
  by (simp add: dom_map_of_conv_image_fst)

lemma gput_fresh: "map_of m k = None \<Longrightarrow> gput k v m = m @ [(k, v)]"
  by (induction m) (auto split: if_splits)

lemma gkeys_gput_old: "map_of m k = Some v' \<Longrightarrow> gkeys (gput k v m) = gkeys m"
  using dom_gkeys [of m] by (auto simp: gkeys_gput dest: map_of_SomeD)

lemma gmodify_lookup [simp, gomap_simps]:
  "map_of (gmodify k f m) k' = (if k' = k then map_option f (map_of m k) else map_of m k')"
  by (auto simp: gmodify_def split: option.splits)

lemma gkeys_gmodify [simp, gomap_simps]: "gkeys (gmodify k f m) = gkeys m"
  by (auto simp: gmodify_def gkeys_gput_old split: option.splits)

lemma gcount_gput [simp, gomap_simps]: "gcount (gput k v m) k' = (if k' = k then v else gcount m k')"
  by (simp add: gcount_def)

lemma gslice_gput [simp, gomap_simps]: "gslice (gput k v m) k' = (if k' = k then v else gslice m k')"
  by (simp add: gslice_def)

lemma gcount_Nil [simp]: "gcount [] k = 0"
  by (simp add: gcount_def)

lemma gslice_Nil [simp]: "gslice [] k = []"
  by (simp add: gslice_def)

lemma distinct_gkeys_in_set:
  "distinct (gkeys m) \<Longrightarrow> (k, v) \<in> set m \<longleftrightarrow> map_of m k = Some v"
  by (auto intro: map_of_SomeD)

lemma gvals_map_of: "distinct (gkeys m) \<Longrightarrow> v \<in> set (gvals m) \<longleftrightarrow> (\<exists>k. map_of m k = Some v)"
  by (force simp: distinct_gkeys_in_set [symmetric])

lemma ball_gomap: "distinct (gkeys m) \<Longrightarrow> (\<forall>(k, v) \<in> set m. P k v) \<longleftrightarrow> (\<forall>k v. map_of m k = Some v \<longrightarrow> P k v)"
  by (auto simp: distinct_gkeys_in_set [symmetric])

lemma is_range_code [code]: "is_range ks m \<longleftrightarrow> distinct ks \<and> set ks = set (gkeys m)"
  by (simp add: is_range_def dom_gkeys)

lemma is_range_gkeys: "distinct (gkeys m) \<Longrightarrow> is_range (gkeys m) m"
  by (simp add: is_range_def dom_gkeys)

lemma is_range_length: "is_range ks m \<Longrightarrow> distinct (gkeys m) \<Longrightarrow> length ks = length m"
  by (metis dom_gkeys is_range_def distinct_card length_map)

lemma filter_gput_other:
  "\<not> P v \<Longrightarrow> map_of m k = Some v \<Longrightarrow> \<not> P v' \<Longrightarrow>
    length (filter P (gvals (gput k v' m))) = length (filter P (gvals m))"
  by (induction m) auto

lemma count_list_replicate [simp]: "count_list (replicate n x) y = (if x = y then n else 0)"
  by (induction n) auto

lemma weight_gput:
  "map_of m k = Some v \<Longrightarrow>
    sum_list (map f (gvals (gput k v' m))) + f v = sum_list (map f (gvals m)) + (f v' :: nat)"
  by (induction m) (auto split: if_splits)

lemma weight_gmodify:
  "(\<And>s. f (g s) \<le> (f s :: nat)) \<Longrightarrow> sum_list (map f (gvals (gmodify k g m))) \<le> sum_list (map f (gvals m))"
proof (cases "map_of m k")
  case (Some v)
  assume "\<And>s. f (g s) \<le> f s"
  with weight_gput [OF Some, of f "g v"] Some show ?thesis by (simp add: gmodify_def) (metis add_le_cancel_right add_left_mono)
qed (simp add: gmodify_def)

subsection \<open>Lemmas: integers\<close>

lemma wrap64_id [simp]: "in_int64 x \<Longrightarrow> wrap64 x = x"
  by (simp add: wrap64_def in_int64_def)

lemma wrap32_id [simp]: "in_int32 x \<Longrightarrow> wrap32 x = x"
  by (simp add: wrap32_def in_int32_def)

lemma in_int64_wrap64 [simp]: "in_int64 (wrap64 x)"
proof -
  have "0 \<le> (x + 2 ^ 63) mod 2 ^ 64" and "(x + 2 ^ 63) mod 2 ^ 64 < (2 ^ 64 :: int)"
    by simp_all
  then show ?thesis by (simp add: in_int64_def wrap64_def)
qed

text \<open>\<open>wrap64\<close> is the reading of a 64-bit word as two's complement.\<close>

lemma wrap64_sint: "wrap64 x = sint (word_of_int x :: 64 word)"
  by (simp add: wrap64_def sint_sbintrunc' signed_take_bit_eq_take_bit_shift take_bit_eq_mod)

lemma wrap32_sint: "wrap32 x = sint (word_of_int x :: 32 word)"
  by (simp add: wrap32_def sint_sbintrunc' signed_take_bit_eq_take_bit_shift take_bit_eq_mod)

subsection \<open>Lemmas: decimal numbers\<close>

declare nat_str.simps [simp del]

lemma digit_val_digit_char: "d < 10 \<Longrightarrow> digit_val (digit_char d) = Some d"
proof -
  assume "d < 10"
  then have "d \<in> {0,1,2,3,4,5,6,7,8,9}" by auto
  then show ?thesis by (auto simp: digit_val_def digit_char_def)
qed

lemma digits_val_append:
  "digits_val acc (xs @ ys) = (case digits_val acc xs of None \<Rightarrow> None | Some a \<Rightarrow> digits_val a ys)"
  by (induction acc xs rule: digits_val.induct) (auto split: option.splits)

lemma nat_str_nonempty [simp]: "nat_str n \<noteq> []"
  by (subst nat_str.simps) simp

lemma digits_val_nat_str: "digits_val 0 (nat_str n) = Some n"
proof (induction n rule: nat_str.induct)
  case (1 n)
  show ?case
  proof (cases "n < 10")
    case True
    then show ?thesis by (subst nat_str.simps) (simp add: digit_val_digit_char)
  next
    case False
    with "1" have "digits_val 0 (nat_str (n div 10)) = Some (n div 10)" by simp
    with False show ?thesis
      by (subst nat_str.simps) (simp add: digits_val_append digit_val_digit_char)
  qed
qed

lemma parse_nat_str [simp]: "parse_nat (nat_str n) = Some n"
  by (simp add: parse_nat_def digits_val_nat_str)

lemma nat_str_inject [simp]: "nat_str m = nat_str n \<longleftrightarrow> m = n"
  by (metis option.inject parse_nat_str)

lemma nat_str_digits: "c \<in> set (nat_str n) \<Longrightarrow> c \<in> set ''0123456789''"
proof (induction n rule: nat_str.induct)
  case (1 n)
  have dig: "digit_char d \<in> set ''0123456789''" if "d < 10" for d
    using that nth_mem [of d "''0123456789''"] by (simp add: digit_char_def)
  show ?case
  proof (cases "n < 10")
    case True
    with "1.prems" have "c = digit_char n" by (subst (asm) nat_str.simps) simp
    with dig True show ?thesis by blast
  next
    case False
    with "1.prems" have "c \<in> set (nat_str (n div 10)) \<or> c = digit_char (n mod 10)"
      by (subst (asm) nat_str.simps) auto
    with False "1.IH" dig [of "n mod 10"] show ?thesis by auto
  qed
qed

lemma nat_str_hd: "nat_str n = c # cs \<Longrightarrow> c \<noteq> CHR ''-'' \<and> c \<noteq> CHR ''+''"
  using nat_str_digits [of c n] by auto

lemma itoa_inject [simp]: "itoa i = itoa j \<longleftrightarrow> i = j"
proof
  assume eq: "itoa i = itoa j"
  show "i = j"
  proof (cases "i < 0"; cases "j < 0")
    assume "i < 0" and "\<not> j < 0"
    with eq have "nat_str (nat j) = CHR ''-'' # nat_str (nat (- i))" by (simp add: itoa_def)
    then show ?thesis using nat_str_hd by blast
  next
    assume "\<not> i < 0" and "j < 0"
    with eq have "nat_str (nat i) = CHR ''-'' # nat_str (nat (- j))" by (simp add: itoa_def)
    then show ?thesis using nat_str_hd by blast
  qed (use eq in \<open>auto simp: itoa_def\<close>)
qed simp

lemma itoa_nonempty [simp]: "itoa i \<noteq> []"
  by (simp add: itoa_def)

lemma parse_int64_itoa: "in_int64 i \<Longrightarrow> parse_int64 (itoa i) = Some i"
proof (cases "i < 0")
  case True
  moreover assume "in_int64 i"
  ultimately show ?thesis by (simp add: parse_int64_def itoa_def)
next
  case False
  moreover assume "in_int64 i"
  moreover obtain c cs where s: "nat_str (nat i) = c # cs" by (cases "nat_str (nat i)") auto
  moreover have "c \<noteq> CHR ''-'' \<and> c \<noteq> CHR ''+''" using s by (rule nat_str_hd)
  moreover have "parse_nat (c # cs) = Some (nat i)" using s parse_nat_str [of "nat i"] by simp
  ultimately show ?thesis by (simp add: parse_int64_def itoa_def)
qed

subsection \<open>Lemmas: strings and lists\<close>

lemma has_prefix_iff: "has_prefix s p \<longleftrightarrow> (\<exists>t. s = p @ t)"
  by (metis append_take_drop_id append_eq_conv_conj has_prefix_def)

lemma fields_from_nonspace:
  "\<forall>c \<in> set s. \<not> is_space c \<Longrightarrow> fields_from cur s = (if cur @ s = [] then [] else [cur @ s])"
  by (induction cur s rule: fields_from.induct) auto

lemma fields_no_empty: "[] \<notin> set (fields_from cur s)"
  by (induction cur s rule: fields_from.induct) auto

lemma filter_eq_length_le: "length (filter P xs) \<le> length xs"
  by (rule length_filter_le)

subsection \<open>Lemmas: separators and paths\<close>

lemma nat_str_no_dash: "CHR ''-'' \<notin> set (nat_str n)"
proof
  assume "CHR ''-'' \<in> set (nat_str n)"
  then show False using nat_str_digits by fastforce
qed

lemma append_sep_inject:
  assumes "xs @ c # ys = xs' @ c # ys'" and "c \<notin> set ys" and "c \<notin> set ys'"
  shows "xs = xs' \<and> ys = ys'"
proof -
  have "rev ys @ c # rev xs = rev ys' @ c # rev xs'" using arg_cong [OF assms(1), of rev] by simp
  moreover have "takeWhile (\<lambda>x. x \<noteq> c) (rev zs @ c # us) = rev zs" if "c \<notin> set zs" for zs us
    using that by (subst takeWhile_append2) auto
  ultimately have "rev ys = rev ys'" using assms(2,3) by metis
  with assms(1) show ?thesis by simp
qed

lemma split_slash_nonempty: "split_slash p \<noteq> []"
  by (induction p) (auto split: list.splits)

lemma split_slash_plain: "CHR ''/'' \<notin> set n \<Longrightarrow> split_slash n = [n]"
  by (induction n) auto

lemma split_slash_append: "split_slash (d @ CHR ''/'' # n) = split_slash d @ split_slash n"
  using split_slash_nonempty by (induction d) (auto split: list.split)

lemma clean_segs_plain:
  "n \<noteq> '''' \<Longrightarrow> n \<noteq> ''.'' \<Longrightarrow> n \<noteq> ''..'' \<Longrightarrow> clean_segs rooted out (xs @ [n]) = clean_segs rooted out xs @ [n]"
  by (induction xs arbitrary: out) (auto split: list.split)

lemma join_slash_snoc: "join_slash (xs @ [n]) = (if xs = [] then n else join_slash xs @ ''/'' @ n)"
  by (induction xs rule: join_slash.induct) auto

end
