(* ===== verification/Core_Types.thy ===== *)
theory Core_Types
  imports Complex_Main DVF_Prelude
begin

text \<open>
  The domain types of \<open>internal/core/types.go\<close> and of \<open>execution_engine.go\<close>: the
  string enums as datatypes whose constructors are the Go constants, the structs as records
  (a field carries the struct's short name as a prefix, since Go scopes field names per struct),
  a nil-able pointer as an option.

  The Go enums are string types, so their zero value is the empty string. \<open>TestRunStatus\<close>
  and \<open>VMStatus\<close> carry it as \<open>\<dots>Unset\<close>, because the API layer and the store test for it.
  Instants are nanoseconds since the epoch. A \<open>float64\<close> read from JSON is a finite number,
  hence a \<open>rat\<close>. A value of type \<open>interface{}\<close> is a \<open>gval\<close>.

  The theory also declares the error values and the three ways a Go call can end: it returns a
  value, returns an error, or panics.
\<close>

subsection \<open>Enums\<close>

datatype TestRunStatus =
    TestRunStatusUnset
  | TestRunStatusPending
  | TestRunStatusQueued
  | TestRunStatusRunning
  | TestRunStatusPassed
  | TestRunStatusFailed
  | TestRunStatusErrored
  | TestRunStatusCancelled
  | TestRunStatusTimeout

fun run_status_str :: "TestRunStatus \<Rightarrow> string" where
  "run_status_str TestRunStatusUnset = ''''"
| "run_status_str TestRunStatusPending = ''PENDING''"
| "run_status_str TestRunStatusQueued = ''QUEUED''"
| "run_status_str TestRunStatusRunning = ''RUNNING''"
| "run_status_str TestRunStatusPassed = ''PASSED''"
| "run_status_str TestRunStatusFailed = ''FAILED''"
| "run_status_str TestRunStatusErrored = ''ERRORED''"
| "run_status_str TestRunStatusCancelled = ''CANCELLED''"
| "run_status_str TestRunStatusTimeout = ''TIMEOUT''"

datatype VMStatus =
    VMStatusUnset
  | VMStatusCreating
  | VMStatusBooting
  | VMStatusReady
  | VMStatusRunningTest
  | VMStatusStopping
  | VMStatusStopped
  | VMStatusError
  | VMStatusDestroyed

fun vm_status_str :: "VMStatus \<Rightarrow> string" where
  "vm_status_str VMStatusUnset = ''''"
| "vm_status_str VMStatusCreating = ''CREATING''"
| "vm_status_str VMStatusBooting = ''BOOTING''"
| "vm_status_str VMStatusReady = ''READY''"
| "vm_status_str VMStatusRunningTest = ''RUNNING_TEST''"
| "vm_status_str VMStatusStopping = ''STOPPING''"
| "vm_status_str VMStatusStopped = ''STOPPED''"
| "vm_status_str VMStatusError = ''ERROR''"
| "vm_status_str VMStatusDestroyed = ''DESTROYED''"

datatype AgentStatus =
    AgentStatusUnknown
  | AgentStatusInitializing
  | AgentStatusReady
  | AgentStatusExecuting
  | AgentStatusReporting
  | AgentStatusDead

subsection \<open>Values of interface type\<close>

datatype gval =
    GStr string
  | GInt int
  | GFloat rat
  | GBool bool
  | GNil
  | GArr "gval list"
  | GObj "(string \<times> gval) list"

subsection \<open>Domain models\<close>

record TestRun =
  run_ID :: string
  run_DeviceID :: string
  run_TestSuiteID :: string
  run_Status :: TestRunStatus
  run_VMID :: string
  run_Priority :: int
  run_CreatedAt :: int
  run_StartedAt :: "int option"
  run_CompletedAt :: "int option"
  run_DurationMs :: int
  run_RequestedBy :: string
  run_Tags :: "string list"
  run_ErrorMessage :: string

record TestResult =
  tres_ID :: string
  tres_TestRunID :: string
  tres_TestName :: string
  tres_Category :: string
  tres_Status :: TestRunStatus
  tres_DurationMs :: int
  tres_Message :: string
  tres_Metrics :: "(string, rat) gomap"
  tres_Logs :: string
  tres_CompletedAt :: int

record VMInstance =
  vm_ID :: string
  vm_Status :: VMStatus
  vm_DeviceID :: string
  vm_QEMUDeviceName :: string
  vm_QMPSocketPath :: string
  vm_SerialPorts :: "string list"
  vm_PID :: int
  vm_AllocatedCPUs :: int
  vm_AllocatedMemMB :: int
  vm_ImagePath :: string
  vm_OverlayPath :: string
  vm_CreatedAt :: int
  vm_AgentStatus :: AgentStatus
  vm_LastHeartbeat :: "int option"
  vm_CurrentTestRunID :: string

record WorkflowStep =
  ws_ID :: string
  ws_TestBinary :: string
  ws_Args :: "string list"
  ws_DependsOn :: "string list"
  ws_RetryMax :: int
  ws_TimeoutSec :: int

record TestSuite =
  suite_ID :: string
  suite_Name :: string
  suite_DeviceID :: string
  suite_Category :: string
  suite_Description :: string
  suite_BinaryPath :: string
  suite_Steps :: "WorkflowStep list"
  suite_Timeout :: int
  suite_Tags :: "string list"

record SubmitTestRunRequest =
  sub_DeviceID :: string
  sub_TestSuiteID :: string
  sub_Priority :: int
  sub_Tags :: "string list"
  sub_RequestedBy :: string

record ListTestRunsRequest =
  lr_DeviceID :: string
  lr_Status :: TestRunStatus
  lr_Limit :: int
  lr_Offset :: int

record ListVMsRequest =
  lv_Status :: VMStatus
  lv_DeviceID :: string

subsection \<open>Commands and results of a guest agent\<close>

record AgentCommand =
  cmd_ID :: string
  cmd_Type :: string
  cmd_Parameters :: "(string, gval) gomap"

record AgentResult =
  ares_CommandID :: string
  ares_Status :: string
  ares_Output :: string
  ares_Logs :: string
  ares_DurationMs :: int

subsection \<open>Errors and outcomes\<close>

text \<open>
  One constructor per kind of error value the modelled code builds, with the data the message
  shows; \<open>EWrap p e\<close> is \<open>fmt.Errorf("p: %w", e)\<close> and \<open>EText\<close> an error made
  outside the modelled code, known by its text.
\<close>

datatype error =
    EText string
  | EWrap string error
  | ECanceled
  | EDeadlineExceeded
  | EWorkflowFailed int int
  | ENoSteps string
  | EEmptyStepID string nat
  | EDuplicateStep string string
  | EUnknownDep string string string
  | ECycle string
  | EUnknownStep string string
  | ERunNotFound string
  | EVMNotFound string
  | EDeviceNotFound string
  | ENoAgentState string
  | ECommandsClosed string
  | ENoWaiter string string
  | EDeliverTimeout string

text \<open>The method \<open>Error()\<close>: the text of each error.\<close>

fun error_text :: "error \<Rightarrow> string" where
  "error_text (EText s) = s"
| "error_text (EWrap p e) = p @ '': '' @ error_text e"
| "error_text ECanceled = ''context canceled''"
| "error_text EDeadlineExceeded = ''context deadline exceeded''"
| "error_text (EWorkflowFailed f s) =
     ''workflow execution completed with failures: '' @ itoa f @ '' failed, '' @ itoa s @ '' skipped''"
| "error_text (ENoSteps w) = ''workflow '' @ go_quote w @ '': no steps provided''"
| "error_text (EEmptyStepID w i) =
     ''workflow '' @ go_quote w @ '': step at index '' @ itoa (int i) @ '' has empty ID''"
| "error_text (EDuplicateStep w s) = ''workflow '' @ go_quote w @ '': duplicate step ID '' @ go_quote s"
| "error_text (EUnknownDep w s d) =
     ''workflow '' @ go_quote w @ '': step '' @ go_quote s @ '' depends on unknown step '' @ go_quote d"
| "error_text (ECycle w) = ''workflow '' @ go_quote w @ '': cycle detected in step dependency graph''"
| "error_text (EUnknownStep w s) = ''workflow '' @ go_quote w @ '': unknown step '' @ go_quote s"
| "error_text (ERunNotFound i) = ''test run '' @ go_quote i @ '' not found''"
| "error_text (EVMNotFound i) = ''vm '' @ go_quote i @ '' not found''"
| "error_text (EDeviceNotFound i) = ''device '' @ go_quote i @ '' not found in registry''"
| "error_text (ENoAgentState v) = ''no agent state for VM '' @ v"
| "error_text (ECommandsClosed v) = ''command channel closed for VM '' @ v"
| "error_text (ENoWaiter c v) = ''no waiter for command '' @ c @ '' in VM '' @ v"
| "error_text (EDeliverTimeout c) = ''timeout delivering result for command '' @ c"

datatype 'a res = Ok 'a | Err error | Panic string

fun is_ok :: "'a res \<Rightarrow> bool" where
  "is_ok (Ok _) = True"
| "is_ok (Err _) = False"
| "is_ok (Panic _) = False"

text \<open>The two-valued results of a call that does not panic.\<close>

fun to_sum :: "'a res \<Rightarrow> error + 'a" where
  "to_sum (Ok x) = Inr x"
| "to_sum (Err e) = Inl e"
| "to_sum (Panic p) = Inl (EText p)"

lemma is_ok_iff: "is_ok r \<longleftrightarrow> (\<exists>x. r = Ok x)"
  by (cases r) auto

subsection \<open>Terminal states\<close>

text \<open>The states a test run does not leave any more; \<open>store.UpdateTestRunStatus\<close> stamps
  \<open>CompletedAt\<close> on exactly these.\<close>

fun run_terminal :: "TestRunStatus \<Rightarrow> bool" where
  "run_terminal TestRunStatusPassed = True"
| "run_terminal TestRunStatusFailed = True"
| "run_terminal TestRunStatusErrored = True"
| "run_terminal TestRunStatusCancelled = True"
| "run_terminal TestRunStatusTimeout = True"
| "run_terminal _ = False"

lemma run_status_str_inject [simp]: "run_status_str a = run_status_str b \<longleftrightarrow> a = b"
  by (cases a; cases b) simp_all

lemma vm_status_str_inject [simp]: "vm_status_str a = vm_status_str b \<longleftrightarrow> a = b"
  by (cases a; cases b) simp_all

end
