(* ===== verification/JSON.thy ===== *)
theory JSON
  imports Core_Types
begin

text \<open>
  The part of Go's \<open>encoding/json\<close> the orchestrator uses: the syntax check and parse of a text
  (\<open>json_parse\<close>) and the decoding of a parsed value into a Go type (the combinators
  \<open>dec_\<dots>\<close>), which \<open>json.Unmarshal\<close> composes. Numbers keep their literal, as
  the decoder reads it at the type of the target. A decoder takes the value the target holds before,
  because \<open>null\<close> leaves scalars and structs alone.

  Simplifications: the texts of decoding errors are abbreviated; strings are bytes, a
  \<open>\u\<close> escape outside ASCII becomes its UTF-8 bytes and surrogate pairs are not combined; a
  \<open>float64\<close> is the exact value of the literal.

  The parser runs on fuel, one unit per nested value or list element. \<open>json_parse_print\<close> shows
  that the fuel \<open>json_parse\<close> takes is enough for everything \<open>json_print\<close> produces.
\<close>

datatype json =
    JNull
  | JBool bool
  | JNum string
  | JStr string
  | JArr "json list"
  | JObj "(string \<times> json) list"

subsection \<open>Parsing\<close>

definition json_space :: "char \<Rightarrow> bool" where
  "json_space c \<longleftrightarrow> c \<in> {CHR '' '', CHR 0x09, CHR 0x0A, CHR 0x0D}"

definition skip_ws :: "string \<Rightarrow> string" where
  "skip_ws s = dropWhile json_space s"

definition is_digit :: "char \<Rightarrow> bool" where
  "is_digit c \<longleftrightarrow> digit_val c \<noteq> None"

definition hex_val :: "char \<Rightarrow> nat option" where
  "hex_val c = (let n = (of_char c :: nat) in
     if 48 \<le> n \<and> n \<le> 57 then Some (n - 48)
     else if 97 \<le> n \<and> n \<le> 102 then Some (n - 87)
     else if 65 \<le> n \<and> n \<le> 70 then Some (n - 55) else None)"

definition utf8 :: "nat \<Rightarrow> string" where
  "utf8 n =
     (if n < 128 then [char_of n]
      else if n < 2048 then [char_of (192 + n div 64), char_of (128 + n mod 64)]
      else [char_of (224 + n div 4096), char_of (128 + n div 64 mod 64), char_of (128 + n mod 64)])"

text \<open>The body of a string after the opening quote.\<close>

fun p_string :: "string \<Rightarrow> string \<Rightarrow> (string \<times> string) option" where
  "p_string acc [] = None"
| "p_string acc (c # cs) =
     (if c = CHR 0x22 then Some (acc, cs)
      else if c = CHR 0x5C then
        (case cs of
           [] \<Rightarrow> None
         | e # rest \<Rightarrow>
             if e = CHR 0x22 \<or> e = CHR 0x5C \<or> e = CHR ''/'' then p_string (acc @ [e]) rest
             else if e = CHR ''b'' then p_string (acc @ [CHR 0x08]) rest
             else if e = CHR ''f'' then p_string (acc @ [CHR 0x0C]) rest
             else if e = CHR ''n'' then p_string (acc @ [CHR 0x0A]) rest
             else if e = CHR ''r'' then p_string (acc @ [CHR 0x0D]) rest
             else if e = CHR ''t'' then p_string (acc @ [CHR 0x09]) rest
             else if e = CHR ''u'' then
               (case rest of
                  h1 # h2 # h3 # h4 # rest' \<Rightarrow>
                    (case (hex_val h1, hex_val h2, hex_val h3, hex_val h4) of
                       (Some a, Some b, Some d, Some f) \<Rightarrow>
                         p_string (acc @ utf8 (a * 4096 + b * 256 + d * 16 + f)) rest'
                     | _ \<Rightarrow> None)
                | _ \<Rightarrow> None)
             else None)
      else if (of_char c :: nat) < 32 then None
      else p_string (acc @ [c]) cs)"

text \<open>A number literal: its three parts, each as the text taken and the rest.\<close>

definition p_int_part :: "string \<Rightarrow> (string \<times> string) option" where
  "p_int_part s =
     (case s of
        [] \<Rightarrow> None
      | c # cs \<Rightarrow> if c = CHR ''0'' then Some ([c], cs)
                 else if is_digit c then Some (takeWhile is_digit s, dropWhile is_digit s)
                 else None)"

definition p_frac_part :: "string \<Rightarrow> (string \<times> string) option" where
  "p_frac_part s =
     (case s of
        c # cs \<Rightarrow> if c = CHR ''.'' then
                    (let ds = takeWhile is_digit cs in
                     if ds = [] then None else Some (c # ds, dropWhile is_digit cs))
                  else Some ([], s)
      | [] \<Rightarrow> Some ([], []))"

definition p_exp_part :: "string \<Rightarrow> (string \<times> string) option" where
  "p_exp_part s =
     (case s of
        c # cs \<Rightarrow> if c = CHR ''e'' \<or> c = CHR ''E'' then
                    (let (sg, r) = (case cs of
                                      d # ds \<Rightarrow> if d = CHR ''+'' \<or> d = CHR ''-'' then ([d], ds) else ([], cs)
                                    | [] \<Rightarrow> ([], []));
                         ds = takeWhile is_digit r in
                     if ds = [] then None else Some (c # sg @ ds, dropWhile is_digit r))
                  else Some ([], s)
      | [] \<Rightarrow> Some ([], []))"

definition p_number :: "string \<Rightarrow> (string \<times> string) option" where
  "p_number s =
     (let (sg, s1) = (case s of c # cs \<Rightarrow> if c = CHR ''-'' then ([c], cs) else ([], s) | [] \<Rightarrow> ([], []))
      in case p_int_part s1 of
           None \<Rightarrow> None
         | Some (i, s2) \<Rightarrow>
             (case p_frac_part s2 of
                None \<Rightarrow> None
              | Some (f, s3) \<Rightarrow>
                  (case p_exp_part s3 of None \<Rightarrow> None | Some (e, s4) \<Rightarrow> Some (sg @ i @ f @ e, s4))))"

definition strip_prefix :: "string \<Rightarrow> string \<Rightarrow> string option" where
  "strip_prefix p s = (if has_prefix s p then Some (drop (length p) s) else None)"

fun p_value :: "nat \<Rightarrow> string \<Rightarrow> (json \<times> string) option"
  and p_elems :: "nat \<Rightarrow> string \<Rightarrow> (json list \<times> string) option"
  and p_members :: "nat \<Rightarrow> string \<Rightarrow> ((string \<times> json) list \<times> string) option" where
  "p_value 0 s = None"
| "p_value (Suc n) s =
     (case skip_ws s of
        [] \<Rightarrow> None
      | c # cs \<Rightarrow>
          if c = CHR 0x22 then (case p_string [] cs of None \<Rightarrow> None | Some (t, r) \<Rightarrow> Some (JStr t, r))
          else if c = CHR ''['' then
            (case skip_ws cs of
               d # r \<Rightarrow> if d = CHR '']'' then Some (JArr [], r)
                        else (case p_elems n cs of None \<Rightarrow> None | Some (vs, r) \<Rightarrow> Some (JArr vs, r))
             | [] \<Rightarrow> None)
          else if c = CHR ''{'' then
            (case skip_ws cs of
               d # r \<Rightarrow> if d = CHR ''}'' then Some (JObj [], r)
                        else (case p_members n cs of None \<Rightarrow> None | Some (ms, r) \<Rightarrow> Some (JObj ms, r))
             | [] \<Rightarrow> None)
          else (case strip_prefix ''null'' (c # cs) of
                  Some r \<Rightarrow> Some (JNull, r)
                | None \<Rightarrow>
                    (case strip_prefix ''true'' (c # cs) of
                       Some r \<Rightarrow> Some (JBool True, r)
                     | None \<Rightarrow>
                         (case strip_prefix ''false'' (c # cs) of
                            Some r \<Rightarrow> Some (JBool False, r)
                          | None \<Rightarrow> (case p_number (c # cs) of
                                       None \<Rightarrow> None | Some (lit, r) \<Rightarrow> Some (JNum lit, r))))))"
| "p_elems 0 s = None"
| "p_elems (Suc n) s =
     (case p_value n s of
        None \<Rightarrow> None
      | Some (v, r) \<Rightarrow>
          (case skip_ws r of
             c # r' \<Rightarrow> if c = CHR '']'' then Some ([v], r')
                       else if c = CHR '','' then
                         (case p_elems n r' of None \<Rightarrow> None | Some (vs, r'') \<Rightarrow> Some (v # vs, r''))
                       else None
           | [] \<Rightarrow> None))"
| "p_members 0 s = None"
| "p_members (Suc n) s =
     (case skip_ws s of
        q # cs \<Rightarrow>
          if q \<noteq> CHR 0x22 then None
          else (case p_string [] cs of
                  None \<Rightarrow> None
                | Some (k, r) \<Rightarrow>
                    (case skip_ws r of
                       c # r1 \<Rightarrow>
                         if c \<noteq> CHR '':'' then None
                         else (case p_value n r1 of
                                 None \<Rightarrow> None
                               | Some (v, r2) \<Rightarrow>
                                   (case skip_ws r2 of
                                      d # r3 \<Rightarrow>
                                        if d = CHR ''}'' then Some ([(k, v)], r3)
                                        else if d = CHR '','' then
                                          (case p_members n r3 of
                                             None \<Rightarrow> None | Some (ms, r4) \<Rightarrow> Some ((k, v) # ms, r4))
                                        else None
                                    | [] \<Rightarrow> None))
                     | [] \<Rightarrow> None))
      | [] \<Rightarrow> None)"

definition json_parse :: "string \<Rightarrow> json option" where
  "json_parse s =
     (case p_value (2 * length s + 2) s of
        None \<Rightarrow> None
      | Some (v, r) \<Rightarrow> if skip_ws r = [] then Some v else None)"

subsection \<open>Decoding\<close>

abbreviation json_syntax_error :: error where
  "json_syntax_error \<equiv> EText ''invalid JSON''"

abbreviation json_type_error :: error where
  "json_type_error \<equiv> EText ''json: cannot unmarshal value into Go value''"

type_synonym 'a dec = "json \<Rightarrow> 'a \<Rightarrow> 'a res"

fun dec_string :: "string dec" where
  "dec_string (JStr s) _ = Ok s"
| "dec_string JNull old = Ok old"
| "dec_string _ _ = Err json_type_error"

fun dec_bool :: "bool dec" where
  "dec_bool (JBool b) _ = Ok b"
| "dec_bool JNull old = Ok old"
| "dec_bool _ _ = Err json_type_error"

fun dec_int :: "int dec" where
  "dec_int (JNum lit) _ = (case parse_int64 lit of None \<Rightarrow> Err json_type_error | Some i \<Rightarrow> Ok i)"
| "dec_int JNull old = Ok old"
| "dec_int _ _ = Err json_type_error"

definition nat_or_0 :: "nat option \<Rightarrow> nat" where
  "nat_or_0 x = (case x of None \<Rightarrow> 0 | Some n \<Rightarrow> n)"

text \<open>The value of a number literal: \<open>m / 10 ^ (fraction digits) * 10 ^ exponent\<close>.\<close>

definition number_value :: "string \<Rightarrow> rat" where
  "number_value lit =
     (let (neg, s1) = (case lit of c # cs \<Rightarrow> if c = CHR ''-'' then (True, cs) else (False, lit) | [] \<Rightarrow> (False, []));
          ip = takeWhile is_digit s1;
          s2 = dropWhile is_digit s1;
          (fp, s3) = (case s2 of c # cs \<Rightarrow> if c = CHR ''.'' then (takeWhile is_digit cs, dropWhile is_digit cs)
                                          else ([], s2) | [] \<Rightarrow> ([], []));
          ex = (case s3 of [] \<Rightarrow> 0
                | _ # cs \<Rightarrow> (case cs of
                     d # ds \<Rightarrow> if d = CHR ''-'' then - int (nat_or_0 (parse_nat ds))
                              else if d = CHR ''+'' then int (nat_or_0 (parse_nat ds))
                              else int (nat_or_0 (parse_nat cs))
                   | [] \<Rightarrow> 0));
          m = (of_nat (nat_or_0 (parse_nat (ip @ fp))) :: rat);
          e = ex - int (length fp);
          v = (if 0 \<le> e then m * 10 ^ nat e else m / 10 ^ nat (- e))
      in if neg then - v else v)"

text \<open>Literals that round to an infinite \<open>float64\<close> are an error.\<close>

fun dec_float :: "rat dec" where
  "dec_float (JNum lit) _ =
     (let v = number_value lit in
      if \<bar>v\<bar> \<ge> 2 ^ 1024 - 2 ^ 970 then Err json_type_error else Ok v)"
| "dec_float JNull old = Ok old"
| "dec_float _ _ = Err json_type_error"

fun dec_elems :: "'a dec \<Rightarrow> 'a \<Rightarrow> json list \<Rightarrow> 'a list res" where
  "dec_elems d z [] = Ok []"
| "dec_elems d z (v # vs) =
     (case d v z of
        Ok x \<Rightarrow> (case dec_elems d z vs of Ok xs \<Rightarrow> Ok (x # xs) | Err e \<Rightarrow> Err e | Panic p \<Rightarrow> Panic p)
      | Err e \<Rightarrow> Err e | Panic p \<Rightarrow> Panic p)"

fun dec_list :: "'a dec \<Rightarrow> 'a \<Rightarrow> 'a list dec" where
  "dec_list d z (JArr vs) _ = dec_elems d z vs"
| "dec_list d z JNull _ = Ok []"
| "dec_list d z _ _ = Err json_type_error"

fun dec_entries :: "'a dec \<Rightarrow> 'a \<Rightarrow> (string \<times> json) list \<Rightarrow> (string, 'a) gomap \<Rightarrow> (string, 'a) gomap res" where
  "dec_entries d z [] m = Ok m"
| "dec_entries d z ((k, v) # kvs) m =
     (case d v z of Ok x \<Rightarrow> dec_entries d z kvs (gput k x m) | Err e \<Rightarrow> Err e | Panic p \<Rightarrow> Panic p)"

fun dec_map :: "'a dec \<Rightarrow> 'a \<Rightarrow> (string, 'a) gomap dec" where
  "dec_map d z (JObj kvs) old = dec_entries d z kvs old"
| "dec_map d z JNull _ = Ok []"
| "dec_map d z _ _ = Err json_type_error"

definition lower_char :: "char \<Rightarrow> char" where
  "lower_char c = (let n = (of_char c :: nat) in if 65 \<le> n \<and> n \<le> 90 then char_of (n + 32) else c)"

text \<open>A key selects the field with exactly that name, else the first one equal up to case.\<close>

definition find_field :: "(string \<times> 'f) list \<Rightarrow> string \<Rightarrow> 'f option" where
  "find_field fs k =
     (case map_of fs k of
        Some f \<Rightarrow> Some f
      | None \<Rightarrow> map_option snd (find (\<lambda>(n, _). map lower_char n = map lower_char k) fs))"

fun dec_fields :: "(string \<times> 'a dec) list \<Rightarrow> (string \<times> json) list \<Rightarrow> 'a \<Rightarrow> 'a res" where
  "dec_fields fs [] x = Ok x"
| "dec_fields fs ((k, v) # kvs) x =
     (case find_field fs k of
        None \<Rightarrow> dec_fields fs kvs x
      | Some f \<Rightarrow> (case f v x of Ok x' \<Rightarrow> dec_fields fs kvs x' | Err e \<Rightarrow> Err e | Panic p \<Rightarrow> Panic p))"

fun dec_struct :: "(string \<times> 'a dec) list \<Rightarrow> 'a dec" where
  "dec_struct fs (JObj kvs) old = dec_fields fs kvs old"
| "dec_struct fs JNull old = Ok old"
| "dec_struct fs _ _ = Err json_type_error"

text \<open>A field of a struct: how to read it, how to write it, how to decode it.\<close>

definition field :: "('a \<Rightarrow> 'b) \<Rightarrow> ('b \<Rightarrow> 'a \<Rightarrow> 'a) \<Rightarrow> 'b dec \<Rightarrow> 'a dec" where
  "field rd wr d v x = (case d v (rd x) of Ok y \<Rightarrow> Ok (wr y x) | Err e \<Rightarrow> Err e | Panic p \<Rightarrow> Panic p)"

definition Unmarshal :: "'a dec \<Rightarrow> string \<Rightarrow> 'a \<Rightarrow> 'a res" where
  "Unmarshal d s x = (case json_parse s of None \<Rightarrow> Err json_syntax_error | Some v \<Rightarrow> d v x)"

subsection \<open>Printing\<close>

text \<open>
  The text \<open>json.Marshal\<close> makes of a value, with its escapes; bytes outside ASCII are copied, which is what it does with valid UTF-8
  other than U+2028 and U+2029.
\<close>

definition json_escape :: "char \<Rightarrow> string" where
  "json_escape c = (let n = (of_char c :: nat) in
     if n = 34 then [CHR 0x5C, CHR 0x22]
     else if n = 92 then [CHR 0x5C, CHR 0x5C]
     else if n = 8 then [CHR 0x5C, CHR ''b'']
     else if n = 12 then [CHR 0x5C, CHR ''f'']
     else if n = 10 then [CHR 0x5C, CHR ''n'']
     else if n = 13 then [CHR 0x5C, CHR ''r'']
     else if n = 9 then [CHR 0x5C, CHR ''t'']
     else if n < 32 \<or> n = 60 \<or> n = 62 \<or> n = 38 then [CHR 0x5C, CHR ''u'', CHR ''0'', CHR ''0'', hex_digit (n div 16), hex_digit (n mod 16)]
     else [c])"

definition print_string :: "string \<Rightarrow> string" where
  "print_string s = [CHR 0x22] @ concat (map json_escape s) @ [CHR 0x22]"

fun join_with :: "string \<Rightarrow> string list \<Rightarrow> string" where
  "join_with sep [] = []"
| "join_with sep [x] = x"
| "join_with sep (x # y # ys) = x @ sep @ join_with sep (y # ys)"

fun json_print :: "json \<Rightarrow> string" where
  "json_print JNull = ''null''"
| "json_print (JBool b) = (if b then ''true'' else ''false'')"
| "json_print (JNum lit) = lit"
| "json_print (JStr s) = print_string s"
| "json_print (JArr vs) = ''['' @ join_with '','' (map json_print vs) @ '']''"
| "json_print (JObj kvs) = ''{'' @ join_with '','' (map (\<lambda>(k, v). print_string k @ '':'' @ json_print v) kvs) @ ''}''"

text \<open>Values whose number literals are the integers \<open>itoa\<close> writes.\<close>

fun json_ok :: "json \<Rightarrow> bool" where
  "json_ok (JNum lit) = (\<exists>i. lit = itoa i)"
| "json_ok (JArr vs) = (\<forall>v \<in> set vs. json_ok v)"
| "json_ok (JObj kvs) = (\<forall>kv \<in> set kvs. json_ok (snd kv))"
| "json_ok _ = True"

subsection \<open>Lemmas: strings and numbers\<close>

lemma hex_val_hex_digit: "d < 16 \<Longrightarrow> hex_val (hex_digit d) = Some d"
proof -
  assume "d < 16"
  then have "d \<in> {0,1,2,3,4,5,6,7,8,9,10,11,12,13,14,15}" by (simp, arith)
  then show ?thesis by (auto simp: hex_val_def hex_digit_def)
qed

lemma p_string_unicode:
  assumes "(of_char c :: nat) < 128"
  shows "p_string acc ([CHR 0x5C, CHR ''u'', CHR ''0'', CHR ''0'', hex_digit (of_char c div 16), hex_digit (of_char c mod 16)] @ r) =
    p_string (acc @ [c]) r"
proof -
  let ?n = "of_char c :: nat"
  have "hex_val (hex_digit (?n div 16)) = Some (?n div 16)" and "hex_val (hex_digit (?n mod 16)) = Some (?n mod 16)"
    using assms by (auto intro!: hex_val_hex_digit)
  moreover have "hex_val CHR ''0'' = Some 0" by (simp add: hex_val_def)
  moreover have "utf8 ?n = [c]" using assms by (simp add: utf8_def)
  ultimately show ?thesis by simp
qed

lemma p_string_escape: "p_string acc (json_escape c @ r) = p_string (acc @ [c]) r"
proof -
  let ?n = "of_char c :: nat" and ?short = "[CHR 0x22, CHR 0x5C, CHR 0x08, CHR 0x0C, CHR 0x0A, CHR 0x0D, CHR 0x09]"
  have eq: "?n = k \<Longrightarrow> k < 256 \<Longrightarrow> c = char_of k" for k by auto
  consider "c \<in> set ?short" | "c \<notin> set ?short" "?n < 32 \<or> ?n = 60 \<or> ?n = 62 \<or> ?n = 38"
    | "c \<notin> set ?short" "\<not> ?n < 32" "?n \<noteq> 60" "?n \<noteq> 62" "?n \<noteq> 38" by blast
  then show ?thesis
  proof cases
    case 1
    then show ?thesis by (auto simp: json_escape_def)
  next
    case 2
    then have "?n \<noteq> 34" "?n \<noteq> 92" "?n \<noteq> 8" "?n \<noteq> 12" "?n \<noteq> 10" "?n \<noteq> 13" "?n \<noteq> 9"
      using eq [of 34] eq [of 92] eq [of 8] eq [of 12] eq [of 10] eq [of 13] eq [of 9] by (auto simp: char_of_def)
    then have "json_escape c = [CHR 0x5C, CHR ''u'', CHR ''0'', CHR ''0'', hex_digit (?n div 16), hex_digit (?n mod 16)]"
      using 2(2) by (simp add: json_escape_def Let_def)
    then show ?thesis using p_string_unicode [of c acc r] 2(2) by auto
  next
    case 3
    then have "json_escape c = [c]"
      using eq [of 34] eq [of 92] by (auto simp: json_escape_def Let_def char_of_def)
    with 3 show ?thesis by simp
  qed
qed

lemma p_string_print: "p_string acc (concat (map json_escape s) @ CHR 0x22 # r) = Some (acc @ s, r)"
  by (induction s arbitrary: acc) (simp_all add: p_string_escape)

definition delim :: "string \<Rightarrow> bool" where
  "delim r \<longleftrightarrow> r = [] \<or> hd r \<in> {CHR '','', CHR '']'', CHR ''}''}"

lemma is_digit_iff: "is_digit c \<longleftrightarrow> 48 \<le> (of_char c :: nat) \<and> (of_char c :: nat) \<le> 57"
  by (simp add: is_digit_def digit_val_def Let_def)

lemma nat_str_is_digit: "c \<in> set (nat_str n) \<Longrightarrow> is_digit c"
  using nat_str_digits [of c n] by (auto simp: is_digit_iff)

lemma nat_str_zero: "nat_str n = CHR ''0'' # cs \<Longrightarrow> cs = []"
proof (induction n arbitrary: cs rule: nat_str.induct)
  case (1 n)
  show ?case
  proof (cases "n < 10")
    case True
    with "1.prems" show ?thesis by (subst (asm) nat_str.simps) simp
  next
    case False
    obtain d ds where h: "nat_str (n div 10) = d # ds" by (cases "nat_str (n div 10)") auto
    with False "1.prems" have d: "d = CHR ''0''" by (subst (asm) nat_str.simps) simp
    with "1.IH" [OF False, of ds] h have "nat_str (n div 10) = [CHR ''0'']" by simp
    also have "[CHR ''0''] = nat_str 0" by (subst nat_str.simps) (simp add: digit_char_def)
    finally have "n div 10 = 0" by (simp only: nat_str_inject)
    with False show ?thesis by simp
  qed
qed

lemma take_digits: "delim r \<Longrightarrow> \<forall>c \<in> set s. is_digit c \<Longrightarrow>
    takeWhile is_digit (s @ r) = s \<and> dropWhile is_digit (s @ r) = r"
proof -
  assume d: "delim r" and s: "\<forall>c \<in> set s. is_digit c"
  have "takeWhile is_digit r = []" and "dropWhile is_digit r = r"
    using d by (cases r; auto simp: delim_def is_digit_iff)+
  with s show ?thesis by (simp add: takeWhile_append2 dropWhile_append2)
qed

lemma p_int_part_nat_str: "delim r \<Longrightarrow> p_int_part (nat_str n @ r) = Some (nat_str n, r)"
proof -
  assume d: "delim r"
  obtain c cs where h: "nat_str n = c # cs" by (cases "nat_str n") auto
  have td: "takeWhile is_digit (nat_str n @ r) = nat_str n \<and> dropWhile is_digit (nat_str n @ r) = r"
    using d nat_str_is_digit by (intro take_digits) auto
  show ?thesis
  proof (cases "c = CHR ''0''")
    case True
    with h nat_str_zero [of n cs] show ?thesis by (simp add: p_int_part_def)
  next
    case False
    moreover have "is_digit c" using nat_str_is_digit [of c n] h by simp
    ultimately show ?thesis using td h by (simp add: p_int_part_def)
  qed
qed

lemma p_frac_delim: "delim r \<Longrightarrow> p_frac_part r = Some ([], r)"
  by (cases r) (auto simp: p_frac_part_def delim_def)

lemma p_exp_delim: "delim r \<Longrightarrow> p_exp_part r = Some ([], r)"
  by (cases r) (auto simp: p_exp_part_def delim_def)

lemma p_number_itoa: "delim r \<Longrightarrow> p_number (itoa i @ r) = Some (itoa i, r)"
proof -
  assume d: "delim r"
  obtain c cs where h: "nat_str (nat i) = c # cs" by (cases "nat_str (nat i)") auto
  from nat_str_hd [OF h] have "c \<noteq> CHR ''-''" by simp
  with h p_int_part_nat_str [OF d, of "nat i"] p_int_part_nat_str [OF d, of "nat (- i)"] d show ?thesis
    by (simp add: p_number_def itoa_def p_frac_delim p_exp_delim)
qed

subsection \<open>Lemmas: the round trip\<close>

lemma itoa_hd: "itoa i = c # cs \<Longrightarrow> c = CHR ''-'' \<or> is_digit c"
  using nat_str_is_digit [of c "nat i"] by (auto simp: itoa_def split: if_splits)

lemma json_print_hd:
  assumes "json_ok v"
  obtains c cs where "json_print v = c # cs" and "\<not> json_space c" and "c \<noteq> CHR '']''" and "c \<noteq> CHR ''}''"
proof (cases v)
  case (JNum lit)
  with assms obtain i where i: "lit = itoa i" by auto
  obtain c cs where h: "itoa i = c # cs" by (cases "itoa i") auto
  from itoa_hd [OF h] have "\<not> json_space c" and "c \<noteq> CHR '']''" and "c \<noteq> CHR ''}''"
    by (auto simp: json_space_def is_digit_iff)
  then show ?thesis using that [of c cs] JNum i h by simp
next
  case (JBool b)
  then show ?thesis using that by (cases b) (auto simp: json_space_def)
qed (use that in \<open>auto simp: print_string_def json_space_def\<close>)

lemma skip_ws_hd: "\<not> json_space c \<Longrightarrow> skip_ws (c # cs) = c # cs"
  by (simp add: skip_ws_def)

lemma join_with_Cons: "vs \<noteq> [] \<Longrightarrow> join_with sep (x # vs) = x @ sep @ join_with sep vs"
  by (cases vs) auto

lemma p_value_num:
  assumes "delim r"
  shows "p_value (Suc n) (itoa i @ r) = Some (JNum (itoa i), r)"
proof -
  obtain c cs where h: "itoa i = c # cs" by (cases "itoa i") auto
  with itoa_hd [OF h] have c: "\<not> json_space c" "c \<noteq> CHR 0x22" "c \<noteq> CHR ''[''" "c \<noteq> CHR ''{''"
    "c \<noteq> CHR ''n''" "c \<noteq> CHR ''t''" "c \<noteq> CHR ''f''" by (auto simp: json_space_def is_digit_iff)
  have "p_number (c # cs @ r) = Some (itoa i, r)" using p_number_itoa [OF assms, of i] h by simp
  with c h show ?thesis by (simp add: skip_ws_hd strip_prefix_def has_prefix_def)
qed

lemma p_elems_print:
  assumes val: "\<And>u n r. u \<in> set us \<Longrightarrow> delim r \<Longrightarrow> length (json_print u) < n \<Longrightarrow>
      p_value n (json_print u @ r) = Some (u, r)"
    and "us \<noteq> []" and "length (join_with '','' (map json_print us)) + 1 < k"
  shows "p_elems k (join_with '','' (map json_print us) @ CHR '']'' # r) = Some (us, r)"
  using assms
proof (induction us arbitrary: k)
  case (Cons u us)
  from Cons.prems obtain m where k: "k = Suc m" by (cases k) auto
  show ?case
  proof (cases "us = []")
    case True
    have "p_value m (json_print u @ CHR '']'' # r) = Some (u, CHR '']'' # r)"
      using Cons.prems(1) [of u "CHR '']'' # r" m] True Cons.prems(3) k by (simp add: delim_def)
    with True k show ?thesis by (simp add: skip_ws_hd json_space_def)
  next
    case False
    let ?rest = "join_with '','' (map json_print us) @ CHR '']'' # r"
    have j: "join_with '','' (map json_print (u # us)) = json_print u @ CHR '','' # join_with '','' (map json_print us)"
      using False by (simp add: join_with_Cons)
    have "p_value m (json_print u @ CHR '','' # ?rest) = Some (u, CHR '','' # ?rest)"
      using Cons.prems(1) [of u "CHR '','' # ?rest" m] Cons.prems(3) j k by (simp add: delim_def)
    moreover have "p_elems m ?rest = Some (us, r)"
      using Cons.prems j k False by (intro Cons.IH) auto
    ultimately show ?thesis unfolding j k by (simp add: skip_ws_hd json_space_def)
  qed
qed simp

abbreviation print_member :: "string \<times> json \<Rightarrow> string" where
  "print_member \<equiv> \<lambda>(k, v). print_string k @ '':'' @ json_print v"

lemma p_members_print:
  assumes val: "\<And>u n r. u \<in> snd ` set us \<Longrightarrow> delim r \<Longrightarrow> length (json_print u) < n \<Longrightarrow>
      p_value n (json_print u @ r) = Some (u, r)"
    and "us \<noteq> []" and "length (join_with '','' (map print_member us)) < k"
  shows "p_members k (join_with '','' (map print_member us) @ CHR ''}'' # r) = Some (us, r)"
  using assms
proof (induction us arbitrary: k)
  case (Cons u us)
  obtain key v where uv: "u = (key, v)" by (cases u)
  from Cons.prems obtain m where k: "k = Suc m" by (cases k) auto
  show ?case
  proof (cases "us = []")
    case True
    have "p_value m (json_print v @ CHR ''}'' # r) = Some (v, CHR ''}'' # r)"
      using Cons.prems(1) [of v "CHR ''}'' # r" m] True Cons.prems(3) k uv
      by (simp add: delim_def print_string_def)
    with True k uv show ?thesis using p_string_print [of "[]" key]
      by (simp add: skip_ws_hd json_space_def print_string_def)
  next
    case False
    let ?rest = "join_with '','' (map print_member us) @ CHR ''}'' # r"
    have j: "join_with '','' (map print_member (u # us)) =
        print_string key @ CHR '':'' # json_print v @ CHR '','' # join_with '','' (map print_member us)"
      using False uv by (simp add: join_with_Cons)
    have "p_value m (json_print v @ CHR '','' # ?rest) = Some (v, CHR '','' # ?rest)"
      using Cons.prems(1) [of v "CHR '','' # ?rest" m] Cons.prems(3) j k uv
      by (simp add: delim_def print_string_def)
    moreover have "p_members m ?rest = Some (us, r)"
      using Cons.prems j k False by (intro Cons.IH) auto
    ultimately show ?thesis unfolding j k using p_string_print [of "[]" key]
      by (simp add: uv skip_ws_hd json_space_def print_string_def)
  qed
qed simp

lemma parse_print_arr:
  assumes ok: "json_ok (JArr vs)" and n: "length (json_print (JArr vs)) < n"
    and val: "\<And>u n r. u \<in> set vs \<Longrightarrow> delim r \<Longrightarrow> length (json_print u) < n \<Longrightarrow>
      p_value n (json_print u @ r) = Some (u, r)"
  shows "p_value n (json_print (JArr vs) @ r) = Some (JArr vs, r)"
proof (cases vs)
  case Nil
  with n show ?thesis by (cases n) (simp_all add: skip_ws_hd json_space_def)
next
  case (Cons v0 vs0)
  obtain m where m: "n = Suc m" using n by (cases n) auto
  from Cons ok have "json_ok v0" by simp
  then obtain c cs where h: "json_print v0 = c # cs" "\<not> json_space c" "c \<noteq> CHR '']''" by (rule json_print_hd)
  obtain cs' where j: "join_with '','' (map json_print vs) @ CHR '']'' # r = c # cs'"
    using h(1) Cons by (cases vs0) auto
  have "p_elems m (join_with '','' (map json_print vs) @ CHR '']'' # r) = Some (vs, r)"
    using Cons n m by (intro p_elems_print val) auto
  then have "p_elems m (c # cs') = Some (vs, r)" unfolding j .
  moreover have "skip_ws (CHR ''['' # x) = CHR ''['' # x" for x by (simp add: skip_ws_hd json_space_def)
  ultimately show ?thesis using h m by (simp add: skip_ws_hd j)
qed

lemma parse_print_obj:
  assumes n: "length (json_print (JObj kvs)) < n"
    and val: "\<And>u n r. u \<in> snd ` set kvs \<Longrightarrow> delim r \<Longrightarrow> length (json_print u) < n \<Longrightarrow>
      p_value n (json_print u @ r) = Some (u, r)"
  shows "p_value n (json_print (JObj kvs) @ r) = Some (JObj kvs, r)"
proof (cases kvs)
  case Nil
  with n show ?thesis by (cases n) (simp_all add: skip_ws_hd json_space_def)
next
  case (Cons kv0 kvs0)
  obtain m where m: "n = Suc m" using n by (cases n) auto
  obtain cs' where j: "join_with '','' (map print_member kvs) @ CHR ''}'' # r = CHR 0x22 # cs'"
    using Cons by (cases kvs0; cases kv0) (auto simp: print_string_def)
  have "p_members m (join_with '','' (map print_member kvs) @ CHR ''}'' # r) = Some (kvs, r)"
    using Cons n m by (intro p_members_print val) auto
  then have "p_members m (CHR 0x22 # cs') = Some (kvs, r)" unfolding j .
  with m j show ?thesis by (simp add: skip_ws_hd json_space_def)
qed

lemma parse_print:
  "json_ok v \<Longrightarrow> delim r \<Longrightarrow> length (json_print v) < n \<Longrightarrow> p_value n (json_print v @ r) = Some (v, r)"
proof (induction v arbitrary: n r rule: json_print.induct)
  case 1
  then show ?case by (cases n) (simp_all add: skip_ws_hd json_space_def strip_prefix_def has_prefix_def)
next
  case (2 b)
  then show ?case by (cases n) (simp_all add: skip_ws_hd json_space_def strip_prefix_def has_prefix_def)
next
  case (3 lit)
  then obtain m where "n = Suc m" by (cases n) auto
  with 3 show ?case using p_value_num by auto
next
  case (4 s)
  then show ?case using p_string_print [of "[]" s r]
    by (cases n) (simp_all add: skip_ws_hd json_space_def print_string_def)
next
  case (5 vs)
  then show ?case by (intro parse_print_arr) auto
next
  case (6 kvs)
  then show ?case by (intro parse_print_obj) auto
qed

lemma json_parse_print: "json_ok v \<Longrightarrow> json_parse (json_print v) = Some v"
  using parse_print [of v "[]" "2 * length (json_print v) + 2"]
  by (simp add: json_parse_def delim_def skip_ws_def)

subsection \<open>Values of interface type\<close>

text \<open>
  What \<open>json.Marshal\<close> makes of a value of type \<open>interface{}\<close>: a map is an object with its keys in the order of their bytes.
  \<open>fl\<close> renders a \<open>float64\<close>. Marshalling the values a \<open>gval\<close> stands for does not fail.
\<close>

fun bytes_le :: "string \<Rightarrow> string \<Rightarrow> bool" where
  "bytes_le [] ys = True"
| "bytes_le (x # xs) [] = False"
| "bytes_le (x # xs) (y # ys) =
     (if x = y then bytes_le xs ys else (of_char x :: nat) < of_char y)"

fun insert_key :: "string \<times> 'a \<Rightarrow> (string \<times> 'a) list \<Rightarrow> (string \<times> 'a) list" where
  "insert_key kv [] = [kv]"
| "insert_key kv (x # xs) = (if bytes_le (fst kv) (fst x) then kv # x # xs else x # insert_key kv xs)"

definition sort_keys :: "(string \<times> 'a) list \<Rightarrow> (string \<times> 'a) list" where
  "sort_keys kvs = foldr insert_key kvs []"

fun gval_json :: "(rat \<Rightarrow> string) \<Rightarrow> gval \<Rightarrow> json" where
  "gval_json fl (GStr s) = JStr s"
| "gval_json fl (GInt i) = JNum (itoa i)"
| "gval_json fl (GFloat r) = JNum (fl r)"
| "gval_json fl (GBool b) = JBool b"
| "gval_json fl GNil = JNull"
| "gval_json fl (GArr vs) = JArr (map (gval_json fl) vs)"
| "gval_json fl (GObj kvs) = JObj (sort_keys (map (\<lambda>(k, v). (k, gval_json fl v)) kvs))"

definition Marshal :: "(rat \<Rightarrow> string) \<Rightarrow> gval \<Rightarrow> string" where
  "Marshal fl v = json_print (gval_json fl v)"

text \<open>Decoding into a value of type \<open>interface{}\<close>; every number is a \<open>float64\<close>.\<close>

fun dec_any :: "json \<Rightarrow> gval \<Rightarrow> gval res"
  and dec_anys :: "json list \<Rightarrow> gval list res"
  and dec_kvs :: "(string \<times> json) list \<Rightarrow> (string, gval) gomap \<Rightarrow> (string, gval) gomap res" where
  "dec_any JNull _ = Ok GNil"
| "dec_any (JBool b) _ = Ok (GBool b)"
| "dec_any (JStr s) _ = Ok (GStr s)"
| "dec_any (JNum lit) _ = (case dec_float (JNum lit) 0 of Ok r \<Rightarrow> Ok (GFloat r) | Err e \<Rightarrow> Err e | Panic p \<Rightarrow> Panic p)"
| "dec_any (JArr vs) _ = (case dec_anys vs of Ok xs \<Rightarrow> Ok (GArr xs) | Err e \<Rightarrow> Err e | Panic p \<Rightarrow> Panic p)"
| "dec_any (JObj kvs) _ = (case dec_kvs kvs [] of Ok m \<Rightarrow> Ok (GObj m) | Err e \<Rightarrow> Err e | Panic p \<Rightarrow> Panic p)"
| "dec_anys [] = Ok []"
| "dec_anys (v # vs) =
     (case dec_any v GNil of
        Ok x \<Rightarrow> (case dec_anys vs of Ok xs \<Rightarrow> Ok (x # xs) | Err e \<Rightarrow> Err e | Panic p \<Rightarrow> Panic p)
      | Err e \<Rightarrow> Err e | Panic p \<Rightarrow> Panic p)"
| "dec_kvs [] m = Ok m"
| "dec_kvs ((k, v) # kvs) m =
     (case dec_any v GNil of Ok x \<Rightarrow> dec_kvs kvs (gput k x m) | Err e \<Rightarrow> Err e | Panic p \<Rightarrow> Panic p)"

lemma set_insert_key: "set (insert_key kv xs) = insert kv (set xs)"
  by (induction xs) auto

lemma set_sort_keys [simp]: "set (sort_keys kvs) = set kvs"
  unfolding sort_keys_def by (induction kvs) (auto simp: set_insert_key)

text \<open>A value without a \<open>float64\<close> in it.\<close>

fun no_float :: "gval \<Rightarrow> bool" where
  "no_float (GFloat r) = False"
| "no_float (GArr vs) = list_all no_float vs"
| "no_float (GObj kvs) = list_all (\<lambda>kv. no_float (snd kv)) kvs"
| "no_float _ = True"

lemma gval_json_ok: "no_float v \<Longrightarrow> json_ok (gval_json fl v)"
  by (induction v) (auto simp: list_all_iff split_beta)

lemma Marshal_parse: "no_float v \<Longrightarrow> json_parse (Marshal fl v) = Some (gval_json fl v)"
  unfolding Marshal_def by (intro json_parse_print gval_json_ok)

subsection \<open>Decoders return\<close>

text \<open>No decoder panics, whatever the document.\<close>

definition total_dec :: "'a dec \<Rightarrow> bool" where
  "total_dec d \<longleftrightarrow> (\<forall>v x p. d v x \<noteq> Panic p)"

lemma total_scalars: "total_dec dec_string" "total_dec dec_bool" "total_dec dec_int" "total_dec dec_float"
  by (auto simp: total_dec_def Let_def split: option.splits if_splits
      elim!: dec_string.elims dec_bool.elims dec_int.elims dec_float.elims)

lemma total_list:
  assumes "total_dec d"
  shows "total_dec (dec_list d z)"
proof -
  have "dec_elems d z vs \<noteq> Panic p" for vs p
    using assms by (induction vs) (auto simp: total_dec_def split: res.splits)
  then show ?thesis by (auto simp: total_dec_def elim!: dec_list.elims dest: sym)
qed

lemma total_field: "total_dec d \<Longrightarrow> total_dec (field rd wr d)"
  by (auto simp: total_dec_def field_def split: res.splits)

lemma find_field_mem: "find_field fs k = Some f \<Longrightarrow> f \<in> snd ` set fs"
  by (auto simp: find_field_def find_Some_iff split: option.splits dest!: map_of_SomeD intro: rev_image_eqI)
    (metis image_eqI nth_mem snd_conv)

lemma total_struct:
  assumes "list_all (\<lambda>f. total_dec (snd f)) fs"
  shows "total_dec (dec_struct fs)"
proof -
  have "dec_fields fs kvs x \<noteq> Panic p" for kvs x p
  proof (induction kvs arbitrary: x)
    case (Cons kv kvs)
    obtain k v where kv: "kv = (k, v)" by fastforce
    have "f v x \<noteq> Panic q" if "find_field fs k = Some f" for f q
      using find_field_mem [OF that] assms by (auto simp: list_all_iff total_dec_def)
    with Cons show ?case unfolding kv by (auto split: option.splits res.splits)
  qed simp
  then show ?thesis by (auto simp: total_dec_def elim!: dec_struct.elims dest: sym)
qed

lemmas total_dec_intros = total_scalars total_list total_field total_struct

lemma Unmarshal_total: "total_dec d \<Longrightarrow> Unmarshal d s x \<noteq> Panic p"
  by (auto simp: Unmarshal_def total_dec_def split: option.splits)

end
