(* ===== verification/Config.thy ===== *)
theory Config
  imports JSON
begin

text \<open>
  Configuration, \<open>internal/config/types.go\<close> and \<open>internal/config/loader.go\<close>: the
  configuration structs, the validation of the global configuration and of the device registry,
  the device lookup, the Postgres connection string and the loading of a file: the expansion of
  environment variables in its text (\<open>os.ExpandEnv\<close>) and the decoding of the JSON text, one
  decoder per struct. The file system and the environment are arguments.
\<close>

subsection \<open>Structs\<close>

record ServerConfig =
  srv_GRPCPort :: int
  srv_RESTPort :: int
  srv_Host :: string

record QEMUConfig =
  qc_BinaryPath :: string
  qc_DataDir :: string
  qc_KernelPath :: string
  qc_RootFSPath :: string
  qc_ShareDir :: string
  qc_GuestMount :: string
  qc_DefaultMemoryMB :: int
  qc_DefaultCPUs :: int
  qc_VMImageDir :: string
  qc_SocketDir :: string
  qc_SerialSocketDir :: string

record FPGAConfig =
  fpga_VFIOGroupPath :: string
  fpga_IOMMUEnabled :: bool
  fpga_PCIAddresses :: "string list"

record PostgresConfig =
  pg_Host :: string
  pg_Port :: int
  pg_User :: string
  pg_Password :: string
  pg_Database :: string
  pg_MaxConnections :: int
  pg_SSLMode :: string

record RedisConfig =
  rd_Host :: string
  rd_Port :: int
  rd_Password :: string
  rd_DB :: int
  rd_PoolSize :: int

record ObjectStoreConfig =
  os_Endpoint :: string
  os_AccessKey :: string
  os_SecretKey :: string
  os_Bucket :: string
  os_UseSSL :: bool

record StorageConfig =
  sto_Postgres :: PostgresConfig
  sto_Redis :: RedisConfig
  sto_ObjectStore :: ObjectStoreConfig

record TelemetryConfig =
  tel_MetricsPort :: int
  tel_TraceEndpoint :: string
  tel_LogLevel :: string
  tel_LogFormat :: string

record VMDefaultsConfig =
  vd_BootTimeoutSeconds :: int
  vd_HeartbeatIntervalSeconds :: int
  vd_HeartbeatTimeoutSeconds :: int
  vd_TestTimeoutSeconds :: int
  vd_MaxConcurrentVMs :: int

record ClusterConfig =
  cl_NodeID :: string
  cl_NodeRole :: string
  cl_HeartbeatIntervalSec :: int
  cl_NodeHeartbeatTTLSec :: int
  cl_HostCPUs :: int
  cl_HostMemMB :: int

record GlobalConfig =
  gc_Server :: ServerConfig
  gc_QEMU :: QEMUConfig
  gc_FPGA :: FPGAConfig
  gc_Storage :: StorageConfig
  gc_Telemetry :: TelemetryConfig
  gc_VMDefaults :: VMDefaultsConfig
  gc_Cluster :: ClusterConfig

record BARDef =
  bar_Type :: string
  bar_SizeBytes :: int
  bar_Description :: string

record DeviceEntry =
  dev_ID :: string
  dev_Name :: string
  dev_VendorID :: string
  dev_DeviceID :: string
  dev_PCIClass :: string
  dev_QEMUDeviceName :: string
  dev_DriverModule :: string
  dev_DriverPath :: string
  dev_DeviceNode :: string
  dev_Description :: string
  dev_TargetModes :: "string list"
  dev_Capabilities :: "string list"
  dev_BARLayout :: "(string, BARDef) gomap"
  dev_TestSuites :: "string list"
  dev_VishwaEnv :: "(string, string) gomap"
  dev_VishwaLoader :: string
  dev_VishwaLibDir :: string
  dev_VishwaTestDir :: string

record DeviceRegistry =
  reg_Devices :: "DeviceEntry list"

subsection \<open>Validation and lookup\<close>

definition DSN :: "PostgresConfig \<Rightarrow> string" where
  "DSN c =
     (let sslMode = (if pg_SSLMode c = '''' then ''disable'' else pg_SSLMode c);
          port = (if pg_Port c = 0 then 5432 else pg_Port c)
      in ''postgres://'' @ pg_User c @ '':'' @ pg_Password c @ ''@'' @ pg_Host c @ '':'' @ itoa port @
         ''/'' @ pg_Database c @ ''?sslmode='' @ sslMode)"

definition validate_global :: "GlobalConfig \<Rightarrow> GlobalConfig res" where
  "validate_global c =
     (if srv_GRPCPort (gc_Server c) = 0 then Err (EText ''server.grpc_port is required'')
      else if srv_RESTPort (gc_Server c) = 0 then Err (EText ''server.rest_port is required'')
      else if qc_BinaryPath (gc_QEMU c) = '''' then Err (EText ''qemu.binary_path is required'')
      else Ok (if vd_MaxConcurrentVMs (gc_VMDefaults c) = 0
               then c\<lparr>gc_VMDefaults := (gc_VMDefaults c)\<lparr>vd_MaxConcurrentVMs := 5\<rparr>\<rparr> else c))"

fun validate_devices :: "nat \<Rightarrow> string list \<Rightarrow> DeviceEntry list \<Rightarrow> error option" where
  "validate_devices i seen [] = None"
| "validate_devices i seen (d # ds) =
     (if dev_ID d = '''' then Some (EText (''device['' @ itoa (int i) @ ''].id is required''))
      else if dev_ID d \<in> set seen then Some (EText (''duplicate device id: '' @ dev_ID d))
      else if dev_QEMUDeviceName d = '''' then
        Some (EText (''device['' @ itoa (int i) @ ''] ('' @ dev_ID d @ ''): qemu_device_name is required''))
      else if dev_DriverModule d = '''' then
        Some (EText (''device['' @ itoa (int i) @ ''] ('' @ dev_ID d @ ''): driver_module is required''))
      else validate_devices (Suc i) (dev_ID d # seen) ds)"

text \<open>The message of the first error has a dash that is not ASCII; it is written as its UTF-8 bytes.\<close>

definition validate_registry :: "DeviceRegistry \<Rightarrow> DeviceRegistry res" where
  "validate_registry r =
     (if reg_Devices r = [] then
        Err (EText (''device registry is empty '' @ [CHR 0xE2, CHR 0x80, CHR 0x94] @ '' at least one device is required''))
      else case validate_devices 0 [] (reg_Devices r) of Some e \<Rightarrow> Err e | None \<Rightarrow> Ok r)"

fun find_device :: "DeviceEntry list \<Rightarrow> string \<Rightarrow> DeviceEntry res" where
  "find_device [] i = Err (EDeviceNotFound i)"
| "find_device (d # ds) i = (if dev_ID d = i then Ok d else find_device ds i)"

definition FindDevice :: "DeviceRegistry \<Rightarrow> string \<Rightarrow> DeviceEntry res" where
  "FindDevice r i = find_device (reg_Devices r) i"

subsection \<open>Loading a file\<close>

definition is_shell_special :: "char \<Rightarrow> bool" where
  "is_shell_special c \<longleftrightarrow> c \<in> set ''*#$@!?-0123456789''"

definition is_alpha_num :: "char \<Rightarrow> bool" where
  "is_alpha_num c \<longleftrightarrow> (let n = (of_char c :: nat) in
     n = 95 \<or> 48 \<le> n \<and> n \<le> 57 \<or> 97 \<le> n \<and> n \<le> 122 \<or> 65 \<le> n \<and> n \<le> 90)"

text \<open>\<open>os.getShellName\<close>: the name after a dollar sign and how many bytes it takes.\<close>

definition shell_name :: "string \<Rightarrow> string \<times> nat" where
  "shell_name s =
     (case s of
        [] \<Rightarrow> ([], 0)
      | c # rest \<Rightarrow>
          if c = CHR ''{'' then
            (case rest of
               b # d # _ \<Rightarrow>
                 if is_shell_special b \<and> d = CHR ''}'' then ([b], 3)
                 else (let name = takeWhile (\<lambda>x. x \<noteq> CHR ''}'') rest in
                       if length name = length rest then ([], 1)
                       else if name = [] then ([], 2) else (name, length name + 2))
             | _ \<Rightarrow> (let name = takeWhile (\<lambda>x. x \<noteq> CHR ''}'') rest in
                     if length name = length rest then ([], 1)
                     else if name = [] then ([], 2) else (name, length name + 2)))
          else if is_shell_special c then ([c], 1)
          else (let name = takeWhile is_alpha_num s in (name, length name)))"

text \<open>\<open>os.Expand\<close>, with the environment as a function from names to values.\<close>

function expand :: "(string \<Rightarrow> string) \<Rightarrow> string \<Rightarrow> string" where
  "expand env [] = []"
| "expand env (c # cs) =
     (if c = CHR ''$'' \<and> cs \<noteq> [] then
        (case shell_name cs of (name, w) \<Rightarrow>
           (if name = [] \<and> 0 < w then [] else if name = [] then [c] else env name) @ expand env (drop w cs))
      else c # expand env cs)"
  by pat_completeness auto
termination
  by (relation "measure (\<lambda>(env, s). length s)") auto

definition ExpandEnv :: "(string \<Rightarrow> string) \<Rightarrow> string \<Rightarrow> string" where
  "ExpandEnv env s = expand env s"

text \<open>The struct tags: which JSON key fills which field, at which type.\<close>

definition dec_ServerConfig :: "ServerConfig dec" where
  "dec_ServerConfig = dec_struct [
     (''grpc_port'', field srv_GRPCPort (\<lambda>v. srv_GRPCPort_update (\<lambda>_. v)) dec_int),
     (''rest_port'', field srv_RESTPort (\<lambda>v. srv_RESTPort_update (\<lambda>_. v)) dec_int),
     (''host'', field srv_Host (\<lambda>v. srv_Host_update (\<lambda>_. v)) dec_string)]"

definition dec_QEMUConfig :: "QEMUConfig dec" where
  "dec_QEMUConfig = dec_struct [
     (''binary_path'', field qc_BinaryPath (\<lambda>v. qc_BinaryPath_update (\<lambda>_. v)) dec_string),
     (''data_dir'', field qc_DataDir (\<lambda>v. qc_DataDir_update (\<lambda>_. v)) dec_string),
     (''kernel_path'', field qc_KernelPath (\<lambda>v. qc_KernelPath_update (\<lambda>_. v)) dec_string),
     (''rootfs_path'', field qc_RootFSPath (\<lambda>v. qc_RootFSPath_update (\<lambda>_. v)) dec_string),
     (''share_dir'', field qc_ShareDir (\<lambda>v. qc_ShareDir_update (\<lambda>_. v)) dec_string),
     (''guest_mount'', field qc_GuestMount (\<lambda>v. qc_GuestMount_update (\<lambda>_. v)) dec_string),
     (''default_memory_mb'', field qc_DefaultMemoryMB (\<lambda>v. qc_DefaultMemoryMB_update (\<lambda>_. v)) dec_int),
     (''default_cpus'', field qc_DefaultCPUs (\<lambda>v. qc_DefaultCPUs_update (\<lambda>_. v)) dec_int),
     (''vm_image_dir'', field qc_VMImageDir (\<lambda>v. qc_VMImageDir_update (\<lambda>_. v)) dec_string),
     (''socket_dir'', field qc_SocketDir (\<lambda>v. qc_SocketDir_update (\<lambda>_. v)) dec_string),
     (''serial_socket_dir'', field qc_SerialSocketDir (\<lambda>v. qc_SerialSocketDir_update (\<lambda>_. v)) dec_string)]"

definition dec_FPGAConfig :: "FPGAConfig dec" where
  "dec_FPGAConfig = dec_struct [
     (''vfio_group_path'', field fpga_VFIOGroupPath (\<lambda>v. fpga_VFIOGroupPath_update (\<lambda>_. v)) dec_string),
     (''iommu_enabled'', field fpga_IOMMUEnabled (\<lambda>v. fpga_IOMMUEnabled_update (\<lambda>_. v)) dec_bool),
     (''pci_addresses'', field fpga_PCIAddresses (\<lambda>v. fpga_PCIAddresses_update (\<lambda>_. v)) (dec_list dec_string []))]"

definition dec_PostgresConfig :: "PostgresConfig dec" where
  "dec_PostgresConfig = dec_struct [
     (''host'', field pg_Host (\<lambda>v. pg_Host_update (\<lambda>_. v)) dec_string),
     (''port'', field pg_Port (\<lambda>v. pg_Port_update (\<lambda>_. v)) dec_int),
     (''user'', field pg_User (\<lambda>v. pg_User_update (\<lambda>_. v)) dec_string),
     (''password'', field pg_Password (\<lambda>v. pg_Password_update (\<lambda>_. v)) dec_string),
     (''database'', field pg_Database (\<lambda>v. pg_Database_update (\<lambda>_. v)) dec_string),
     (''max_connections'', field pg_MaxConnections (\<lambda>v. pg_MaxConnections_update (\<lambda>_. v)) dec_int),
     (''ssl_mode'', field pg_SSLMode (\<lambda>v. pg_SSLMode_update (\<lambda>_. v)) dec_string)]"

definition dec_RedisConfig :: "RedisConfig dec" where
  "dec_RedisConfig = dec_struct [
     (''host'', field rd_Host (\<lambda>v. rd_Host_update (\<lambda>_. v)) dec_string),
     (''port'', field rd_Port (\<lambda>v. rd_Port_update (\<lambda>_. v)) dec_int),
     (''password'', field rd_Password (\<lambda>v. rd_Password_update (\<lambda>_. v)) dec_string),
     (''db'', field rd_DB (\<lambda>v. rd_DB_update (\<lambda>_. v)) dec_int),
     (''pool_size'', field rd_PoolSize (\<lambda>v. rd_PoolSize_update (\<lambda>_. v)) dec_int)]"

definition dec_ObjectStoreConfig :: "ObjectStoreConfig dec" where
  "dec_ObjectStoreConfig = dec_struct [
     (''endpoint'', field os_Endpoint (\<lambda>v. os_Endpoint_update (\<lambda>_. v)) dec_string),
     (''access_key'', field os_AccessKey (\<lambda>v. os_AccessKey_update (\<lambda>_. v)) dec_string),
     (''secret_key'', field os_SecretKey (\<lambda>v. os_SecretKey_update (\<lambda>_. v)) dec_string),
     (''bucket'', field os_Bucket (\<lambda>v. os_Bucket_update (\<lambda>_. v)) dec_string),
     (''use_ssl'', field os_UseSSL (\<lambda>v. os_UseSSL_update (\<lambda>_. v)) dec_bool)]"

definition dec_StorageConfig :: "StorageConfig dec" where
  "dec_StorageConfig = dec_struct [
     (''postgres'', field sto_Postgres (\<lambda>v. sto_Postgres_update (\<lambda>_. v)) dec_PostgresConfig),
     (''redis'', field sto_Redis (\<lambda>v. sto_Redis_update (\<lambda>_. v)) dec_RedisConfig),
     (''object_store'', field sto_ObjectStore (\<lambda>v. sto_ObjectStore_update (\<lambda>_. v)) dec_ObjectStoreConfig)]"

definition dec_TelemetryConfig :: "TelemetryConfig dec" where
  "dec_TelemetryConfig = dec_struct [
     (''metrics_port'', field tel_MetricsPort (\<lambda>v. tel_MetricsPort_update (\<lambda>_. v)) dec_int),
     (''trace_endpoint'', field tel_TraceEndpoint (\<lambda>v. tel_TraceEndpoint_update (\<lambda>_. v)) dec_string),
     (''log_level'', field tel_LogLevel (\<lambda>v. tel_LogLevel_update (\<lambda>_. v)) dec_string),
     (''log_format'', field tel_LogFormat (\<lambda>v. tel_LogFormat_update (\<lambda>_. v)) dec_string)]"

definition dec_VMDefaultsConfig :: "VMDefaultsConfig dec" where
  "dec_VMDefaultsConfig = dec_struct [
     (''boot_timeout_seconds'', field vd_BootTimeoutSeconds (\<lambda>v. vd_BootTimeoutSeconds_update (\<lambda>_. v)) dec_int),
     (''heartbeat_interval_seconds'',
        field vd_HeartbeatIntervalSeconds (\<lambda>v. vd_HeartbeatIntervalSeconds_update (\<lambda>_. v)) dec_int),
     (''heartbeat_timeout_seconds'',
        field vd_HeartbeatTimeoutSeconds (\<lambda>v. vd_HeartbeatTimeoutSeconds_update (\<lambda>_. v)) dec_int),
     (''test_timeout_seconds'', field vd_TestTimeoutSeconds (\<lambda>v. vd_TestTimeoutSeconds_update (\<lambda>_. v)) dec_int),
     (''max_concurrent_vms'', field vd_MaxConcurrentVMs (\<lambda>v. vd_MaxConcurrentVMs_update (\<lambda>_. v)) dec_int)]"

definition dec_ClusterConfig :: "ClusterConfig dec" where
  "dec_ClusterConfig = dec_struct [
     (''node_id'', field cl_NodeID (\<lambda>v. cl_NodeID_update (\<lambda>_. v)) dec_string),
     (''node_role'', field cl_NodeRole (\<lambda>v. cl_NodeRole_update (\<lambda>_. v)) dec_string),
     (''heartbeat_interval_seconds'',
        field cl_HeartbeatIntervalSec (\<lambda>v. cl_HeartbeatIntervalSec_update (\<lambda>_. v)) dec_int),
     (''node_heartbeat_ttl_seconds'',
        field cl_NodeHeartbeatTTLSec (\<lambda>v. cl_NodeHeartbeatTTLSec_update (\<lambda>_. v)) dec_int),
     (''host_cpus'', field cl_HostCPUs (\<lambda>v. cl_HostCPUs_update (\<lambda>_. v)) dec_int),
     (''host_mem_mb'', field cl_HostMemMB (\<lambda>v. cl_HostMemMB_update (\<lambda>_. v)) dec_int)]"

definition dec_GlobalConfig :: "GlobalConfig dec" where
  "dec_GlobalConfig = dec_struct [
     (''server'', field gc_Server (\<lambda>v. gc_Server_update (\<lambda>_. v)) dec_ServerConfig),
     (''qemu'', field gc_QEMU (\<lambda>v. gc_QEMU_update (\<lambda>_. v)) dec_QEMUConfig),
     (''fpga'', field gc_FPGA (\<lambda>v. gc_FPGA_update (\<lambda>_. v)) dec_FPGAConfig),
     (''storage'', field gc_Storage (\<lambda>v. gc_Storage_update (\<lambda>_. v)) dec_StorageConfig),
     (''telemetry'', field gc_Telemetry (\<lambda>v. gc_Telemetry_update (\<lambda>_. v)) dec_TelemetryConfig),
     (''vm_defaults'', field gc_VMDefaults (\<lambda>v. gc_VMDefaults_update (\<lambda>_. v)) dec_VMDefaultsConfig),
     (''cluster'', field gc_Cluster (\<lambda>v. gc_Cluster_update (\<lambda>_. v)) dec_ClusterConfig)]"

definition zero_BARDef :: BARDef where
  "zero_BARDef = \<lparr>bar_Type = '''', bar_SizeBytes = 0, bar_Description = ''''\<rparr>"

definition dec_BARDef :: "BARDef dec" where
  "dec_BARDef = dec_struct [
     (''type'', field bar_Type (\<lambda>v. bar_Type_update (\<lambda>_. v)) dec_string),
     (''size_bytes'', field bar_SizeBytes (\<lambda>v. bar_SizeBytes_update (\<lambda>_. v)) dec_int),
     (''description'', field bar_Description (\<lambda>v. bar_Description_update (\<lambda>_. v)) dec_string)]"

definition dec_DeviceEntry :: "DeviceEntry dec" where
  "dec_DeviceEntry = dec_struct [
     (''id'', field dev_ID (\<lambda>v. dev_ID_update (\<lambda>_. v)) dec_string),
     (''name'', field dev_Name (\<lambda>v. dev_Name_update (\<lambda>_. v)) dec_string),
     (''vendor_id'', field dev_VendorID (\<lambda>v. dev_VendorID_update (\<lambda>_. v)) dec_string),
     (''device_id'', field dev_DeviceID (\<lambda>v. dev_DeviceID_update (\<lambda>_. v)) dec_string),
     (''pci_class'', field dev_PCIClass (\<lambda>v. dev_PCIClass_update (\<lambda>_. v)) dec_string),
     (''qemu_device_name'', field dev_QEMUDeviceName (\<lambda>v. dev_QEMUDeviceName_update (\<lambda>_. v)) dec_string),
     (''driver_module'', field dev_DriverModule (\<lambda>v. dev_DriverModule_update (\<lambda>_. v)) dec_string),
     (''driver_path'', field dev_DriverPath (\<lambda>v. dev_DriverPath_update (\<lambda>_. v)) dec_string),
     (''device_node'', field dev_DeviceNode (\<lambda>v. dev_DeviceNode_update (\<lambda>_. v)) dec_string),
     (''description'', field dev_Description (\<lambda>v. dev_Description_update (\<lambda>_. v)) dec_string),
     (''target_modes'', field dev_TargetModes (\<lambda>v. dev_TargetModes_update (\<lambda>_. v)) (dec_list dec_string [])),
     (''capabilities'', field dev_Capabilities (\<lambda>v. dev_Capabilities_update (\<lambda>_. v)) (dec_list dec_string [])),
     (''bar_layout'', field dev_BARLayout (\<lambda>v. dev_BARLayout_update (\<lambda>_. v)) (dec_map dec_BARDef zero_BARDef)),
     (''test_suites'', field dev_TestSuites (\<lambda>v. dev_TestSuites_update (\<lambda>_. v)) (dec_list dec_string [])),
     (''vishwa_env'', field dev_VishwaEnv (\<lambda>v. dev_VishwaEnv_update (\<lambda>_. v)) (dec_map dec_string [])),
     (''vishwa_loader'', field dev_VishwaLoader (\<lambda>v. dev_VishwaLoader_update (\<lambda>_. v)) dec_string),
     (''vishwa_lib_dir'', field dev_VishwaLibDir (\<lambda>v. dev_VishwaLibDir_update (\<lambda>_. v)) dec_string),
     (''vishwa_test_dir'', field dev_VishwaTestDir (\<lambda>v. dev_VishwaTestDir_update (\<lambda>_. v)) dec_string)]"

definition zero_DeviceEntry :: DeviceEntry where
  "zero_DeviceEntry = \<lparr>dev_ID = '''', dev_Name = '''', dev_VendorID = '''', dev_DeviceID = '''',
     dev_PCIClass = '''', dev_QEMUDeviceName = '''', dev_DriverModule = '''', dev_DriverPath = '''',
     dev_DeviceNode = '''', dev_Description = '''', dev_TargetModes = [], dev_Capabilities = [],
     dev_BARLayout = [], dev_TestSuites = [], dev_VishwaEnv = [], dev_VishwaLoader = '''',
     dev_VishwaLibDir = '''', dev_VishwaTestDir = ''''\<rparr>"

definition dec_DeviceRegistry :: "DeviceRegistry dec" where
  "dec_DeviceRegistry = dec_struct [
     (''devices'', field reg_Devices (\<lambda>v. reg_Devices_update (\<lambda>_. v)) (dec_list dec_DeviceEntry zero_DeviceEntry))]"

text \<open>The zero value \<open>&GlobalConfig{}\<close>.\<close>

definition zero_GlobalConfig :: GlobalConfig where
  "zero_GlobalConfig = \<lparr>
     gc_Server = \<lparr>srv_GRPCPort = 0, srv_RESTPort = 0, srv_Host = ''''\<rparr>,
     gc_QEMU = \<lparr>qc_BinaryPath = '''', qc_DataDir = '''', qc_KernelPath = '''', qc_RootFSPath = '''',
       qc_ShareDir = '''', qc_GuestMount = '''', qc_DefaultMemoryMB = 0, qc_DefaultCPUs = 0,
       qc_VMImageDir = '''', qc_SocketDir = '''', qc_SerialSocketDir = ''''\<rparr>,
     gc_FPGA = \<lparr>fpga_VFIOGroupPath = '''', fpga_IOMMUEnabled = False, fpga_PCIAddresses = []\<rparr>,
     gc_Storage = \<lparr>
       sto_Postgres = \<lparr>pg_Host = '''', pg_Port = 0, pg_User = '''', pg_Password = '''', pg_Database = '''',
         pg_MaxConnections = 0, pg_SSLMode = ''''\<rparr>,
       sto_Redis = \<lparr>rd_Host = '''', rd_Port = 0, rd_Password = '''', rd_DB = 0, rd_PoolSize = 0\<rparr>,
       sto_ObjectStore = \<lparr>os_Endpoint = '''', os_AccessKey = '''', os_SecretKey = '''', os_Bucket = '''',
         os_UseSSL = False\<rparr>\<rparr>,
     gc_Telemetry = \<lparr>tel_MetricsPort = 0, tel_TraceEndpoint = '''', tel_LogLevel = '''', tel_LogFormat = ''''\<rparr>,
     gc_VMDefaults = \<lparr>vd_BootTimeoutSeconds = 0, vd_HeartbeatIntervalSeconds = 0,
       vd_HeartbeatTimeoutSeconds = 0, vd_TestTimeoutSeconds = 0, vd_MaxConcurrentVMs = 0\<rparr>,
     gc_Cluster = \<lparr>cl_NodeID = '''', cl_NodeRole = '''', cl_HeartbeatIntervalSec = 0,
       cl_NodeHeartbeatTTLSec = 0, cl_HostCPUs = 0, cl_HostMemMB = 0\<rparr>\<rparr>"

text \<open>\<open>readFile\<close> is \<open>os.ReadFile\<close> and \<open>env\<close> the process environment.\<close>

definition loadJSON :: "(string \<Rightarrow> string res) \<Rightarrow> (string \<Rightarrow> string) \<Rightarrow> 'a dec \<Rightarrow> 'a \<Rightarrow> string \<Rightarrow> 'a res" where
  "loadJSON readFile env d target path =
     (case readFile path of
        Err e \<Rightarrow> Err (EWrap (''reading '' @ path) e)
      | Panic p \<Rightarrow> Panic p
      | Ok data \<Rightarrow>
          (case Unmarshal d (ExpandEnv env data) target of
             Err e \<Rightarrow> Err (EWrap (''parsing '' @ path) e)
           | Panic p \<Rightarrow> Panic p
           | Ok v \<Rightarrow> Ok v))"

definition Load :: "(string \<Rightarrow> string res) \<Rightarrow> (string \<Rightarrow> string) \<Rightarrow> string \<Rightarrow> GlobalConfig res" where
  "Load readFile env configDir =
     (case loadJSON readFile env dec_GlobalConfig zero_GlobalConfig (path_join [configDir, ''global_config.json'']) of
        Err e \<Rightarrow> Err (EWrap ''loading global config'' e)
      | Panic p \<Rightarrow> Panic p
      | Ok cfg \<Rightarrow> (case validate_global cfg of
                   Err e \<Rightarrow> Err (EWrap ''validating global config'' e) | r \<Rightarrow> r))"

definition LoadDeviceRegistry :: "(string \<Rightarrow> string res) \<Rightarrow> (string \<Rightarrow> string) \<Rightarrow> string \<Rightarrow> DeviceRegistry res" where
  "LoadDeviceRegistry readFile env configDir =
     (case loadJSON readFile env dec_DeviceRegistry \<lparr>reg_Devices = []\<rparr> (path_join [configDir, ''device_registry.json'']) of
        Err e \<Rightarrow> Err (EWrap ''loading device registry'' e)
      | Panic p \<Rightarrow> Panic p
      | Ok reg \<Rightarrow> (case validate_registry reg of
                   Err e \<Rightarrow> Err (EWrap ''validating device registry'' e) | r \<Rightarrow> r))"

subsection \<open>Specifications\<close>

definition device_ok :: "DeviceEntry \<Rightarrow> bool" where
  "device_ok d \<longleftrightarrow> dev_ID d \<noteq> '''' \<and> dev_QEMUDeviceName d \<noteq> '''' \<and> dev_DriverModule d \<noteq> ''''"

definition registry_ok :: "DeviceRegistry \<Rightarrow> bool" where
  "registry_ok r \<longleftrightarrow> reg_Devices r \<noteq> [] \<and> list_all device_ok (reg_Devices r) \<and>
     distinct (map dev_ID (reg_Devices r))"

subsection \<open>Lemmas\<close>

lemma validate_devices_None:
  "validate_devices i seen ds = None \<longleftrightarrow>
     list_all device_ok ds \<and> distinct (map dev_ID ds) \<and> set seen \<inter> dev_ID ` set ds = {}"
  by (induction ds arbitrary: i seen) (auto simp: device_ok_def)

lemma validate_registry_Ok: "validate_registry r = Ok r' \<longleftrightarrow> r' = r \<and> registry_ok r"
  using validate_devices_None [of 0 "[]" "reg_Devices r"]
  by (auto simp: validate_registry_def registry_ok_def split: option.splits)

lemma find_device_Ok: "find_device ds i = Ok d \<Longrightarrow> d \<in> set ds \<and> dev_ID d = i"
  by (induction ds i rule: find_device.induct) (auto split: if_splits)

lemma find_device_not_Panic: "find_device ds i \<noteq> Panic p"
  by (induction ds i rule: find_device.induct) auto

lemma find_device_member: "distinct (map dev_ID ds) \<Longrightarrow> d \<in> set ds \<Longrightarrow> find_device ds (dev_ID d) = Ok d"
  by (induction ds) auto

lemma find_device_Err: "find_device ds i = Err e \<Longrightarrow> e = EDeviceNotFound i \<and> i \<notin> dev_ID ` set ds"
  by (induction ds i rule: find_device.induct) (auto split: if_splits)

lemma expand_plain: "CHR ''$'' \<notin> set s \<Longrightarrow> expand env s = s"
  by (induction s) auto

lemma expand_append_plain: "CHR ''$'' \<notin> set s \<Longrightarrow> expand env (s @ t) = s @ expand env t"
  by (induction s) auto

lemma loadJSON_Ok:
  "loadJSON rf env d z path = Ok v \<longleftrightarrow> (\<exists>data. rf path = Ok data \<and> Unmarshal d (ExpandEnv env data) z = Ok v)"
  by (auto simp: loadJSON_def split: res.splits)

lemma loadJSON_print:
  assumes "json_ok v" and "CHR ''$'' \<notin> set (json_print v)" and "d v z = Ok x"
  shows "loadJSON (\<lambda>_. Ok (json_print v)) env d z path = Ok x"
  using assms json_parse_print [of v] by (simp add: loadJSON_def ExpandEnv_def expand_plain Unmarshal_def)

subsection \<open>Properties\<close>

definition example_config :: GlobalConfig where
  "example_config = \<lparr>
     gc_Server = \<lparr>srv_GRPCPort = 50051, srv_RESTPort = 8080, srv_Host = ''0.0.0.0''\<rparr>,
     gc_QEMU = \<lparr>qc_BinaryPath = ''/opt/qemu/bin/qemu-system-x86_64'', qc_DataDir = '''', qc_KernelPath = '''',
       qc_RootFSPath = ''/opt/rootfs.ext4'', qc_ShareDir = ''/opt/share'', qc_GuestMount = ''/mnt/share'',
       qc_DefaultMemoryMB = 512, qc_DefaultCPUs = 2, qc_VMImageDir = ''/var/lib/dvf'', qc_SocketDir = ''/tmp/dvf'',
       qc_SerialSocketDir = ''/tmp/dvf''\<rparr>,
     gc_FPGA = \<lparr>fpga_VFIOGroupPath = '''', fpga_IOMMUEnabled = False, fpga_PCIAddresses = []\<rparr>,
     gc_Storage = \<lparr>
       sto_Postgres = \<lparr>pg_Host = ''db'', pg_Port = 0, pg_User = ''dvf'', pg_Password = ''pw'', pg_Database = ''dvf'',
         pg_MaxConnections = 10, pg_SSLMode = ''''\<rparr>,
       sto_Redis = \<lparr>rd_Host = '''', rd_Port = 0, rd_Password = '''', rd_DB = 0, rd_PoolSize = 0\<rparr>,
       sto_ObjectStore = \<lparr>os_Endpoint = '''', os_AccessKey = '''', os_SecretKey = '''', os_Bucket = '''', os_UseSSL = False\<rparr>\<rparr>,
     gc_Telemetry = \<lparr>tel_MetricsPort = 9090, tel_TraceEndpoint = '''', tel_LogLevel = ''info'', tel_LogFormat = ''json''\<rparr>,
     gc_VMDefaults = \<lparr>vd_BootTimeoutSeconds = 60, vd_HeartbeatIntervalSeconds = 5, vd_HeartbeatTimeoutSeconds = 15,
       vd_TestTimeoutSeconds = 300, vd_MaxConcurrentVMs = 0\<rparr>,
     gc_Cluster = \<lparr>cl_NodeID = '''', cl_NodeRole = '''', cl_HeartbeatIntervalSec = 0, cl_NodeHeartbeatTTLSec = 0,
       cl_HostCPUs = 0, cl_HostMemMB = 0\<rparr>\<rparr>"

definition example_device :: DeviceEntry where
  "example_device = \<lparr>dev_ID = ''dvf-gpu'', dev_Name = ''DVF GPU'', dev_VendorID = ''0x1234'', dev_DeviceID = ''0x11e8'',
     dev_PCIClass = ''0x0300'', dev_QEMUDeviceName = ''dvf-gpu'', dev_DriverModule = ''dvf_gpu'',
     dev_DriverPath = ''/mnt/share/dvf_gpu.ko'', dev_DeviceNode = ''/dev/dvf_gpu0'', dev_Description = '''',
     dev_TargetModes = [''qemu''], dev_Capabilities = [], dev_BARLayout = [], dev_TestSuites = [''smoke''],
     dev_VishwaEnv = [], dev_VishwaLoader = '''', dev_VishwaLibDir = '''', dev_VishwaTestDir = ''''\<rparr>"

definition example_registry :: DeviceRegistry where
  "example_registry = \<lparr>reg_Devices = [example_device]\<rparr>"

text \<open>
  C40: a device registry that loads is usable. For every file and environment, a
  registry returned by \<open>LoadDeviceRegistry\<close> lists at least one device, every device has an ID, a
  QEMU device name and a driver module, and \<open>FindDevice\<close> maps the ID of each listed device to
  exactly that device and every other ID to the not-found error.
\<close>

theorem device_registry_lookup:
  assumes "LoadDeviceRegistry readFile env dir = Ok reg"
  shows "registry_ok reg \<and>
    (\<forall>d \<in> set (reg_Devices reg). FindDevice reg (dev_ID d) = Ok d) \<and>
    (\<forall>i. i \<notin> dev_ID ` set (reg_Devices reg) \<longrightarrow> FindDevice reg i = Err (EDeviceNotFound i))"
proof -
  from assms have ok: "registry_ok reg"
    by (auto simp: LoadDeviceRegistry_def validate_registry_Ok split: res.splits)
  then have "\<forall>d \<in> set (reg_Devices reg). FindDevice reg (dev_ID d) = Ok d"
    by (auto simp: FindDevice_def registry_ok_def intro: find_device_member)
  moreover have "FindDevice reg i = Err (EDeviceNotFound i)" if "i \<notin> dev_ID ` set (reg_Devices reg)" for i
    using that find_device_Ok find_device_Err find_device_not_Panic unfolding FindDevice_def
    by (cases "find_device (reg_Devices reg) i") blast+
  ultimately show ?thesis using ok by blast
qed

definition registry_text :: json where
  "registry_text = JObj [(''devices'', JArr [
     JObj [(''id'', JStr ''dvf-gpu''), (''qemu_device_name'', JStr ''dvf-gpu''), (''driver_module'', JStr ''dvf_gpu'')],
     JObj [(''id'', JStr ''dvf-ai''), (''qemu_device_name'', JStr ''dvf-ai''), (''driver_module'', JStr ''dvf_ai'')]])]"

theorem device_registry_lookup_witness:
  "\<exists>reg. LoadDeviceRegistry (\<lambda>_. Ok (json_print registry_text)) (\<lambda>_. []) ''configs'' = Ok reg \<and>
     is_ok (FindDevice reg ''dvf-ai'') \<and> FindDevice reg ''nope'' = Err (EDeviceNotFound ''nope'')"
proof -
  let ?l = "LoadDeviceRegistry (\<lambda>_. Ok (json_print registry_text)) (\<lambda>_. []) ''configs''"
  have "map dev_ID (case ?l of Ok r \<Rightarrow> reg_Devices r | _ \<Rightarrow> []) = [''dvf-gpu'', ''dvf-ai'']" by code_simp
  then obtain reg where l: "?l = Ok reg" and ids: "map dev_ID (reg_Devices reg) = [''dvf-gpu'', ''dvf-ai'']"
    by (cases ?l) auto
  have mem: "dev_ID ` set (reg_Devices reg) = {''dvf-gpu'', ''dvf-ai''}"
    using arg_cong [OF ids, of set] by simp
  then have "''dvf-ai'' \<in> dev_ID ` set (reg_Devices reg)" by simp
  then obtain d where "d \<in> set (reg_Devices reg)" and d: "''dvf-ai'' = dev_ID d" by (rule imageE)
  then have "FindDevice reg ''dvf-ai'' = Ok d" using device_registry_lookup [OF l] unfolding d by blast
  then have "is_ok (FindDevice reg ''dvf-ai'')" by simp
  moreover have "FindDevice reg ''nope'' = Err (EDeviceNotFound ''nope'')"
    using device_registry_lookup [OF l] mem by simp
  ultimately show ?thesis using l by blast
qed

text \<open>
  A global configuration that loads has both server ports and the QEMU binary set and a
  non-zero VM limit, which is 5 when the file gives none; every other setting is the decoded one.
  A file without a dollar sign reaches the decoder unchanged.
\<close>

theorem Load_validated:
  assumes "Load readFile env dir = Ok cfg"
  shows "srv_GRPCPort (gc_Server cfg) \<noteq> 0 \<and> srv_RESTPort (gc_Server cfg) \<noteq> 0 \<and>
    qc_BinaryPath (gc_QEMU cfg) \<noteq> '''' \<and> vd_MaxConcurrentVMs (gc_VMDefaults cfg) \<noteq> 0 \<and>
    (\<exists>data cfg0. readFile (path_join [dir, ''global_config.json'']) = Ok data \<and>
       Unmarshal dec_GlobalConfig (ExpandEnv env data) zero_GlobalConfig = Ok cfg0 \<and>
       (CHR ''$'' \<in> set data \<or> ExpandEnv env data = data) \<and>
       cfg = cfg0\<lparr>gc_VMDefaults := (gc_VMDefaults cfg0)\<lparr>vd_MaxConcurrentVMs :=
         (if vd_MaxConcurrentVMs (gc_VMDefaults cfg0) = 0 then 5 else vd_MaxConcurrentVMs (gc_VMDefaults cfg0))\<rparr>\<rparr>)"
proof -
  from assms obtain data cfg0 where d: "readFile (path_join [dir, ''global_config.json'']) = Ok data"
    "Unmarshal dec_GlobalConfig (ExpandEnv env data) zero_GlobalConfig = Ok cfg0"
    and v: "validate_global cfg0 = Ok cfg"
    by (auto simp: Load_def loadJSON_Ok split: res.splits)
  have "CHR ''$'' \<in> set data \<or> ExpandEnv env data = data" using expand_plain by (auto simp: ExpandEnv_def)
  moreover from v have "srv_GRPCPort (gc_Server cfg) \<noteq> 0 \<and> srv_RESTPort (gc_Server cfg) \<noteq> 0 \<and>
    qc_BinaryPath (gc_QEMU cfg) \<noteq> '''' \<and> vd_MaxConcurrentVMs (gc_VMDefaults cfg) \<noteq> 0"
    by (auto simp: validate_global_def split: if_splits)
  moreover from v have "cfg = cfg0\<lparr>gc_VMDefaults := (gc_VMDefaults cfg0)\<lparr>vd_MaxConcurrentVMs :=
         (if vd_MaxConcurrentVMs (gc_VMDefaults cfg0) = 0 then 5 else vd_MaxConcurrentVMs (gc_VMDefaults cfg0))\<rparr>\<rparr>"
    by (auto simp: validate_global_def split: if_splits)
  ultimately show ?thesis using d by blast
qed

definition config_text :: json where
  "config_text = JObj [
     (''server'', JObj [(''grpc_port'', JNum ''91''), (''rest_port'', JNum ''80'')]),
     (''qemu'', JObj [(''binary_path'', JStr ''/usr/bin/qemu''), (''default_cpus'', JNum ''2'')])]"

theorem Load_validated_witness:
  "\<exists>cfg. Load (\<lambda>_. Ok (json_print config_text)) (\<lambda>_. []) ''configs'' = Ok cfg \<and>
     srv_GRPCPort (gc_Server cfg) = 91 \<and> (vd_MaxConcurrentVMs (gc_VMDefaults cfg) = 0) = False"
proof -
  let ?l = "Load (\<lambda>_. Ok (json_print config_text)) (\<lambda>_. []) ''configs''"
  let ?c = "zero_GlobalConfig\<lparr>gc_Server := \<lparr>srv_GRPCPort = 91, srv_RESTPort = 80, srv_Host = ''''\<rparr>,
    gc_QEMU := (gc_QEMU zero_GlobalConfig)\<lparr>qc_BinaryPath := ''/usr/bin/qemu'', qc_DefaultCPUs := 2\<rparr>\<rparr>"
  have "''91'' = itoa 91" and "''80'' = itoa 80" and "''2'' = itoa 2" by code_simp+
  then have "json_ok config_text" unfolding config_text_def by auto
  moreover have "CHR ''$'' \<notin> set (json_print config_text)" by code_simp
  moreover have "dec_GlobalConfig config_text zero_GlobalConfig = Ok ?c" by code_simp
  ultimately have load: "loadJSON (\<lambda>_. Ok (json_print config_text)) (\<lambda>_. []) dec_GlobalConfig zero_GlobalConfig p = Ok ?c" for p
    by (rule loadJSON_print)
  have "?l = (case validate_global ?c of Err e \<Rightarrow> Err (EWrap ''validating global config'' e) | r \<Rightarrow> r)"
    unfolding Load_def load res.case ..
  then obtain cfg where l: "?l = Ok cfg" and "srv_GRPCPort (gc_Server cfg) = 91"
    by (auto simp: validate_global_def)
  then show ?thesis using Load_validated [OF l] by blast
qed

end
