(* ===== verification/Allocator.thy ===== *)
theory Allocator
  imports Core_Types
begin

text \<open>
  The resource allocator, \<open>internal/core/allocator.go\<close>. Every operation runs under the
  allocator's mutex, so a concurrent history is a sequence of the operations below. The sums
  \<open>UsedCPUs + a.CPUs\<close> are sums of 64-bit integers and wrap.

  \<open>alloc_wf\<close> is the budget invariant; \<open>alloc_run\<close> plays a history of acquisitions and
  releases and keeps the list of the allocations that are currently held next to the budget.
\<close>

subsection \<open>State and operations\<close>

record Allocation =
  al_CPUs :: int
  al_MemMB :: int

record ResourceBudget =
  TotalCPUs :: int
  TotalMemMB :: int
  UsedCPUs :: int
  UsedMemMB :: int

definition AvailableCPUs :: "ResourceBudget \<Rightarrow> int" where
  "AvailableCPUs b = wrap64 (TotalCPUs b - UsedCPUs b)"

definition AvailableMemMB :: "ResourceBudget \<Rightarrow> int" where
  "AvailableMemMB b = wrap64 (TotalMemMB b - UsedMemMB b)"

text \<open>
  \<open>detectHostMemMB\<close>: the argument is what \<open>/proc/meminfo\<close> holds, split into lines
  (\<open>None\<close> when it cannot be opened). The loop stops at the first \<open>MemTotal:\<close> line.
\<close>

fun scan_meminfo :: "string list \<Rightarrow> int" where
  "scan_meminfo [] = 8192"
| "scan_meminfo (line # lines) =
     (if \<not> has_prefix line ''MemTotal:'' then scan_meminfo lines
      else case strings_fields line of
             _ # f # _ \<Rightarrow> (case parse_int64 f of
                            None \<Rightarrow> 8192
                          | Some kbTotal \<Rightarrow> (kbTotal sdiv 1024) sdiv 2)
           | _ \<Rightarrow> 8192)"

definition detectHostMemMB :: "string list option \<Rightarrow> int" where
  "detectHostMemMB meminfo = (case meminfo of None \<Rightarrow> 8192 | Some lines \<Rightarrow> scan_meminfo lines)"

definition NewResourceAllocator :: "int \<Rightarrow> string list option \<Rightarrow> int \<Rightarrow> int \<Rightarrow> ResourceBudget" where
  "NewResourceAllocator numCPU meminfo totalCPUs totalMemMB =
     (let cpus = (if totalCPUs \<le> 0 then numCPU else totalCPUs);
          mem = (if totalMemMB \<le> 0 then detectHostMemMB meminfo else totalMemMB)
      in \<lparr>TotalCPUs = cpus, TotalMemMB = mem, UsedCPUs = 0, UsedMemMB = 0\<rparr>)"

definition TryAcquire :: "ResourceBudget \<Rightarrow> Allocation \<Rightarrow> bool \<times> ResourceBudget" where
  "TryAcquire b a =
     (if al_CPUs a < 0 \<or> al_MemMB a < 0 then (False, b)
      else if wrap64 (UsedCPUs b + al_CPUs a) > TotalCPUs b then (False, b)
      else if wrap64 (UsedMemMB b + al_MemMB a) > TotalMemMB b then (False, b)
      else (True, b\<lparr>UsedCPUs := wrap64 (UsedCPUs b + al_CPUs a),
                    UsedMemMB := wrap64 (UsedMemMB b + al_MemMB a)\<rparr>))"

definition Release :: "ResourceBudget \<Rightarrow> Allocation \<Rightarrow> ResourceBudget" where
  "Release b a =
     (let cpus = wrap64 (UsedCPUs b - al_CPUs a);
          mem = wrap64 (UsedMemMB b - al_MemMB a)
      in b\<lparr>UsedCPUs := (if cpus < 0 then 0 else cpus),
           UsedMemMB := (if mem < 0 then 0 else mem)\<rparr>)"

definition CanFit :: "ResourceBudget \<Rightarrow> Allocation \<Rightarrow> bool" where
  "CanFit b a \<longleftrightarrow> wrap64 (UsedCPUs b + al_CPUs a) \<le> TotalCPUs b \<and>
                  wrap64 (UsedMemMB b + al_MemMB a) \<le> TotalMemMB b"

definition Available :: "ResourceBudget \<Rightarrow> ResourceBudget" where
  "Available b = b"

definition SetTotal :: "ResourceBudget \<Rightarrow> int \<Rightarrow> int \<Rightarrow> ResourceBudget" where
  "SetTotal b cpus memMB =
     (let b1 = (if cpus > 0 then b\<lparr>TotalCPUs := cpus\<rparr> else b)
      in if memMB > 0 then b1\<lparr>TotalMemMB := memMB\<rparr> else b1)"

definition String :: "ResourceBudget \<Rightarrow> string" where
  "String r =
     (let b = Available r in
      ''CPU '' @ itoa (UsedCPUs b) @ ''/'' @ itoa (TotalCPUs b) @
      '', MEM '' @ itoa (UsedMemMB b) @ ''/'' @ itoa (TotalMemMB b) @ '' MiB'')"

subsection \<open>The budget invariant and histories\<close>

text \<open>Used amounts are never negative and never above the totals, which fit a 64-bit integer
  twice over (\<open>2 ^ 62\<close> cores or MiB), so that no sum of two admissible amounts wraps.\<close>

definition alloc_wf :: "ResourceBudget \<Rightarrow> bool" where
  "alloc_wf b \<longleftrightarrow> 0 \<le> UsedCPUs b \<and> UsedCPUs b \<le> TotalCPUs b \<and> TotalCPUs b < 2 ^ 62 \<and>
                  0 \<le> UsedMemMB b \<and> UsedMemMB b \<le> TotalMemMB b \<and> TotalMemMB b < 2 ^ 62"

definition small :: "Allocation \<Rightarrow> bool" where
  "small a \<longleftrightarrow> al_CPUs a < 2 ^ 62 \<and> al_MemMB a < 2 ^ 62"

text \<open>A client's move: try to acquire an allocation, or give back one it holds.\<close>

datatype alloc_op = Acquire Allocation | GiveBack nat

fun alloc_step :: "ResourceBudget \<times> Allocation list \<Rightarrow> alloc_op \<Rightarrow> ResourceBudget \<times> Allocation list" where
  "alloc_step (b, held) (Acquire a) =
     (case TryAcquire b a of (ok, b') \<Rightarrow> (b', if ok then a # held else held))"
| "alloc_step (b, held) (GiveBack i) =
     (if i < length held then (Release b (held ! i), take i held @ drop (Suc i) held)
      else (b, held))"

definition alloc_run :: "ResourceBudget \<Rightarrow> alloc_op list \<Rightarrow> ResourceBudget \<times> Allocation list" where
  "alloc_run b ops = foldl alloc_step (b, []) ops"

fun ops_small :: "alloc_op list \<Rightarrow> bool" where
  "ops_small [] = True"
| "ops_small (Acquire a # ops) = (small a \<and> ops_small ops)"
| "ops_small (GiveBack _ # ops) = ops_small ops"

abbreviation cpus_of :: "Allocation list \<Rightarrow> int" where
  "cpus_of as \<equiv> sum_list (map al_CPUs as)"

abbreviation mem_of :: "Allocation list \<Rightarrow> int" where
  "mem_of as \<equiv> sum_list (map al_MemMB as)"

text \<open>The exact accounting: the used amounts are the sums over what is held.\<close>

definition accounts :: "ResourceBudget \<times> Allocation list \<Rightarrow> bool" where
  "accounts s \<longleftrightarrow> (case s of (b, held) \<Rightarrow>
     alloc_wf b \<and> UsedCPUs b = cpus_of held \<and> UsedMemMB b = mem_of held \<and>
     (\<forall>a \<in> set held. 0 \<le> al_CPUs a \<and> 0 \<le> al_MemMB a))"

subsection \<open>One operation\<close>

lemma wrap64_add_small: "0 \<le> x \<Longrightarrow> x < 2 ^ 62 \<Longrightarrow> 0 \<le> y \<Longrightarrow> y < 2 ^ 62 \<Longrightarrow> wrap64 (x + y) = x + y"
  by (rule wrap64_id) (simp add: in_int64_def)

lemma wrap64_sub_small: "0 \<le> x \<Longrightarrow> x < 2 ^ 62 \<Longrightarrow> 0 \<le> y \<Longrightarrow> y < 2 ^ 62 \<Longrightarrow> wrap64 (x - y) = x - y"
  by (rule wrap64_id) (simp add: in_int64_def)

lemma TryAcquire_exact:
  assumes "alloc_wf b" and "small a"
  shows "TryAcquire b a =
    (if 0 \<le> al_CPUs a \<and> 0 \<le> al_MemMB a \<and> UsedCPUs b + al_CPUs a \<le> TotalCPUs b \<and>
        UsedMemMB b + al_MemMB a \<le> TotalMemMB b
     then (True, b\<lparr>UsedCPUs := UsedCPUs b + al_CPUs a, UsedMemMB := UsedMemMB b + al_MemMB a\<rparr>)
     else (False, b))"
proof (cases "al_CPUs a < 0 \<or> al_MemMB a < 0")
  case True
  then show ?thesis by (auto simp: TryAcquire_def)
next
  case False
  with assms have "wrap64 (UsedCPUs b + al_CPUs a) = UsedCPUs b + al_CPUs a"
    and "wrap64 (UsedMemMB b + al_MemMB a) = UsedMemMB b + al_MemMB a"
    by (auto simp: alloc_wf_def small_def intro!: wrap64_add_small)
  with False show ?thesis by (auto simp: TryAcquire_def)
qed

lemma TryAcquire_wf [inv_intros]:
  "alloc_wf b \<Longrightarrow> small a \<Longrightarrow> TryAcquire b a = (ok, b') \<Longrightarrow> alloc_wf b'"
  by (auto simp: TryAcquire_exact alloc_wf_def split: if_splits)

lemma TryAcquire_fail: "TryAcquire b a = (False, b') \<Longrightarrow> b' = b"
  by (auto simp: TryAcquire_def split: if_splits)

lemma Release_exact:
  assumes "alloc_wf b" and "0 \<le> al_CPUs a" and "al_CPUs a \<le> UsedCPUs b"
    and "0 \<le> al_MemMB a" and "al_MemMB a \<le> UsedMemMB b"
  shows "Release b a = b\<lparr>UsedCPUs := UsedCPUs b - al_CPUs a, UsedMemMB := UsedMemMB b - al_MemMB a\<rparr>"
proof -
  from assms have "wrap64 (UsedCPUs b - al_CPUs a) = UsedCPUs b - al_CPUs a"
    and "wrap64 (UsedMemMB b - al_MemMB a) = UsedMemMB b - al_MemMB a"
    by (auto simp: alloc_wf_def intro!: wrap64_sub_small)
  with assms show ?thesis by (simp add: Release_def)
qed

lemma Release_wf [inv_intros]:
  assumes "alloc_wf b" and "0 \<le> al_CPUs a" and "0 \<le> al_MemMB a" and "small a"
  shows "alloc_wf (Release b a)"
proof -
  from assms have "wrap64 (UsedCPUs b - al_CPUs a) = UsedCPUs b - al_CPUs a"
    and "wrap64 (UsedMemMB b - al_MemMB a) = UsedMemMB b - al_MemMB a"
    by (auto simp: alloc_wf_def small_def intro!: wrap64_sub_small)
  with assms show ?thesis by (auto simp: Release_def alloc_wf_def)
qed

lemma TryAcquire_Release:
  assumes "alloc_wf b" and "small a" and "TryAcquire b a = (True, b')"
  shows "Release b' a = b"
proof -
  from assms have a: "0 \<le> al_CPUs a" "0 \<le> al_MemMB a"
    and b': "b' = b\<lparr>UsedCPUs := UsedCPUs b + al_CPUs a, UsedMemMB := UsedMemMB b + al_MemMB a\<rparr>"
    by (auto simp: TryAcquire_exact split: if_splits)
  from assms have "alloc_wf b'" by (rule TryAcquire_wf)
  with a b' assms(1) show ?thesis by (subst Release_exact) (auto simp: alloc_wf_def)
qed

subsection \<open>Histories\<close>

lemma sum_list_remove_nth:
  "i < length xs \<Longrightarrow> sum_list (map f (take i xs @ drop (Suc i) xs)) = sum_list (map f xs) - (f (xs ! i) :: int)"
proof -
  assume "i < length xs"
  then have "xs = take i xs @ xs ! i # drop (Suc i) xs" by (rule id_take_nth_drop)
  then have "sum_list (map f xs) = sum_list (map f (take i xs @ xs ! i # drop (Suc i) xs))" by simp
  then show ?thesis by simp
qed

lemma sum_list_member_le:
  fixes f :: "'a \<Rightarrow> int"
  shows "x \<in> set xs \<Longrightarrow> \<forall>y \<in> set xs. 0 \<le> f y \<Longrightarrow> f x \<le> sum_list (map f xs)"
proof (induction xs)
  case (Cons y ys)
  then have "0 \<le> sum_list (map f ys)" by (intro sum_list_nonneg) auto
  with Cons show ?case by fastforce
qed simp

lemma accounts_step:
  assumes "accounts s" and "ops_small [op]"
  shows "accounts (alloc_step s op)"
proof (cases op)
  case (Acquire a)
  with assms show ?thesis
    by (cases s) (auto simp: accounts_def TryAcquire_exact alloc_wf_def split: if_splits)
next
  case (GiveBack i)
  obtain b held where s: "s = (b, held)" by (cases s)
  show ?thesis
  proof (cases "i < length held")
    case True
    let ?a = "held ! i"
    from True have "?a \<in> set held" by simp
    with assms(1) s have nn: "0 \<le> al_CPUs ?a" "0 \<le> al_MemMB ?a"
      and le: "al_CPUs ?a \<le> UsedCPUs b" "al_MemMB ?a \<le> UsedMemMB b" and wf: "alloc_wf b"
      by (auto simp: accounts_def intro!: sum_list_member_le)
    have set: "set (take i held @ drop (Suc i) held) \<subseteq> set held"
      by (auto dest: in_set_takeD in_set_dropD)
    have "Release b ?a = b\<lparr>UsedCPUs := UsedCPUs b - al_CPUs ?a, UsedMemMB := UsedMemMB b - al_MemMB ?a\<rparr>"
      using wf nn(1) le(1) nn(2) le(2) by (rule Release_exact)
    moreover from assms(1) s nn le wf
    have "alloc_wf (b\<lparr>UsedCPUs := UsedCPUs b - al_CPUs ?a, UsedMemMB := UsedMemMB b - al_MemMB ?a\<rparr>)"
      by (simp add: alloc_wf_def)
    ultimately show ?thesis using True GiveBack s assms(1) set
      by (auto simp: accounts_def sum_list_remove_nth simp del: map_append)
  next
    case False
    with GiveBack s assms(1) show ?thesis by simp
  qed
qed

lemma accounts_foldl:
  "accounts s \<Longrightarrow> ops_small ops \<Longrightarrow> accounts (foldl alloc_step s ops)"
proof (induction ops arbitrary: s)
  case (Cons op ops)
  then have "accounts (alloc_step s op)" and "ops_small ops"
    by (cases op; auto intro: accounts_step)+
  with Cons.IH show ?case by simp
qed simp

lemma accounts_start: "alloc_wf b \<Longrightarrow> UsedCPUs b = 0 \<Longrightarrow> UsedMemMB b = 0 \<Longrightarrow> accounts (b, [])"
  by (simp add: accounts_def)

lemma alloc_step_totals:
  "TotalCPUs (fst (alloc_step s op)) = TotalCPUs (fst s) \<and>
   TotalMemMB (fst (alloc_step s op)) = TotalMemMB (fst s)"
  by (cases s; cases op) (auto simp: TryAcquire_def Release_def Let_def)

lemma alloc_run_totals:
  "TotalCPUs (fst (foldl alloc_step s ops)) = TotalCPUs (fst s) \<and>
   TotalMemMB (fst (foldl alloc_step s ops)) = TotalMemMB (fst s)"
  by (induction ops arbitrary: s) (auto simp: alloc_step_totals)

subsection \<open>Reading \<open>/proc/meminfo\<close>\<close>

lemma fields_from_spaces: "fields_from [] (replicate n CHR '' '' @ s) = fields_from [] s"
  by (induction n) (auto simp: is_space_def)

lemma fields_from_word:
  "\<forall>c \<in> set w. \<not> is_space c \<Longrightarrow> is_space sp \<Longrightarrow> cur @ w \<noteq> [] \<Longrightarrow>
    fields_from cur (w @ sp # s) = (cur @ w) # fields_from [] s"
  by (induction w arbitrary: cur) auto

lemma itoa_nonspace: "c \<in> set (itoa i) \<Longrightarrow> \<not> is_space c"
  using nat_str_digits [of c "nat (- i)"] nat_str_digits [of c "nat i"]
  by (auto simp: itoa_def is_space_def split: if_splits)

subsection \<open>Properties\<close>

text \<open>
  C29: the allocator never hands out more than it has. Whatever sequence of acquisitions and
  releases its clients make, the used amounts are the exact sums over the allocations that are
  held, and they stay within the totals.
\<close>

theorem allocator_never_oversubscribed:
  assumes "b = NewResourceAllocator numCPU meminfo totalCPUs totalMemMB" and "alloc_wf b"
    and "ops_small ops" and "alloc_run b ops = (b', held)"
  shows "UsedCPUs b' = cpus_of held \<and> UsedMemMB b' = mem_of held \<and>
    cpus_of held \<le> TotalCPUs b \<and> mem_of held \<le> TotalMemMB b"
proof -
  have "UsedCPUs b = 0" and "UsedMemMB b = 0" using assms(1) by (simp_all add: NewResourceAllocator_def Let_def)
  with assms(2,3,4) have "accounts (b', held)"
    using accounts_foldl [OF accounts_start] unfolding alloc_run_def by metis
  moreover have "TotalCPUs b' = TotalCPUs b" and "TotalMemMB b' = TotalMemMB b"
    using alloc_run_totals [of "(b, [])" ops] assms(4) by (simp_all add: alloc_run_def)
  ultimately show ?thesis by (auto simp: accounts_def alloc_wf_def)
qed

theorem allocator_never_oversubscribed_witness:
  "alloc_run (NewResourceAllocator 8 None 0 4096)
     [Acquire \<lparr>al_CPUs = 6, al_MemMB = 1024\<rparr>, Acquire \<lparr>al_CPUs = 4, al_MemMB = 1\<rparr>,
      Acquire \<lparr>al_CPUs = 2, al_MemMB = 2048\<rparr>, GiveBack 1] =
   (\<lparr>TotalCPUs = 8, TotalMemMB = 4096, UsedCPUs = 2, UsedMemMB = 2048\<rparr>, [\<lparr>al_CPUs = 2, al_MemMB = 2048\<rparr>]) \<and>
   cpus_of [\<lparr>al_CPUs = 2, al_MemMB = 2048\<rparr>] \<le> 8"
proof -
  let ?b = "NewResourceAllocator 8 None 0 4096"
  let ?ops = "[Acquire \<lparr>al_CPUs = 6, al_MemMB = 1024\<rparr>, Acquire \<lparr>al_CPUs = 4, al_MemMB = 1\<rparr>,
      Acquire \<lparr>al_CPUs = 2, al_MemMB = 2048\<rparr>, GiveBack 1]"
  have run: "alloc_run ?b ?ops =
   (\<lparr>TotalCPUs = 8, TotalMemMB = 4096, UsedCPUs = 2, UsedMemMB = 2048\<rparr>, [\<lparr>al_CPUs = 2, al_MemMB = 2048\<rparr>])"
    by code_simp
  have wf: "alloc_wf ?b" and sm: "ops_small ?ops" and t: "TotalCPUs ?b = 8" by code_simp+
  from allocator_never_oversubscribed [OF refl wf sm run] run t show ?thesis by simp
qed

text \<open>
  A release undoes the acquisition. After a successful \<open>TryAcquire\<close> the matching
  \<open>Release\<close> restores the budget, and a refused \<open>TryAcquire\<close> leaves it alone.
\<close>

theorem allocator_acquire_release:
  assumes "alloc_wf b" and "small a" and "TryAcquire b a = (ok, b')"
  shows "(if ok then Release b' a else b') = b"
  using TryAcquire_Release [OF assms(1,2)] TryAcquire_fail assms(3) by (cases ok) auto

theorem allocator_acquire_release_witness:
  "let b = NewResourceAllocator 8 None 4 4096; a = \<lparr>al_CPUs = 2, al_MemMB = 512\<rparr>
   in fst (TryAcquire b a) \<and> Release (snd (TryAcquire b a)) a = b"
proof -
  let ?b = "NewResourceAllocator 8 None 4 4096" and ?a = "\<lparr>al_CPUs = 2, al_MemMB = 512\<rparr>"
  have wf: "alloc_wf ?b" and sm: "small ?a" and ok: "fst (TryAcquire ?b ?a)" by code_simp+
  from allocator_acquire_release [OF wf sm prod.collapse [symmetric]] ok show ?thesis
    by (simp add: Let_def)
qed


text \<open>
  On a host whose \<open>/proc/meminfo\<close> reports \<open>kb\<close> KiB in its \<open>MemTotal:\<close> line, the default
  memory budget is half of it in MiB; lines before that one do not matter.
\<close>

theorem detectHostMemMB_half:
  assumes "\<forall>l \<in> set before. \<not> has_prefix l ''MemTotal:''" and "0 \<le> kb" and "kb < 2 ^ 63"
  shows "detectHostMemMB (Some (before @ (''MemTotal:'' @ replicate (Suc n) CHR '' '' @ itoa kb @ '' kB'') # rest))
    = kb div 1024 div 2"
proof -
  let ?l = "''MemTotal:'' @ replicate (Suc n) CHR '' '' @ itoa kb @ '' kB''"
  have "strings_fields ?l = ''MemTotal:'' # fields_from [] (replicate n CHR '' '' @ itoa kb @ CHR '' '' # ''kB'')"
    using fields_from_word [of "''MemTotal:''" "CHR '' ''" "[]"] by (simp add: strings_fields_def is_space_def)
  also have "\<dots> = ''MemTotal:'' # itoa kb # fields_from [] ''kB''"
    using itoa_nonspace fields_from_word [of "itoa kb" "CHR '' ''" "[]"]
    by (simp add: fields_from_spaces is_space_def)
  finally have f: "strings_fields ?l = ''MemTotal:'' # itoa kb # fields_from [] ''kB''" .
  have "parse_int64 (itoa kb) = Some kb" using assms by (intro parse_int64_itoa) (simp add: in_int64_def)
  then have one: "scan_meminfo (?l # rest) = kb div 1024 div 2"
    using f assms(2) by (simp add: has_prefix_def signed_divide_int_def sgn_if)
  have "scan_meminfo (before @ ?l # rest) = scan_meminfo (?l # rest)"
    using assms(1) by (induction before) auto
  with one show ?thesis by (simp add: detectHostMemMB_def)
qed

theorem detectHostMemMB_half_witness:
  "detectHostMemMB (Some ([''Foo: 1 kB''] @ (''MemTotal:'' @ replicate (Suc 7) CHR '' '' @ itoa 16384000 @ '' kB'') # []))
    = 8000"
  using detectHostMemMB_half [of "[''Foo: 1 kB'']" 16384000 7 "[]"] by (simp add: has_prefix_def)

text \<open>
  \<open>CanFit\<close> agrees with \<open>TryAcquire\<close> on every request with non-negative amounts. On a
  negative amount they differ: \<open>TryAcquire\<close> refuses, \<open>CanFit\<close> has no such guard.
\<close>

lemma CanFit_TryAcquire:
  "0 \<le> al_CPUs a \<Longrightarrow> 0 \<le> al_MemMB a \<Longrightarrow> CanFit b a \<longleftrightarrow> fst (TryAcquire b a)"
  by (auto simp: CanFit_def TryAcquire_def)

lemma CanFit_negative:
  "let b = NewResourceAllocator 8 None 4 4096; a = \<lparr>al_CPUs = - 1, al_MemMB = 0\<rparr>
   in CanFit b a \<and> \<not> fst (TryAcquire b a)"
  by code_simp

end
