(* ===== verification/Engine_Base.thy ===== *)
theory Engine_Base
  imports Config Allocator "HOL-Library.State_Monad"
begin

text \<open>
  What the execution engine (\<open>internal/core/execution_engine.go\<close>) is built on.

  The interfaces the engine is given (\<open>EngineStore\<close>, \<open>VMManagerInterface\<close>,
  \<open>AgentCoordinatorInterface\<close>), the event bus, the audit log, the shared allocator, the clock,
  the file system and the Go scheduler act on one world of type \<open>'w\<close>, which the engine never
  looks into. Whatever other goroutines do to shared state between two calls of this one is part of
  the world's answer. A nil-able dependency is an option.

  An engine action is a state monad over that world and the list of the calls made so far. The log
  is not read by any action; it is what the trace properties speak about. \<open>emits m P\<close> says
  that whatever the world answers, \<open>m\<close> appends calls \<open>t\<close> and returns \<open>r\<close> with
  \<open>P r t\<close>; its rules compose along the actions.

  The rest of the theory is the engine's helper functions: command construction, the processing of an
  agent's output, the loading of a suite.
\<close>

subsection \<open>Contexts, events and calls\<close>

text \<open>A context is identified by how it was derived; its expiry is up to the world.\<close>

datatype gctx = CtxBackground | CtxEngine | CtxTimeout gctx int

datatype EventType =
    EventTestRunSubmitted
  | EventTestRunStarted
  | EventTestRunCompleted
  | EventTestRunCancelled
  | EventVMCreated
  | EventVMReady
  | EventVMDestroyed
  | EventDriverLoaded
  | EventTestResultSaved

record Event =
  ev_Type :: EventType
  ev_EntityID :: string
  ev_DeviceID :: string
  ev_Status :: string
  ev_Payload :: "(string, gval) gomap"

datatype audit_record =
    LogSubmit string string string string "string list"
  | LogCancel string string
  | LogComplete string string int
  | LogVMEvent string string string string

datatype call =
    CallUpdateStatus gctx string TestRunStatus string bool
  | CallGetResults gctx string "TestResult list"
  | CallSaveResult gctx TestResult
  | CallCreateVM gctx string "string option"
  | CallStartVM gctx string bool
  | CallStopVM gctx string
  | CallDestroyVM gctx string
  | CallRegisterVM string
  | CallUnregisterVM string
  | CallWaitForAgent gctx string bool
  | CallSendCommand gctx string AgentCommand "string option"
  | CallTryAcquire Allocation bool
  | CallRelease Allocation
  | CallResubmit TestRun
  | CallPublish gctx Event
  | CallAudit audit_record

subsection \<open>The interfaces\<close>

record 'w EngineStore =
  st_UpdateTestRunStatus :: "gctx \<Rightarrow> string \<Rightarrow> TestRunStatus \<Rightarrow> string \<Rightarrow> 'w \<Rightarrow> (error + unit) \<times> 'w"
  st_GetTestResults :: "gctx \<Rightarrow> string \<Rightarrow> 'w \<Rightarrow> (error + TestResult list) \<times> 'w"
  st_SaveTestResult :: "gctx \<Rightarrow> TestResult \<Rightarrow> 'w \<Rightarrow> (error + unit) \<times> 'w"

record 'w VMManagerInterface =
  vmi_CreateVM :: "gctx \<Rightarrow> DeviceEntry \<Rightarrow> 'w \<Rightarrow> (error + VMInstance) \<times> 'w"
  vmi_StartVM :: "gctx \<Rightarrow> string \<Rightarrow> 'w \<Rightarrow> (error + unit) \<times> 'w"
  vmi_StopVM :: "gctx \<Rightarrow> string \<Rightarrow> 'w \<Rightarrow> (error + unit) \<times> 'w"
  vmi_DestroyVM :: "gctx \<Rightarrow> string \<Rightarrow> 'w \<Rightarrow> (error + unit) \<times> 'w"

record 'w AgentCoordinatorInterface =
  aci_RegisterVM :: "string \<Rightarrow> 'w \<Rightarrow> 'w"
  aci_UnregisterVM :: "string \<Rightarrow> 'w \<Rightarrow> 'w"
  aci_WaitForAgent :: "gctx \<Rightarrow> string \<Rightarrow> 'w \<Rightarrow> (error + unit) \<times> 'w"
  aci_SendCommand :: "gctx \<Rightarrow> string \<Rightarrow> AgentCommand \<Rightarrow> 'w \<Rightarrow> (error + AgentResult) \<times> 'w"

record 'w AllocatorOps =
  alo_TryAcquire :: "Allocation \<Rightarrow> 'w \<Rightarrow> bool \<times> 'w"
  alo_Release :: "Allocation \<Rightarrow> 'w \<Rightarrow> 'w"

text \<open>
  The runtime: \<open>time.Now()\<close>, the choice of a \<open>select\<close> (which of \<open>n\<close> running step
  goroutines moves next, or the error of a context that is done), the deferred resubmission, the
  order in which a map is ranged over, and the file system. \<open>os.Getwd\<close> returns an absolute
  path, given by its segments.
\<close>

record 'w Runtime =
  rt_Now :: "'w \<Rightarrow> int \<times> 'w"
  rt_Select :: "gctx \<Rightarrow> nat \<Rightarrow> 'w \<Rightarrow> (error + nat) \<times> 'w"
  rt_Resubmit :: "TestRun \<Rightarrow> 'w \<Rightarrow> 'w"
  rt_Range :: "string list \<Rightarrow> 'w \<Rightarrow> (nat \<Rightarrow> string list) \<times> 'w"
  rt_Getwd :: "'w \<Rightarrow> (error + string list) \<times> 'w"
  rt_Stat :: "string \<Rightarrow> 'w \<Rightarrow> bool \<times> 'w"
  rt_ReadFile :: "string \<Rightarrow> 'w \<Rightarrow> (error + string) \<times> 'w"

record 'w ExecutionEngine =
  ee_store :: "'w EngineStore"
  ee_registry :: DeviceRegistry
  ee_vmManager :: "'w VMManagerInterface"
  ee_agentCoord :: "'w AgentCoordinatorInterface option"
  ee_allocator :: "'w AllocatorOps option"
  ee_cfg :: GlobalConfig
  ee_eventBus :: "(gctx \<Rightarrow> Event \<Rightarrow> 'w \<Rightarrow> 'w) option"
  ee_audit :: "(audit_record \<Rightarrow> 'w \<Rightarrow> 'w) option"
  ee_runtime :: "'w Runtime"

subsection \<open>Actions\<close>

record 'w est =
  es_calls :: "call list"
  es_world :: 'w

type_synonym ('w, 'a) act = "('w est, 'a) state"

text \<open>A call: the world answers, the call is logged with what the log keeps of the answer.\<close>

definition perform :: "('w \<Rightarrow> 'a \<times> 'w) \<Rightarrow> ('a \<Rightarrow> call list) \<Rightarrow> ('w, 'a) act" where
  "perform f c = State (\<lambda>s. case f (es_world s) of
     (r, w) \<Rightarrow> (r, s\<lparr>es_calls := es_calls s @ c r, es_world := w\<rparr>))"

definition ret :: "'a \<Rightarrow> ('w, 'a) act" where
  "ret x = State_Monad.return x"

fun sum_ok :: "error + 'a \<Rightarrow> bool" where
  "sum_ok (Inl _) = False"
| "sum_ok (Inr _) = True"

definition updateStatus :: "'w ExecutionEngine \<Rightarrow> gctx \<Rightarrow> string \<Rightarrow> TestRunStatus \<Rightarrow> string \<Rightarrow> ('w, error + unit) act" where
  "updateStatus e ctx i st msg =
     perform (st_UpdateTestRunStatus (ee_store e) ctx i st msg) (\<lambda>r. [CallUpdateStatus ctx i st msg (sum_ok r)])"

definition getResults :: "'w ExecutionEngine \<Rightarrow> gctx \<Rightarrow> string \<Rightarrow> ('w, error + TestResult list) act" where
  "getResults e ctx i = perform (st_GetTestResults (ee_store e) ctx i)
     (\<lambda>r. [CallGetResults ctx i (case r of Inl _ \<Rightarrow> [] | Inr rs \<Rightarrow> rs)])"

definition saveResult :: "'w ExecutionEngine \<Rightarrow> gctx \<Rightarrow> TestResult \<Rightarrow> ('w, error + unit) act" where
  "saveResult e ctx res = perform (st_SaveTestResult (ee_store e) ctx res) (\<lambda>r. [CallSaveResult ctx res])"

definition createVM :: "'w ExecutionEngine \<Rightarrow> gctx \<Rightarrow> DeviceEntry \<Rightarrow> ('w, error + VMInstance) act" where
  "createVM e ctx device =
     perform (vmi_CreateVM (ee_vmManager e) ctx device)
       (\<lambda>r. [CallCreateVM ctx (dev_ID device) (case r of Inl _ \<Rightarrow> None | Inr vm \<Rightarrow> Some (vm_ID vm))])"

definition startVM :: "'w ExecutionEngine \<Rightarrow> gctx \<Rightarrow> string \<Rightarrow> ('w, error + unit) act" where
  "startVM e ctx i = perform (vmi_StartVM (ee_vmManager e) ctx i) (\<lambda>r. [CallStartVM ctx i (sum_ok r)])"

definition stopVM :: "'w ExecutionEngine \<Rightarrow> gctx \<Rightarrow> string \<Rightarrow> ('w, error + unit) act" where
  "stopVM e ctx i = perform (vmi_StopVM (ee_vmManager e) ctx i) (\<lambda>r. [CallStopVM ctx i])"

definition destroyVM :: "'w ExecutionEngine \<Rightarrow> gctx \<Rightarrow> string \<Rightarrow> ('w, error + unit) act" where
  "destroyVM e ctx i = perform (vmi_DestroyVM (ee_vmManager e) ctx i) (\<lambda>r. [CallDestroyVM ctx i])"

text \<open>The calls guarded by a nil check.\<close>

definition registerVM :: "'w ExecutionEngine \<Rightarrow> string \<Rightarrow> ('w, unit) act" where
  "registerVM e i = (case ee_agentCoord e of None \<Rightarrow> ret ()
     | Some ac \<Rightarrow> perform (\<lambda>w. ((), aci_RegisterVM ac i w)) (\<lambda>_. [CallRegisterVM i]))"

definition unregisterVM :: "'w ExecutionEngine \<Rightarrow> string \<Rightarrow> ('w, unit) act" where
  "unregisterVM e i = (case ee_agentCoord e of None \<Rightarrow> ret ()
     | Some ac \<Rightarrow> perform (\<lambda>w. ((), aci_UnregisterVM ac i w)) (\<lambda>_. [CallUnregisterVM i]))"

definition publish :: "'w ExecutionEngine \<Rightarrow> gctx \<Rightarrow> Event \<Rightarrow> ('w, unit) act" where
  "publish e ctx ev = (case ee_eventBus e of None \<Rightarrow> ret ()
     | Some bus \<Rightarrow> perform (\<lambda>w. ((), bus ctx ev w)) (\<lambda>_. [CallPublish ctx ev]))"

definition audit :: "'w ExecutionEngine \<Rightarrow> audit_record \<Rightarrow> ('w, unit) act" where
  "audit e r = (case ee_audit e of None \<Rightarrow> ret ()
     | Some lg \<Rightarrow> perform (\<lambda>w. ((), lg r w)) (\<lambda>_. [CallAudit r]))"

definition waitForAgent :: "'w AgentCoordinatorInterface \<Rightarrow> gctx \<Rightarrow> string \<Rightarrow> ('w, error + unit) act" where
  "waitForAgent ac ctx i = perform (aci_WaitForAgent ac ctx i) (\<lambda>r. [CallWaitForAgent ctx i (sum_ok r)])"

definition sendCommand :: "'w AgentCoordinatorInterface \<Rightarrow> gctx \<Rightarrow> string \<Rightarrow> AgentCommand \<Rightarrow> ('w, error + AgentResult) act" where
  "sendCommand ac ctx i cmd = perform (aci_SendCommand ac ctx i cmd)
     (\<lambda>r. [CallSendCommand ctx i cmd (case r of Inl _ \<Rightarrow> None | Inr a \<Rightarrow> Some (ares_Status a))])"

definition tryAcquire :: "'w AllocatorOps \<Rightarrow> Allocation \<Rightarrow> ('w, bool) act" where
  "tryAcquire al a = perform (alo_TryAcquire al a) (\<lambda>ok. [CallTryAcquire a ok])"

definition releaseAlloc :: "'w AllocatorOps \<Rightarrow> Allocation \<Rightarrow> ('w, unit) act" where
  "releaseAlloc al a = perform (\<lambda>w. ((), alo_Release al a w)) (\<lambda>_. [CallRelease a])"

definition resubmitLater :: "'w ExecutionEngine \<Rightarrow> TestRun \<Rightarrow> ('w, unit) act" where
  "resubmitLater e run = perform (\<lambda>w. ((), rt_Resubmit (ee_runtime e) run w)) (\<lambda>_. [CallResubmit run])"

text \<open>Questions to the runtime leave no trace in the log.\<close>

definition ask :: "('w \<Rightarrow> 'a \<times> 'w) \<Rightarrow> ('w, 'a) act" where
  "ask f = perform f (\<lambda>_. [])"

definition timeNow :: "'w ExecutionEngine \<Rightarrow> ('w, int) act" where
  "timeNow e = ask (rt_Now (ee_runtime e))"

subsection \<open>Helpers\<close>

definition mapAgentStatus :: "string \<Rightarrow> TestRunStatus" where
  "mapAgentStatus s =
     (if s = ''passed'' \<or> s = ''PASS'' then TestRunStatusPassed
      else if s = ''failed'' \<or> s = ''FAIL'' then TestRunStatusFailed
      else TestRunStatusErrored)"

definition isVishwaSuite :: "string \<Rightarrow> bool" where
  "isVishwaSuite suiteID \<longleftrightarrow> length suiteID > 7 \<and> take 7 suiteID = ''vishwa/''"

text \<open>\<open>splitPath\<close>: \<open>cur\<close> is \<open>p[start:i]\<close>; empty segments are dropped.\<close>

fun split_from :: "string \<Rightarrow> string \<Rightarrow> string list" where
  "split_from cur [] = (if cur = [] then [] else [cur])"
| "split_from cur (c # cs) =
     (if c = CHR ''/'' then (if cur = [] then split_from [] cs else cur # split_from [] cs)
      else split_from (cur @ [c]) cs)"

definition splitPath :: "string \<Rightarrow> string list" where
  "splitPath p = split_from [] p"

text \<open>\<open>segments[len(segments)-1]\<close> panics on an empty slice.\<close>

definition last_segment :: "string list \<Rightarrow> string res" where
  "last_segment segs = (if segs = [] then Panic ''index out of range [-1]'' else Ok (last segs))"

definition deviceSupportsQEMU :: "string list \<Rightarrow> bool" where
  "deviceSupportsQEMU targetModes = (if targetModes = [] then True else list_ex (\<lambda>m. m = ''qemu'') targetModes)"

definition or_default :: "string \<Rightarrow> string \<Rightarrow> string" where
  "or_default s d = (if s = '''' then d else s)"

definition vishwa_test_dir :: "DeviceEntry \<Rightarrow> string" where
  "vishwa_test_dir device = or_default (dev_VishwaTestDir device) ''/mnt/share/vishwa_tests''"

definition vishwa_lib_dir :: "DeviceEntry \<Rightarrow> string" where
  "vishwa_lib_dir device = or_default (dev_VishwaLibDir device) ''/mnt/share/vishwa_tests/lib''"

definition vishwa_loader :: "DeviceEntry \<Rightarrow> string" where
  "vishwa_loader device = or_default (dev_VishwaLoader device) ''/mnt/share/vishwa_tests/lib/ld-linux-x86-64.so.2''"

definition load_cmd :: "TestRun \<Rightarrow> DeviceEntry \<Rightarrow> AgentCommand" where
  "load_cmd run device = \<lparr>cmd_ID = ''cmd-load-'' @ run_ID run, cmd_Type = ''load_driver'',
     cmd_Parameters = [(''ko_path'', GStr (dev_DriverPath device)), (''module_name'', GStr (dev_DriverModule device))]\<rparr>"

definition verify_cmd :: "TestRun \<Rightarrow> DeviceEntry \<Rightarrow> AgentCommand" where
  "verify_cmd run device = \<lparr>cmd_ID = ''cmd-verify-'' @ run_ID run, cmd_Type = ''verify_device'',
     cmd_Parameters = [(''device_node'', GStr (dev_DeviceNode device))]\<rparr>"

text \<open>\<open>vishwaCommandSequence\<close>; the slice \<open>TestSuiteID[7:]\<close> panics on a shorter ID.\<close>

definition vishwaCommandSequence :: "TestRun \<Rightarrow> DeviceEntry \<Rightarrow> AgentCommand list res" where
  "vishwaCommandSequence run device =
     (if length (run_TestSuiteID run) < 7 then Panic ''slice bounds out of range''
      else let suitePath = drop 7 (run_TestSuiteID run) in
        case last_segment (splitPath suitePath) of
          Err e \<Rightarrow> Err e
        | Panic p \<Rightarrow> Panic p
        | Ok binaryName \<Rightarrow>
            (let testDir = vishwa_test_dir device;
                 binaryPath = testDir @ ''/'' @ suitePath @ ''/'' @ binaryName;
                 binaryDir = testDir @ ''/'' @ suitePath;
                 env = map (\<lambda>(k, v). (k, GStr v)) (dev_VishwaEnv device)
             in Ok [load_cmd run device, verify_cmd run device,
                    \<lparr>cmd_ID = ''cmd-test-'' @ run_ID run, cmd_Type = ''start_test'',
                     cmd_Parameters = [(''binary'', GStr binaryPath), (''binary_dir'', GStr binaryDir),
                       (''loader'', GStr (vishwa_loader device)), (''lib_dir'', GStr (vishwa_lib_dir device)),
                       (''timeout'', GStr ''60''), (''env'', GObj env),
                       (''suite_name'', GStr (run_TestSuiteID run)), (''binary_name'', GStr binaryName)]\<rparr>]))"

subsection \<open>Processing an agent's output\<close>

record rawResultItem =
  raw_Test :: string
  raw_Status :: string
  raw_DurationMs :: rat
  raw_Message :: string
  raw_Metrics :: "(string, rat) gomap"

definition zero_raw :: rawResultItem where
  "zero_raw = \<lparr>raw_Test = '''', raw_Status = '''', raw_DurationMs = 0, raw_Message = '''', raw_Metrics = []\<rparr>"

definition dec_raw :: "rawResultItem dec" where
  "dec_raw = dec_struct [
     (''test'', field raw_Test (\<lambda>v. raw_Test_update (\<lambda>_. v)) dec_string),
     (''status'', field raw_Status (\<lambda>v. raw_Status_update (\<lambda>_. v)) dec_string),
     (''duration_ms'', field raw_DurationMs (\<lambda>v. raw_DurationMs_update (\<lambda>_. v)) dec_float),
     (''message'', field raw_Message (\<lambda>v. raw_Message_update (\<lambda>_. v)) dec_string),
     (''metrics'', field raw_Metrics (\<lambda>v. raw_Metrics_update (\<lambda>_. v)) (dec_map dec_float 0))]"

text \<open>The struct with the one field \<open>results\<close>.\<close>

definition dec_results_obj :: "rawResultItem list dec" where
  "dec_results_obj = dec_struct [(''results'', field id (\<lambda>v _. v) (dec_list dec_raw zero_raw))]"

text \<open>Try 1, then try 2: \<open>None\<close> when the text is neither.\<close>

definition parse_results :: "string \<Rightarrow> rawResultItem list option" where
  "parse_results out =
     (case Unmarshal dec_results_obj out [] of
        Ok (r # rs) \<Rightarrow> Some (r # rs)
      | _ \<Rightarrow> (case Unmarshal (dec_list dec_raw zero_raw) out [] of Ok rs \<Rightarrow> Some rs | _ \<Rightarrow> None))"

text \<open>\<open>int64(f)\<close>: truncation; out of range the conversion gives the smallest integer on amd64.\<close>

definition trunc64 :: "rat \<Rightarrow> int" where
  "trunc64 q = (let i = (if 0 \<le> q then \<lfloor>q\<rfloor> else - \<lfloor>- q\<rfloor>) in if in_int64 i then i else - (2 ^ 63))"

definition single_result :: "TestRun \<Rightarrow> string \<Rightarrow> AgentResult \<Rightarrow> int \<Rightarrow> TestResult" where
  "single_result run name ar now = \<lparr>tres_ID = '''', tres_TestRunID = run_ID run, tres_TestName = name,
     tres_Category = '''', tres_Status = mapAgentStatus (ares_Status ar), tres_DurationMs = ares_DurationMs ar,
     tres_Message = ares_Output ar, tres_Metrics = [], tres_Logs = ares_Logs ar, tres_CompletedAt = now\<rparr>"

definition raw_result :: "TestRun \<Rightarrow> AgentResult \<Rightarrow> rawResultItem \<Rightarrow> int \<Rightarrow> TestResult" where
  "raw_result run ar raw now = \<lparr>tres_ID = '''', tres_TestRunID = run_ID run, tres_TestName = raw_Test raw,
     tres_Category = '''', tres_Status = mapAgentStatus (raw_Status raw), tres_DurationMs = trunc64 (raw_DurationMs raw),
     tres_Message = raw_Message raw, tres_Metrics = raw_Metrics raw, tres_Logs = ares_Logs ar, tres_CompletedAt = now\<rparr>"

text \<open>The loop that saves every item; a failed save is logged and skipped.\<close>

fun save_items :: "'w ExecutionEngine \<Rightarrow> gctx \<Rightarrow> TestRun \<Rightarrow> AgentResult \<Rightarrow> rawResultItem list \<Rightarrow> ('w, unit) act" where
  "save_items e ctx run ar [] = ret ()"
| "save_items e ctx run ar (raw # raws) =
     do {
       now \<leftarrow> timeNow e;
       _ \<leftarrow> saveResult e ctx (raw_result run ar raw now);
       save_items e ctx run ar raws
     }"

text \<open>The common body of \<open>processResults\<close> and \<open>processResultsForStep\<close>, which differ in the
  name given to a result that is not JSON.\<close>

definition process_output :: "'w ExecutionEngine \<Rightarrow> gctx \<Rightarrow> TestRun \<Rightarrow> string \<Rightarrow> AgentResult option \<Rightarrow> ('w, error + unit) act" where
  "process_output e ctx run name agentResult =
     (case agentResult of
        None \<Rightarrow> ret (Inr ())
      | Some ar \<Rightarrow>
          if ares_Output ar = '''' then ret (Inr ())
          else (case parse_results (ares_Output ar) of
                  None \<Rightarrow> do {
                    now \<leftarrow> timeNow e;
                    saveResult e ctx (single_result run name ar now)
                  }
                | Some raws \<Rightarrow> do {
                    _ \<leftarrow> save_items e ctx run ar raws;
                    ret (Inr ())
                  }))"

definition processResults :: "'w ExecutionEngine \<Rightarrow> gctx \<Rightarrow> TestRun \<Rightarrow> AgentResult option \<Rightarrow> ('w, error + unit) act" where
  "processResults e ctx run ar = process_output e ctx run (run_TestSuiteID run) ar"

definition processResultsForStep :: "'w ExecutionEngine \<Rightarrow> gctx \<Rightarrow> TestRun \<Rightarrow> string \<Rightarrow> AgentResult option \<Rightarrow> ('w, error + unit) act" where
  "processResultsForStep e ctx run stepID ar = process_output e ctx run stepID ar"

subsection \<open>Loading a suite\<close>

record suite_test =
  sjt_Binary :: string
  sjt_Description :: string
  sjt_TimeoutSeconds :: int
  sjt_DependsOn :: "string list"

record suiteJSON =
  sj_ID :: string
  sj_Name :: string
  sj_Description :: string
  sj_TimeoutSeconds :: int
  sj_Tests :: "suite_test list"
  sj_Steps :: "WorkflowStep list"

definition dec_suite_test :: "suite_test dec" where
  "dec_suite_test = dec_struct [
     (''binary'', field sjt_Binary (\<lambda>v. sjt_Binary_update (\<lambda>_. v)) dec_string),
     (''description'', field sjt_Description (\<lambda>v. sjt_Description_update (\<lambda>_. v)) dec_string),
     (''timeout_seconds'', field sjt_TimeoutSeconds (\<lambda>v. sjt_TimeoutSeconds_update (\<lambda>_. v)) dec_int),
     (''depends_on'', field sjt_DependsOn (\<lambda>v. sjt_DependsOn_update (\<lambda>_. v)) (dec_list dec_string []))]"

definition dec_WorkflowStep :: "WorkflowStep dec" where
  "dec_WorkflowStep = dec_struct [
     (''id'', field ws_ID (\<lambda>v. ws_ID_update (\<lambda>_. v)) dec_string),
     (''test_binary'', field ws_TestBinary (\<lambda>v. ws_TestBinary_update (\<lambda>_. v)) dec_string),
     (''args'', field ws_Args (\<lambda>v. ws_Args_update (\<lambda>_. v)) (dec_list dec_string [])),
     (''depends_on'', field ws_DependsOn (\<lambda>v. ws_DependsOn_update (\<lambda>_. v)) (dec_list dec_string [])),
     (''retry_max'', field ws_RetryMax (\<lambda>v. ws_RetryMax_update (\<lambda>_. v)) dec_int),
     (''timeout_seconds'', field ws_TimeoutSec (\<lambda>v. ws_TimeoutSec_update (\<lambda>_. v)) dec_int)]"

definition zero_suite_test :: suite_test where
  "zero_suite_test = \<lparr>sjt_Binary = '''', sjt_Description = '''', sjt_TimeoutSeconds = 0, sjt_DependsOn = []\<rparr>"

definition zero_WorkflowStep :: WorkflowStep where
  "zero_WorkflowStep = \<lparr>ws_ID = '''', ws_TestBinary = '''', ws_Args = [], ws_DependsOn = [], ws_RetryMax = 0, ws_TimeoutSec = 0\<rparr>"

definition zero_suiteJSON :: suiteJSON where
  "zero_suiteJSON = \<lparr>sj_ID = '''', sj_Name = '''', sj_Description = '''', sj_TimeoutSeconds = 0, sj_Tests = [], sj_Steps = []\<rparr>"

definition dec_suiteJSON :: "suiteJSON dec" where
  "dec_suiteJSON = dec_struct [
     (''id'', field sj_ID (\<lambda>v. sj_ID_update (\<lambda>_. v)) dec_string),
     (''name'', field sj_Name (\<lambda>v. sj_Name_update (\<lambda>_. v)) dec_string),
     (''description'', field sj_Description (\<lambda>v. sj_Description_update (\<lambda>_. v)) dec_string),
     (''timeout_seconds'', field sj_TimeoutSeconds (\<lambda>v. sj_TimeoutSeconds_update (\<lambda>_. v)) dec_int),
     (''tests'', field sj_Tests (\<lambda>v. sj_Tests_update (\<lambda>_. v)) (dec_list dec_suite_test zero_suite_test)),
     (''steps'', field sj_Steps (\<lambda>v. sj_Steps_update (\<lambda>_. v)) (dec_list dec_WorkflowStep zero_WorkflowStep))]"

definition vishwa_suite :: "string \<Rightarrow> DeviceEntry \<Rightarrow> TestSuite res" where
  "vishwa_suite suiteID device =
     (let suitePath = drop 7 suiteID in
      case last_segment (splitPath suitePath) of
        Err e \<Rightarrow> Err e
      | Panic p \<Rightarrow> Panic p
      | Ok binaryName \<Rightarrow>
          Ok \<lparr>suite_ID = suiteID, suite_Name = ''Vishwa Dynamic Suite'', suite_DeviceID = '''', suite_Category = '''',
              suite_Description = ''Dynamically generated suite for Vishwa runtime environment'',
              suite_BinaryPath = '''',
              suite_Steps = [\<lparr>ws_ID = suiteID, ws_TestBinary = vishwa_test_dir device @ ''/'' @ suitePath @ ''/'' @ binaryName,
                              ws_Args = [], ws_DependsOn = [], ws_RetryMax = 1, ws_TimeoutSec = 180\<rparr>],
              suite_Timeout = 0, suite_Tags = []\<rparr>)"

text \<open>Climbing from the working directory; the argument holds the segments, innermost first.\<close>

fun climb :: "'w ExecutionEngine \<Rightarrow> string \<Rightarrow> string list \<Rightarrow> ('w, string option) act" where
  "climb e suiteID rsegs =
     (let p = path_join [CHR ''/'' # join_slash (rev rsegs), ''test-suites'', suiteID, ''suite.json'']
      in do {
        found \<leftarrow> ask (rt_Stat (ee_runtime e) p);
        if found then ret (Some p)
        else (case rsegs of [] \<Rightarrow> ret None | _ # rest \<Rightarrow> climb e suiteID rest)
      })"

fun try_paths :: "'w ExecutionEngine \<Rightarrow> error + string \<Rightarrow> string list \<Rightarrow> ('w, error + string) act" where
  "try_paths e r [] = ret r"
| "try_paths e _ (p # ps) =
     do {
       r \<leftarrow> ask (rt_ReadFile (ee_runtime e) p);
       if sum_ok r then ret r else try_paths e r ps
     }"

definition read_suite :: "'w ExecutionEngine \<Rightarrow> string \<Rightarrow> ('w, error + string) act" where
  "read_suite e suiteID =
     do {
       cwd \<leftarrow> ask (rt_Getwd (ee_runtime e));
       found \<leftarrow> (case cwd of Inl _ \<Rightarrow> ret None | Inr segs \<Rightarrow> climb e suiteID (rev segs));
       (case found of
          Some p \<Rightarrow> ask (rt_ReadFile (ee_runtime e) p)
        | None \<Rightarrow> try_paths e (Inr '''')
            [path_join [''/home/kartheekbudime/driver-validation-suite/test-suites'', suiteID, ''suite.json''],
             path_join [''../../../test-suites'', suiteID, ''suite.json''],
             path_join [''../test-suites'', suiteID, ''suite.json''],
             path_join [''test-suites'', suiteID, ''suite.json'']])
     }"

definition step_of_test :: "suite_test \<Rightarrow> WorkflowStep" where
  "step_of_test t =
     \<lparr>ws_ID = sjt_Binary t,
      ws_TestBinary = (if has_prefix (sjt_Binary t) ''/'' then sjt_Binary t else ''/mnt/share/dvf_tests/'' @ sjt_Binary t),
      ws_Args = [], ws_DependsOn = sjt_DependsOn t, ws_RetryMax = 1, ws_TimeoutSec = sjt_TimeoutSeconds t\<rparr>"

definition suite_of_json :: "suiteJSON \<Rightarrow> TestSuite" where
  "suite_of_json sj =
     \<lparr>suite_ID = sj_ID sj, suite_Name = sj_Name sj, suite_DeviceID = '''', suite_Category = '''',
      suite_Description = sj_Description sj, suite_BinaryPath = '''',
      suite_Steps = (if sj_Steps sj \<noteq> [] then sj_Steps sj else map step_of_test (sj_Tests sj)),
      suite_Timeout = sj_TimeoutSeconds sj, suite_Tags = []\<rparr>"

definition loadTestSuite :: "'w ExecutionEngine \<Rightarrow> string \<Rightarrow> DeviceEntry \<Rightarrow> ('w, TestSuite res) act" where
  "loadTestSuite e suiteID device =
     (if isVishwaSuite suiteID then ret (vishwa_suite suiteID device)
      else do {
        r \<leftarrow> read_suite e suiteID;
        ret (case r of
          Inl err \<Rightarrow> Err (EWrap (''loading test suite '' @ suiteID) err)
        | Inr data \<Rightarrow>
            if data = '''' then Err (EText (''loading test suite '' @ suiteID @ '': %!w(<nil>)''))
            else (case Unmarshal dec_suiteJSON data zero_suiteJSON of
                    Ok sj \<Rightarrow> Ok (suite_of_json sj)
                  | Err err \<Rightarrow> Err (EWrap (''unmarshaling test suite '' @ suiteID) err)
                  | Panic p \<Rightarrow> Panic p))
      })"

subsection \<open>Traces\<close>

definition emits :: "('w, 'a) act \<Rightarrow> ('a \<Rightarrow> call list \<Rightarrow> bool) \<Rightarrow> bool" where
  "emits m P \<longleftrightarrow> (\<forall>s. \<exists>t. es_calls (snd (run_state m s)) = es_calls s @ t \<and> P (fst (run_state m s)) t)"

lemma emits_ret: "P x [] \<Longrightarrow> emits (ret x) P"
  by (simp add: emits_def ret_def)

lemma emits_perform: "(\<And>r. P r (c r)) \<Longrightarrow> emits (perform f c) P"
  by (auto simp: emits_def perform_def split: prod.splits)

lemma emits_ask: "(\<And>r. P r []) \<Longrightarrow> emits (ask f) P"
  unfolding ask_def by (rule emits_perform)

lemma emits_bind:
  assumes "emits m P" and "\<And>x t. P x t \<Longrightarrow> emits (f x) (\<lambda>y u. Q y (t @ u))"
  shows "emits (State_Monad.bind m f) Q"
  unfolding emits_def
proof
  fix s
  obtain x s1 where m: "run_state m s = (x, s1)" by fastforce
  with assms(1) obtain t where t: "es_calls s1 = es_calls s @ t" "P x t" by (metis emits_def fst_conv snd_conv)
  from assms(2) [OF t(2)] obtain u where "es_calls (snd (run_state (f x) s1)) = es_calls s1 @ u"
    and "Q (fst (run_state (f x) s1)) (t @ u)" by (auto simp: emits_def)
  with m t(1) show "\<exists>t. es_calls (snd (run_state (State_Monad.bind m f) s)) = es_calls s @ t \<and>
      Q (fst (run_state (State_Monad.bind m f) s)) t" by auto
qed

text \<open>The same rule as a weakest precondition; with it the trace of a straight-line action is found by \<open>intro\<close>.\<close>

lemma emits_bindI:
  "emits m (\<lambda>x t. emits (f x) (\<lambda>y u. Q y (t @ u))) \<Longrightarrow> emits (State_Monad.bind m f) Q"
  by (erule emits_bind)

lemma emits_conseq: "emits m P \<Longrightarrow> (\<And>x t. P x t \<Longrightarrow> Q x t) \<Longrightarrow> emits m Q"
  unfolding emits_def by meson

lemma emits_conj: "emits m P \<Longrightarrow> emits m Q \<Longrightarrow> emits m (\<lambda>x t. P x t \<and> Q x t)"
  unfolding emits_def by (metis append_same_eq same_append_eq)

lemma emitsD:
  "emits m P \<Longrightarrow> run_state m \<lparr>es_calls = [], es_world = w\<rparr> = (x, s) \<Longrightarrow> P x (es_calls s)"
  unfolding emits_def by (metis append_Nil est.select_convs(1) fst_conv snd_conv)

lemma emits_calls:
  "(\<And>r. P r [CallUpdateStatus ctx i st msg (sum_ok r)]) \<Longrightarrow> emits (updateStatus e ctx i st msg) P"
  "(\<And>r. P' r [CallGetResults ctx i (case r of Inl _ \<Rightarrow> [] | Inr rs \<Rightarrow> rs)]) \<Longrightarrow> emits (getResults e ctx i) P'"
  "(\<And>r. P r [CallSaveResult ctx x]) \<Longrightarrow> emits (saveResult e ctx x) P"
  "(\<And>r. Q r [CallCreateVM ctx (dev_ID dev) (case r of Inl _ \<Rightarrow> None | Inr vm \<Rightarrow> Some (vm_ID vm))]) \<Longrightarrow>
     emits (createVM e ctx dev) Q"
  "(\<And>r. P r [CallStartVM ctx i (sum_ok r)]) \<Longrightarrow> emits (startVM e ctx i) P"
  "(\<And>r. P r [CallStopVM ctx i]) \<Longrightarrow> emits (stopVM e ctx i) P"
  "(\<And>r. P r [CallDestroyVM ctx i]) \<Longrightarrow> emits (destroyVM e ctx i) P"
  "(\<And>r. P r [CallWaitForAgent ctx i (sum_ok r)]) \<Longrightarrow> emits (waitForAgent ac ctx i) P"
  "(\<And>r. R r [CallSendCommand ctx i cmd (case r of Inl _ \<Rightarrow> None | Inr a \<Rightarrow> Some (ares_Status a))]) \<Longrightarrow>
     emits (sendCommand ac ctx i cmd) R"
  "(\<And>ok. B ok [CallTryAcquire a ok]) \<Longrightarrow> emits (tryAcquire al a) B"
  "U () [CallRelease a] \<Longrightarrow> emits (releaseAlloc al a) U"
  "U () [CallResubmit run] \<Longrightarrow> emits (resubmitLater e run) U"
  "(\<And>n. T n []) \<Longrightarrow> emits (timeNow e) T"
  by (auto simp: updateStatus_def getResults_def saveResult_def createVM_def startVM_def stopVM_def destroyVM_def
      waitForAgent_def sendCommand_def tryAcquire_def releaseAlloc_def resubmitLater_def timeNow_def
      intro: emits_perform emits_ask)

text \<open>The calls behind a nil check may be missing.\<close>

lemma emits_optional:
  "U () [] \<Longrightarrow> U () [CallRegisterVM i] \<Longrightarrow> emits (registerVM e i) U"
  "U () [] \<Longrightarrow> U () [CallUnregisterVM i] \<Longrightarrow> emits (unregisterVM e i) U"
  "U () [] \<Longrightarrow> U () [CallPublish ctx ev] \<Longrightarrow> emits (publish e ctx ev) U"
  "U () [] \<Longrightarrow> U () [CallAudit r] \<Longrightarrow> emits (audit e r) U"
  by (auto simp: registerVM_def unregisterVM_def publish_def audit_def
      intro: emits_perform emits_ret split: option.splits)

lemmas emits_intros = emits_bindI emits_ret emits_ask emits_calls emits_optional

subsection \<open>A scripted engine\<close>

text \<open>
  An engine on a world with nothing in it: the store accepts everything, VMs start, and the agent answers
  a command by its ID.
\<close>

definition silent_store :: "'w EngineStore" where
  "silent_store = \<lparr>st_UpdateTestRunStatus = (\<lambda>_ _ _ _ w. (Inr (), w)),
     st_GetTestResults = (\<lambda>_ _ w. (Inr [], w)), st_SaveTestResult = (\<lambda>_ _ w. (Inr (), w))\<rparr>"

definition example_vm :: VMInstance where
  "example_vm = \<lparr>vm_ID = ''vm-1'', vm_Status = VMStatusCreating, vm_DeviceID = ''dvf-gpu'', vm_QEMUDeviceName = ''dvf-gpu'',
     vm_QMPSocketPath = '''', vm_SerialPorts = [], vm_PID = 0, vm_AllocatedCPUs = 2, vm_AllocatedMemMB = 512,
     vm_ImagePath = '''', vm_OverlayPath = '''', vm_CreatedAt = 0, vm_AgentStatus = AgentStatusUnknown,
     vm_LastHeartbeat = None, vm_CurrentTestRunID = ''''\<rparr>"

definition scripted_vms :: "'w VMManagerInterface" where
  "scripted_vms = \<lparr>vmi_CreateVM = (\<lambda>_ _ w. (Inr example_vm, w)), vmi_StartVM = (\<lambda>_ _ w. (Inr (), w)),
     vmi_StopVM = (\<lambda>_ _ w. (Inr (), w)), vmi_DestroyVM = (\<lambda>_ _ w. (Inr (), w))\<rparr>"

definition answer :: "string \<Rightarrow> string \<Rightarrow> AgentResult" where
  "answer status out = \<lparr>ares_CommandID = '''', ares_Status = status, ares_Output = out, ares_Logs = '''', ares_DurationMs = 0\<rparr>"

definition scripted_agent :: "(string \<Rightarrow> error + AgentResult) \<Rightarrow> 'w AgentCoordinatorInterface" where
  "scripted_agent ans = \<lparr>aci_RegisterVM = (\<lambda>_ w. w), aci_UnregisterVM = (\<lambda>_ w. w),
     aci_WaitForAgent = (\<lambda>_ _ w. (Inr (), w)), aci_SendCommand = (\<lambda>_ _ cmd w. (ans (cmd_ID cmd), w))\<rparr>"

definition scripted_runtime :: "'w Runtime" where
  "scripted_runtime = \<lparr>rt_Now = (\<lambda>w. (0, w)), rt_Select = (\<lambda>_ _ w. (Inr 0, w)), rt_Resubmit = (\<lambda>_ w. w),
     rt_Range = (\<lambda>_ w. (\<lambda>_. [], w)), rt_Getwd = (\<lambda>w. (Inl (EText ''getwd''), w)), rt_Stat = (\<lambda>_ w. (False, w)),
     rt_ReadFile = (\<lambda>_ w. (Inl (EText ''no such file''), w))\<rparr>"

definition scripted_engine :: "(string \<Rightarrow> error + AgentResult) \<Rightarrow> 'w ExecutionEngine" where
  "scripted_engine ans = \<lparr>ee_store = silent_store, ee_registry = example_registry, ee_vmManager = scripted_vms,
     ee_agentCoord = Some (scripted_agent ans), ee_allocator = None, ee_cfg = example_config, ee_eventBus = None,
     ee_audit = None, ee_runtime = scripted_runtime\<rparr>"

definition vishwa_run :: TestRun where
  "vishwa_run = \<lparr>run_ID = ''r1'', run_DeviceID = ''dvf-gpu'', run_TestSuiteID = ''vishwa/gemm'',
     run_Status = TestRunStatusPending, run_VMID = [], run_Priority = 0, run_CreatedAt = 0,
     run_StartedAt = None, run_CompletedAt = None, run_DurationMs = 0, run_RequestedBy = [],
     run_Tags = [], run_ErrorMessage = []\<rparr>"

text \<open>What an action returns and logs, started in a world \<open>w\<close> with an empty log.\<close>

definition run_log :: "('w, 'a) act \<Rightarrow> 'w \<Rightarrow> 'a \<times> call list" where
  "run_log m w = (case run_state m \<lparr>es_calls = [], es_world = w\<rparr> of (x, s) \<Rightarrow> (x, es_calls s))"

lemma emits_log: "emits m P \<Longrightarrow> run_log m w = (x, t) \<Longrightarrow> P x t"
  using emitsD [of m P w] by (auto simp: run_log_def split: prod.splits)

lemma split_from_slash:
  "split_from cur p = filter (\<lambda>x. x \<noteq> []) ((cur @ hd (split_slash p)) # tl (split_slash p))"
proof (induction p arbitrary: cur)
  case (Cons c cs)
  then show ?case using split_slash_nonempty [of cs] by (cases "split_slash cs") auto
qed simp

text \<open>
  C39: the loop of \<open>splitPath\<close> computes the segments of a path: it is the split of the path at every slash with
  the empty segments left out.
\<close>

theorem splitPath_segments: "splitPath p = filter (\<lambda>x. x \<noteq> []) (split_slash p)"
  using split_slash_nonempty [of p] by (simp add: splitPath_def split_from_slash [of "[]"])

end
