(* ===== verification/Workflow.thy ===== *)
theory Workflow
  imports Core_Types
begin

text \<open>
  The workflow manager, \<open>internal/core/workflow.go\<close>: construction of a workflow from the
  step definitions of a suite (indexing, validation of the dependency references, Kahn's
  algorithm) and the operations that drive it (\<open>Ready\<close>, \<open>MarkRunning\<close>, \<open>Advance\<close>
  with the propagation of skips, \<open>IsDone\<close>, \<open>IsBlocked\<close>, \<open>Summary\<close>).

  \<open>NewWorkflow\<close> ranges over Go maps three times: to validate the references, to build the
  graph, and to seed the queue. The argument \<open>ord\<close> gives the order in which each of these
  loops visits the step IDs; the results hold for every such order.

  The lemmas show that \<open>NewWorkflow\<close> accepts exactly the acyclic, well-formed step lists and
  then holds a topological order, that one pass of \<open>propagateSkip\<close> over that order reaches
  every transitive dependent, and that a driven workflow never gets stuck.
\<close>

subsection \<open>State\<close>

datatype StepStatus =
    StepStatusPending
  | StepStatusRunning
  | StepStatusPassed
  | StepStatusFailed
  | StepStatusSkipped

record step =
  st_def :: WorkflowStep
  st_status :: StepStatus
  st_attempts :: int

type_synonym steps = "(string, step) gomap"

record Workflow =
  wf_id :: string
  wf_runID :: string
  wf_steps :: steps
  wf_order :: "string list"

subsection \<open>Construction\<close>

text \<open>Index steps: the first empty or repeated ID is an error.\<close>

fun index_steps :: "string \<Rightarrow> nat \<Rightarrow> WorkflowStep list \<Rightarrow> steps \<Rightarrow> steps res" where
  "index_steps wid i [] m = Ok m"
| "index_steps wid i (d # ds) m =
     (if ws_ID d = '''' then Err (EEmptyStepID wid i)
      else if map_of m (ws_ID d) \<noteq> None then Err (EDuplicateStep wid (ws_ID d))
      else index_steps wid (Suc i) ds
             (gput (ws_ID d) \<lparr>st_def = d, st_status = StepStatusPending, st_attempts = 0\<rparr> m))"

text \<open>The dependencies of a step, by its ID.\<close>

definition deps_of :: "steps \<Rightarrow> string \<Rightarrow> string list" where
  "deps_of m sid = (case map_of m sid of None \<Rightarrow> [] | Some s \<Rightarrow> ws_DependsOn (st_def s))"

text \<open>Validate dependency references, visiting the steps in the given order.\<close>

fun check_deps :: "string \<Rightarrow> steps \<Rightarrow> string \<Rightarrow> string list \<Rightarrow> error option" where
  "check_deps wid m sid [] = None"
| "check_deps wid m sid (dep # deps) =
     (if map_of m dep = None then Some (EUnknownDep wid sid dep) else check_deps wid m sid deps)"

fun validate_deps :: "string \<Rightarrow> steps \<Rightarrow> string list \<Rightarrow> error option" where
  "validate_deps wid m [] = None"
| "validate_deps wid m (sid # sids) =
     (case check_deps wid m sid (deps_of m sid) of
        Some e \<Rightarrow> Some e
      | None \<Rightarrow> validate_deps wid m sids)"

text \<open>The maps \<open>inDegree\<close> and \<open>adj\<close>.\<close>

fun add_edges :: "string \<Rightarrow> string list \<Rightarrow> (string, int) gomap \<times> (string, string list) gomap
    \<Rightarrow> (string, int) gomap \<times> (string, string list) gomap" where
  "add_edges sid [] g = g"
| "add_edges sid (dep # deps) (inDegree, adj) =
     add_edges sid deps (gput sid (gcount inDegree sid + 1) inDegree,
                         gput dep (gslice adj dep @ [sid]) adj)"

fun build_graph :: "steps \<Rightarrow> string list \<Rightarrow> (string, int) gomap \<times> (string, string list) gomap
    \<Rightarrow> (string, int) gomap \<times> (string, string list) gomap" where
  "build_graph m [] g = g"
| "build_graph m (sid # sids) (inDegree, adj) =
     build_graph m sids
       (add_edges sid (deps_of m sid) (gput sid (gcount inDegree sid + 0) inDegree, adj))"

text \<open>The inner loop of Kahn's algorithm: one dependency less for every dependent of the step
  just taken; a dependent with none left joins the queue.\<close>

fun relax :: "string list \<Rightarrow> (string, int) gomap \<Rightarrow> string list \<Rightarrow> (string, int) gomap \<times> string list" where
  "relax [] inDegree queue = (inDegree, queue)"
| "relax (nxt # ns) inDegree queue =
     (let inDegree' = gput nxt (gcount inDegree nxt - 1) inDegree
      in relax ns inDegree' (if gcount inDegree' nxt = 0 then queue @ [nxt] else queue))"

definition potential :: "(string, int) gomap \<Rightarrow> nat" where
  "potential inDegree = sum_list (map (nat \<circ> snd) inDegree)"

lemma potential_gput:
  "potential (gput k v m) + nat (gcount m k) = potential m + nat v"
  by (induction m) (auto simp: potential_def gcount_def)

lemma relax_potential:
  "length (snd (relax ns deg q)) + potential (fst (relax ns deg q)) \<le> length q + potential deg"
proof (induction ns deg q rule: relax.induct)
  case (2 nxt ns deg q)
  let ?deg = "gput nxt (gcount deg nxt - 1) deg"
  have "potential ?deg + nat (gcount deg nxt) = potential deg + nat (gcount deg nxt - 1)"
    by (rule potential_gput)
  then have "potential ?deg + (if gcount deg nxt = 1 then 1 else 0) \<le> potential deg" by auto
  with 2 show ?case by (auto simp: Let_def split: if_splits)
qed simp

lemma relax_decreases:
  "(deg', q') = relax ns deg q \<Longrightarrow> length q' + potential deg' < Suc (length q + potential deg)"
  using relax_potential [of ns deg q] by (metis fst_conv le_imp_less_Suc snd_conv)

function kahn :: "(string, string list) gomap \<Rightarrow> (string, int) gomap \<Rightarrow> string list \<Rightarrow> string list
    \<Rightarrow> string list" where
  "kahn adj inDegree [] order = order"
| "kahn adj inDegree (cur # queue) order =
     (case relax (gslice adj cur) inDegree queue of
        (inDegree', queue') \<Rightarrow> kahn adj inDegree' queue' (order @ [cur]))"
  by pat_completeness auto
termination
  by (relation "measure (\<lambda>(adj, inDegree, queue, order). length queue + potential inDegree)")
     (auto dest: relax_decreases)

definition NewWorkflow :: "string \<Rightarrow> string \<Rightarrow> WorkflowStep list \<Rightarrow> (nat \<Rightarrow> string list) \<Rightarrow> Workflow res" where
  "NewWorkflow wid runID defs ord =
     (if defs = [] then Err (ENoSteps wid)
      else case index_steps wid 0 defs [] of
        Err e \<Rightarrow> Err e
      | Panic s \<Rightarrow> Panic s
      | Ok m \<Rightarrow>
          (case validate_deps wid m (ord 0) of
             Some e \<Rightarrow> Err e
           | None \<Rightarrow>
               (let (inDegree, adj) = build_graph m (ord 1) ([], []);
                    queue = filter (\<lambda>sid. gcount inDegree sid = 0) (ord 2);
                    order = kahn adj inDegree queue []
                in if length order \<noteq> length m then Err (ECycle wid)
                   else Ok \<lparr>wf_id = wid, wf_runID = runID, wf_steps = m, wf_order = order\<rparr>)))"

subsection \<open>Driving a workflow\<close>

text \<open>The status of a step; a missing ID has none (\<open>w.steps[dep]\<close> would be nil there, which
  \<open>wf_inv\<close> excludes for every dependency).\<close>

definition status_of :: "steps \<Rightarrow> string \<Rightarrow> StepStatus option" where
  "status_of m sid = map_option st_status (map_of m sid)"

fun depsAllPassed :: "steps \<Rightarrow> string list \<Rightarrow> bool" where
  "depsAllPassed m [] = True"
| "depsAllPassed m (dep # deps) =
     (if status_of m dep \<noteq> Some StepStatusPassed then False else depsAllPassed m deps)"

fun depsAnyFailed :: "steps \<Rightarrow> string list \<Rightarrow> bool" where
  "depsAnyFailed m [] = False"
| "depsAnyFailed m (dep # deps) =
     (if status_of m dep = Some StepStatusFailed \<or> status_of m dep = Some StepStatusSkipped then True
      else depsAnyFailed m deps)"

fun ready_from :: "steps \<Rightarrow> string list \<Rightarrow> string list" where
  "ready_from m [] = []"
| "ready_from m (sid # sids) =
     (if status_of m sid \<noteq> Some StepStatusPending then ready_from m sids
      else if depsAllPassed m (deps_of m sid) then sid # ready_from m sids
      else ready_from m sids)"

definition Ready :: "Workflow \<Rightarrow> string list" where
  "Ready w = ready_from (wf_steps w) (wf_order w)"

fun propagate_from :: "string list \<Rightarrow> steps \<Rightarrow> steps" where
  "propagate_from [] m = m"
| "propagate_from (sid # sids) m =
     propagate_from sids
       (if status_of m sid = Some StepStatusPending \<and> depsAnyFailed m (deps_of m sid)
        then gmodify sid (\<lambda>s. s\<lparr>st_status := StepStatusSkipped\<rparr>) m else m)"

definition propagateSkip :: "Workflow \<Rightarrow> Workflow" where
  "propagateSkip w = w\<lparr>wf_steps := propagate_from (wf_order w) (wf_steps w)\<rparr>"

definition Advance :: "Workflow \<Rightarrow> string \<Rightarrow> StepStatus \<Rightarrow> Workflow res" where
  "Advance w stepID status =
     (case map_of (wf_steps w) stepID of
        None \<Rightarrow> Err (EUnknownStep (wf_id w) stepID)
      | Some s \<Rightarrow>
          (let w' = w\<lparr>wf_steps := gput stepID (s\<lparr>st_status := status\<rparr>) (wf_steps w)\<rparr>
           in Ok (if status = StepStatusFailed then propagateSkip w' else w')))"

definition MarkRunning :: "Workflow \<Rightarrow> string \<Rightarrow> Workflow res" where
  "MarkRunning w stepID =
     (case map_of (wf_steps w) stepID of
        None \<Rightarrow> Err (EUnknownStep (wf_id w) stepID)
      | Some s \<Rightarrow>
          Ok (w\<lparr>wf_steps := gput stepID (s\<lparr>st_status := StepStatusRunning,
                                            st_attempts := st_attempts s + 1\<rparr>) (wf_steps w)\<rparr>))"

definition StepDef :: "Workflow \<Rightarrow> string \<Rightarrow> WorkflowStep option" where
  "StepDef w stepID = map_option st_def (map_of (wf_steps w) stepID)"

definition StepStatusOf :: "Workflow \<Rightarrow> string \<Rightarrow> StepStatus option" where
  "StepStatusOf w stepID = map_option st_status (map_of (wf_steps w) stepID)"

definition Attempts :: "Workflow \<Rightarrow> string \<Rightarrow> int" where
  "Attempts w stepID = (case map_of (wf_steps w) stepID of None \<Rightarrow> 0 | Some s \<Rightarrow> st_attempts s)"

fun unfinished :: "step \<Rightarrow> bool" where
  "unfinished s = (st_status s = StepStatusPending \<or> st_status s = StepStatusRunning)"

definition IsDone :: "Workflow \<Rightarrow> bool" where
  "IsDone w = list_all (\<lambda>s. \<not> unfinished s) (gvals (wf_steps w))"

definition IsBlocked :: "Workflow \<Rightarrow> bool" where
  "IsBlocked w = (if IsDone w then False else length (Ready w) = 0)"

fun summary_from :: "step list \<Rightarrow> int \<times> int \<times> int \<Rightarrow> int \<times> int \<times> int" where
  "summary_from [] acc = acc"
| "summary_from (s # ss) (p, f, k) =
     summary_from ss
       (case st_status s of
          StepStatusPassed \<Rightarrow> (p + 1, f, k)
        | StepStatusFailed \<Rightarrow> (p, f + 1, k)
        | StepStatusSkipped \<Rightarrow> (p, f, k + 1)
        | _ \<Rightarrow> (p, f, k))"

definition Summary :: "Workflow \<Rightarrow> int \<times> int \<times> int" where
  "Summary w = summary_from (gvals (wf_steps w)) (0, 0, 0)"

subsection \<open>Specifications\<close>

text \<open>The dependency relation: \<open>(d, s)\<close> when step \<open>s\<close> lists \<open>d\<close>.\<close>

definition dep_rel :: "steps \<Rightarrow> (string \<times> string) set" where
  "dep_rel m = {(d, s). d \<in> set (deps_of m s)}"

text \<open>A topological order: every step comes after its dependencies.\<close>

fun topo :: "steps \<Rightarrow> string set \<Rightarrow> string list \<Rightarrow> bool" where
  "topo m seen [] = True"
| "topo m seen (x # xs) = (set (deps_of m x) \<subseteq> seen \<and> topo m (insert x seen) xs)"

text \<open>What makes a list of definitions a workflow: the same relation read off the list.\<close>

definition def_rel :: "WorkflowStep list \<Rightarrow> (string \<times> string) set" where
  "def_rel defs = {(d, s). \<exists>x \<in> set defs. ws_ID x = s \<and> d \<in> set (ws_DependsOn x)}"

definition valid_defs :: "WorkflowStep list \<Rightarrow> bool" where
  "valid_defs defs \<longleftrightarrow> defs \<noteq> [] \<and> '''' \<notin> ws_ID ` set defs \<and> distinct (map ws_ID defs) \<and>
     (\<forall>x \<in> set defs. set (ws_DependsOn x) \<subseteq> ws_ID ` set defs)"

definition wf_inv :: "Workflow \<Rightarrow> bool" where
  "wf_inv w \<longleftrightarrow> distinct (gkeys (wf_steps w)) \<and> is_range (wf_order w) (wf_steps w) \<and>
     topo (wf_steps w) {} (wf_order w)"

abbreviation fresh_step :: "WorkflowStep \<Rightarrow> step" where
  "fresh_step d \<equiv> \<lparr>st_def = d, st_status = StepStatusPending, st_attempts = 0\<rparr>"

abbreviation indexed :: "WorkflowStep list \<Rightarrow> steps" where
  "indexed defs \<equiv> map (\<lambda>d. (ws_ID d, fresh_step d)) defs"

definition graph_ok :: "steps \<Rightarrow> (string, string list) gomap \<Rightarrow> bool" where
  "graph_ok m adj \<longleftrightarrow> (\<forall>d. set (gslice adj d) \<subseteq> dom (map_of m)) \<and>
     (\<forall>d s. s \<in> dom (map_of m) \<longrightarrow> count_list (gslice adj d) s = count_list (deps_of m s) d)"

definition kahn_inv :: "steps \<Rightarrow> (string, int) gomap \<Rightarrow> string list \<Rightarrow> string list \<Rightarrow> bool" where
  "kahn_inv m deg q order \<longleftrightarrow>
     distinct (order @ q) \<and> set (order @ q) \<subseteq> dom (map_of m) \<and> topo m {} order \<and>
     (\<forall>s \<in> dom (map_of m). gcount deg s = int (length (filter (\<lambda>d. d \<notin> set order) (deps_of m s)))) \<and>
     (\<forall>s \<in> dom (map_of m). s \<in> set order \<or> s \<in> set q \<longleftrightarrow> gcount deg s = 0)"

definition pos :: "string list \<Rightarrow> string \<Rightarrow> nat" where
  "pos xs x = length (takeWhile (\<lambda>y. y \<noteq> x) xs)"

definition kahn_order :: "steps \<Rightarrow> (nat \<Rightarrow> string list) \<Rightarrow> string list" where
  "kahn_order m ord =
     (let (inDegree, adj) = build_graph m (ord 1) ([], [])
      in kahn adj inDegree (filter (\<lambda>sid. gcount inDegree sid = 0) (ord 2)) [])"

text \<open>Every loop of the construction visits each step exactly once.\<close>

definition visits :: "(nat \<Rightarrow> string list) \<Rightarrow> WorkflowStep list \<Rightarrow> bool" where
  "visits ord defs \<longleftrightarrow> (\<forall>i. distinct (ord i) \<and> set (ord i) = ws_ID ` set defs)"

definition bad :: "steps \<Rightarrow> string \<Rightarrow> bool" where
  "bad m d \<longleftrightarrow> status_of m d = Some StepStatusFailed \<or> status_of m d = Some StepStatusSkipped"

text \<open>The attempt counters, by status.\<close>

definition att_ok :: "steps \<Rightarrow> bool" where
  "att_ok m \<longleftrightarrow> (\<forall>k s. map_of m k = Some s \<longrightarrow>
     st_attempts s = (if st_status s \<in> {StepStatusPending, StepStatusSkipped} then 0 else 1))"

text \<open>A driver launches ready steps and reports running ones as passed or failed.\<close>

inductive wf_step :: "Workflow \<Rightarrow> Workflow \<Rightarrow> bool" where
  launch: "sid \<in> set (Ready w) \<Longrightarrow> MarkRunning w sid = Ok w' \<Longrightarrow> wf_step w w'"
| finish: "StepStatusOf w sid = Some StepStatusRunning \<Longrightarrow>
     status = StepStatusPassed \<or> status = StepStatusFailed \<Longrightarrow>
     Advance w sid status = Ok w' \<Longrightarrow> wf_step w w'"

inductive driven :: "WorkflowStep list \<Rightarrow> Workflow \<Rightarrow> bool" for defs where
  start: "visits ord defs \<Longrightarrow> NewWorkflow wid rid defs ord = Ok w \<Longrightarrow> driven defs w"
| step: "driven defs w \<Longrightarrow> wf_step w w' \<Longrightarrow> driven defs w'"

inductive_cases wf_stepE: "wf_step w w'"

definition status_ok :: "steps \<Rightarrow> bool" where
  "status_ok m \<longleftrightarrow>
     (\<forall>s d. d \<in> set (deps_of m s) \<longrightarrow>
        status_of m s \<in> Some ` {StepStatusRunning, StepStatusPassed, StepStatusFailed} \<longrightarrow>
        status_of m d = Some StepStatusPassed) \<and>
     (\<forall>s d. d \<in> set (deps_of m s) \<longrightarrow> status_of m s = Some StepStatusPending \<longrightarrow> \<not> bad m d) \<and>
     (\<forall>s. status_of m s = Some StepStatusSkipped \<longrightarrow> (\<exists>d \<in> set (deps_of m s). bad m d))"

definition drive_inv :: "Workflow \<Rightarrow> bool" where
  "drive_inv w \<longleftrightarrow> wf_inv w \<and> status_ok (wf_steps w)"

definition step_weight :: "step \<Rightarrow> nat" where
  "step_weight s = (case st_status s of StepStatusPending \<Rightarrow> 2 | StepStatusRunning \<Rightarrow> 1 | _ \<Rightarrow> 0)"

definition work_left :: "Workflow \<Rightarrow> nat" where
  "work_left w = sum_list (map step_weight (gvals (wf_steps w)))"

subsection \<open>Indexing\<close>

lemma index_steps_Ok:
  "'''' \<notin> ws_ID ` set ds \<Longrightarrow> distinct (gkeys m @ map ws_ID ds) \<Longrightarrow>
    index_steps wid i ds m = Ok (m @ indexed ds)"
proof (induction ds arbitrary: i m)
  case (Cons d ds)
  then have "map_of m (ws_ID d) = None" by (auto simp: map_of_eq_None_iff)
  with Cons show ?case by (auto simp: gput_fresh)
qed simp

lemma index_steps_OkD:
  "index_steps wid i ds m = Ok m' \<Longrightarrow> distinct (gkeys m) \<Longrightarrow>
    '''' \<notin> ws_ID ` set ds \<and> distinct (gkeys m @ map ws_ID ds)"
proof (induction ds arbitrary: i m)
  case (Cons d ds)
  from Cons.prems(1) have fresh: "map_of m (ws_ID d) = None" and ne: "ws_ID d \<noteq> ''''"
    by (simp_all split: if_splits)
  with Cons.prems have "index_steps wid (Suc i) ds (m @ [(ws_ID d, fresh_step d)]) = Ok m'"
    by (auto simp: gput_fresh split: if_splits)
  from Cons.IH [OF this] fresh Cons.prems(2) ne show ?case
    by (auto simp: map_of_eq_None_iff)
qed simp

lemma index_steps_not_Panic: "index_steps wid i ds m \<noteq> Panic s"
  by (induction wid i ds m rule: index_steps.induct) auto

lemma map_of_indexed:
  "distinct (map ws_ID defs) \<Longrightarrow> x \<in> set defs \<Longrightarrow> map_of (indexed defs) (ws_ID x) = Some (fresh_step x)"
  by (auto intro!: map_of_is_SomeI simp: comp_def)

lemma dom_indexed [simp]: "dom (map_of (indexed defs)) = ws_ID ` set defs"
  by (simp add: dom_gkeys comp_def image_image)

lemma deps_of_indexed:
  "distinct (map ws_ID defs) \<Longrightarrow> x \<in> set defs \<Longrightarrow> deps_of (indexed defs) (ws_ID x) = ws_DependsOn x"
  by (simp add: deps_of_def map_of_indexed)

lemma deps_of_key: "d \<in> set (deps_of m s) \<Longrightarrow> s \<in> dom (map_of m)"
  by (cases "map_of m s") (auto simp: deps_of_def)

lemma dep_rel_indexed:
  assumes "distinct (map ws_ID defs)"
  shows "dep_rel (indexed defs) = def_rel defs"
proof -
  have "d \<in> set (deps_of (indexed defs) s) \<longleftrightarrow> (\<exists>x \<in> set defs. ws_ID x = s \<and> d \<in> set (ws_DependsOn x))" for d s
  proof
    assume d: "d \<in> set (deps_of (indexed defs) s)"
    then have "s \<in> dom (map_of (indexed defs))" by (rule deps_of_key)
    then obtain x where x: "x \<in> set defs" "ws_ID x = s" by auto
    with assms have "deps_of (indexed defs) s = ws_DependsOn x" by (auto intro: deps_of_indexed)
    with d x show "\<exists>x \<in> set defs. ws_ID x = s \<and> d \<in> set (ws_DependsOn x)" by auto
  qed (use assms in \<open>auto simp: deps_of_indexed\<close>)
  then show ?thesis by (auto simp: dep_rel_def def_rel_def)
qed

subsection \<open>Validation\<close>

lemma check_deps_None: "check_deps wid m sid deps = None \<longleftrightarrow> set deps \<subseteq> dom (map_of m)"
  by (induction deps) auto

lemma validate_deps_None:
  "validate_deps wid m sids = None \<longleftrightarrow> (\<forall>s \<in> set sids. set (deps_of m s) \<subseteq> dom (map_of m))"
proof (induction sids)
  case (Cons s sids)
  then show ?case
    using check_deps_None [of wid m s "deps_of m s"] by (cases "check_deps wid m s (deps_of m s)") simp_all
qed simp

subsection \<open>The graph\<close>

lemma add_edges_count:
  "gcount (fst (add_edges sid deps g)) s = gcount (fst g) s + (if s = sid then int (length deps) else 0)"
  by (induction sid deps g rule: add_edges.induct) auto

lemma add_edges_slice:
  "gslice (snd (add_edges sid deps g)) d = gslice (snd g) d @ replicate (count_list deps d) sid"
  by (induction sid deps g rule: add_edges.induct) (auto simp: replicate_append_same)

lemma build_graph_count:
  "distinct sids \<Longrightarrow> gcount (fst (build_graph m sids g)) s =
     gcount (fst g) s + (if s \<in> set sids then int (length (deps_of m s)) else 0)"
  by (induction m sids g rule: build_graph.induct) (auto simp: add_edges_count)

lemma build_graph_slice:
  "distinct sids \<Longrightarrow> count_list (gslice (snd (build_graph m sids g)) d) s =
     count_list (gslice (snd g) d) s + (if s \<in> set sids then count_list (deps_of m s) d else 0)"
  by (induction m sids g rule: build_graph.induct) (auto simp: add_edges_slice)

lemma build_graph_slice_set:
  "set (gslice (snd (build_graph m sids g)) d) \<subseteq> set (gslice (snd g) d) \<union> set sids"
proof (induction m sids g rule: build_graph.induct)
  case (2 m sid sids deg adj)
  then show ?case by (auto simp: add_edges_slice)
qed simp

lemma build_graph_ok:
  assumes "distinct sids" and "set sids = dom (map_of m)"
  shows "graph_ok m (snd (build_graph m sids ([], [])))"
  using build_graph_slice [OF assms(1), of m "([], [])"] build_graph_slice_set [of m sids "([], [])"] assms(2)
  by (auto simp: graph_ok_def)

subsection \<open>Kahn's algorithm\<close>

lemma topo_append: "topo m S (xs @ ys) \<longleftrightarrow> topo m S xs \<and> topo m (S \<union> set xs) ys"
  by (induction xs arbitrary: S) auto

lemma filter_notin_snoc:
  "cur \<notin> set order \<Longrightarrow> length (filter (\<lambda>d. d \<notin> set order) deps) =
     length (filter (\<lambda>d. d \<notin> set (order @ [cur])) deps) + count_list deps cur"
  by (induction deps) auto

lemma relax_spec:
  assumes "relax ns deg q = (deg', q')"
    and "\<forall>s \<in> K. gcount deg s = int (base s) + int (count_list ns s)"
    and "\<forall>s \<in> K. s \<in> P \<or> s \<in> set q \<longleftrightarrow> gcount deg s = 0"
    and "set ns \<subseteq> K" and "distinct q" and "P \<inter> set q = {}"
  shows "(\<forall>s \<in> K. gcount deg' s = int (base s)) \<and>
    (\<forall>s \<in> K. s \<in> P \<or> s \<in> set q' \<longleftrightarrow> base s = 0) \<and> distinct q' \<and> P \<inter> set q' = {} \<and>
    set q' \<subseteq> set q \<union> K"
  using assms
proof (induction ns deg q rule: relax.induct)
  case (2 nxt ns deg q)
  let ?deg = "gput nxt (gcount deg nxt - 1) deg"
  let ?q = "if gcount ?deg nxt = 0 then q @ [nxt] else q"
  from "2.prems" have nxt: "nxt \<in> K" and pos: "gcount deg nxt = int (base nxt) + int (count_list ns nxt) + 1"
    by auto
  then have out: "nxt \<notin> P" "nxt \<notin> set q" using "2.prems"(3) by auto
  have "relax ns ?deg ?q = (deg', q')" using "2.prems"(1) by (simp add: Let_def)
  moreover have "\<forall>s \<in> K. gcount ?deg s = int (base s) + int (count_list ns s)"
    using "2.prems"(2) pos by auto
  moreover have "\<forall>s \<in> K. s \<in> P \<or> s \<in> set ?q \<longleftrightarrow> gcount ?deg s = 0"
    using "2.prems"(3) out pos by auto
  moreover have "distinct ?q" and "P \<inter> set ?q = {}"
    using "2.prems"(5,6) out by auto
  ultimately have "(\<forall>s \<in> K. gcount deg' s = int (base s)) \<and>
    (\<forall>s \<in> K. s \<in> P \<or> s \<in> set q' \<longleftrightarrow> base s = 0) \<and> distinct q' \<and> P \<inter> set q' = {} \<and>
    set q' \<subseteq> set ?q \<union> K"
    using "2.IH" [OF refl] "2.prems"(4) by (simp add: Let_def)
  with nxt show ?case by (auto split: if_splits)
qed auto

lemma kahn_inv_step:
  assumes inv: "kahn_inv m deg (cur # q) order" and g: "graph_ok m adj"
    and rel: "relax (gslice adj cur) deg q = (deg', q')"
  shows "kahn_inv m deg' q' (order @ [cur])"
proof -
  let ?K = "dom (map_of m)"
  let ?base = "\<lambda>s. length (filter (\<lambda>d. d \<notin> set (order @ [cur])) (deps_of m s))"
  from inv have cur: "cur \<in> ?K" "cur \<notin> set order" "cur \<notin> set q"
    and deg: "\<forall>s \<in> ?K. gcount deg s = int (length (filter (\<lambda>d. d \<notin> set order) (deps_of m s)))"
    and mem: "\<forall>s \<in> ?K. s \<in> set order \<or> s \<in> set (cur # q) \<longleftrightarrow> gcount deg s = 0"
    unfolding kahn_inv_def by auto
  from g have adj: "\<forall>s \<in> ?K. count_list (gslice adj cur) s = count_list (deps_of m s) cur"
    and sub: "set (gslice adj cur) \<subseteq> ?K"
    by (auto simp: graph_ok_def)
  have "\<forall>s \<in> ?K. gcount deg s = int (?base s) + int (count_list (gslice adj cur) s)"
    using deg adj filter_notin_snoc [OF cur(2)] by simp
  moreover have "\<forall>s \<in> ?K. s \<in> set (order @ [cur]) \<or> s \<in> set q \<longleftrightarrow> gcount deg s = 0"
    using mem by auto
  moreover have "distinct q" and "set (order @ [cur]) \<inter> set q = {}"
    using inv by (auto simp: kahn_inv_def)
  ultimately have res: "(\<forall>s \<in> ?K. gcount deg' s = int (?base s)) \<and>
    (\<forall>s \<in> ?K. s \<in> set (order @ [cur]) \<or> s \<in> set q' \<longleftrightarrow> ?base s = 0) \<and> distinct q' \<and>
    set (order @ [cur]) \<inter> set q' = {} \<and> set q' \<subseteq> set q \<union> ?K"
    using relax_spec [OF rel, of ?K ?base "set (order @ [cur])"] sub by blast
  have "gcount deg cur = 0" using mem cur(1) by auto
  then have "set (deps_of m cur) \<subseteq> set order"
    using deg cur(1) by (auto simp: filter_empty_conv)
  then have "topo m {} (order @ [cur])"
    using inv by (simp add: kahn_inv_def topo_append)
  moreover have "distinct ((order @ [cur]) @ q')" and "set ((order @ [cur]) @ q') \<subseteq> ?K"
    using res inv by (auto simp: kahn_inv_def)
  ultimately show ?thesis using res unfolding kahn_inv_def by simp
qed

lemma kahn_inv_final:
  "kahn_inv m deg q order \<Longrightarrow> graph_ok m adj \<Longrightarrow> \<exists>deg'. kahn_inv m deg' [] (kahn adj deg q order)"
proof (induction adj deg q order rule: kahn.induct)
  case (2 adj deg cur q order)
  obtain deg' q' where r: "relax (gslice adj cur) deg q = (deg', q')" by fastforce
  with 2 have "kahn_inv m deg' q' (order @ [cur])" by (blast intro: kahn_inv_step)
  with "2.IH" [OF r [symmetric]] "2.prems"(2) r show ?case by simp
qed auto

subsection \<open>Acyclicity and the topological order\<close>

lemma kahn_inv_start:
  assumes "distinct sids" and "set sids = dom (map_of m)" and "distinct ks" and "set ks = dom (map_of m)"
    and "deg = fst (build_graph m sids ([], []))"
  shows "kahn_inv m deg (filter (\<lambda>s. gcount deg s = 0) ks) []"
  using assms by (auto simp: kahn_inv_def build_graph_count)

lemma kahn_inv_end:
  assumes "kahn_inv m deg [] order" and s: "s \<in> dom (map_of m)"
  shows "s \<in> set order \<longleftrightarrow> set (deps_of m s) \<subseteq> set order"
proof -
  from assms(1) have deg: "\<forall>s \<in> dom (map_of m). gcount deg s = int (length (filter (\<lambda>d. d \<notin> set order) (deps_of m s)))"
    and mem: "\<forall>s \<in> dom (map_of m). s \<in> set order \<or> s \<in> set [] \<longleftrightarrow> gcount deg s = 0"
    unfolding kahn_inv_def by blast+
  have "s \<in> set order \<longleftrightarrow> gcount deg s = 0" using bspec [OF mem s] by simp
  also have "\<dots> \<longleftrightarrow> filter (\<lambda>d. d \<notin> set order) (deps_of m s) = []" using bspec [OF deg s] by simp
  also have "\<dots> \<longleftrightarrow> set (deps_of m s) \<subseteq> set order" by (auto simp: filter_empty_conv)
  finally show ?thesis .
qed

lemma finite_dep_rel: "finite (dep_rel m)"
proof -
  have "dep_rel m \<subseteq> (\<Union>s \<in> dom (map_of m). set (deps_of m s) \<times> {s})"
    using deps_of_key by (auto simp: dep_rel_def)
  then show ?thesis by (rule finite_subset) (simp add: finite_dom_map_of)
qed

lemma topo_pos: "topo m S xs \<Longrightarrow> s \<in> set xs \<Longrightarrow> d \<in> set (deps_of m s) \<Longrightarrow> d \<in> S \<or> pos xs d < pos xs s"
proof (induction xs arbitrary: S)
  case (Cons x xs)
  show ?case
  proof (cases "s = x")
    case False
    with Cons.prems have "s \<in> set xs" and "topo m (insert x S) xs" by auto
    with Cons.IH Cons.prems(3) have "d \<in> insert x S \<or> pos xs d < pos xs s" by blast
    with False show ?thesis by (auto simp: pos_def)
  qed (use Cons.prems in auto)
qed simp

lemma topo_acyclic:
  assumes "topo m {} order" and "dom (map_of m) \<subseteq> set order"
  shows "acyclic (dep_rel m)"
proof -
  have "dep_rel m \<subseteq> measure (pos order)"
    using topo_pos [OF assms(1)] assms(2) deps_of_key by (fastforce simp: dep_rel_def)
  then have "wf (dep_rel m)" by (rule wf_subset [OF wf_measure])
  then show ?thesis by (rule wf_acyclic)
qed

lemma acyclic_covers:
  assumes "acyclic (dep_rel m)" and closed: "\<And>s. set (deps_of m s) \<subseteq> dom (map_of m)"
    and inv: "kahn_inv m deg [] order"
  shows "dom (map_of m) \<subseteq> set order"
proof
  fix s
  have "wf (dep_rel m)" using finite_acyclic_wf [OF finite_dep_rel assms(1)] .
  then show "s \<in> dom (map_of m) \<Longrightarrow> s \<in> set order"
  proof (induction s rule: wf_induct_rule)
    case (less s)
    with closed have "set (deps_of m s) \<subseteq> set order" by (fastforce simp: dep_rel_def)
    with kahn_inv_end [OF inv less.prems] show ?case by simp
  qed
qed

lemma kahn_inv_length:
  assumes "kahn_inv m deg [] order" and "distinct (gkeys m)"
  shows "length order = length m \<longleftrightarrow> set order = dom (map_of m)"
proof -
  have sub: "set order \<subseteq> dom (map_of m)" and d: "distinct order"
    using assms(1) by (simp_all add: kahn_inv_def)
  have "length order = card (set order)" using d by (simp add: distinct_card)
  moreover have "length m = card (dom (map_of m))"
    using assms(2) by (metis distinct_card dom_gkeys length_map)
  ultimately show ?thesis
    using sub card_subset_eq [OF finite_dom_map_of sub] by auto
qed

lemma kahn_order_inv:
  assumes "is_range (ord 1) m" and "is_range (ord 2) m"
  shows "\<exists>deg. kahn_inv m deg [] (kahn_order m ord)"
proof -
  obtain deg adj where g: "build_graph m (ord 1) ([], []) = (deg, adj)" by fastforce
  have "graph_ok m adj"
    using build_graph_ok [of "ord 1" m] assms(1) g by (simp add: is_range_def)
  moreover have "kahn_inv m deg (filter (\<lambda>s. gcount deg s = 0) (ord 2)) []"
    using kahn_inv_start [of "ord 1" m "ord 2" deg] assms g by (simp add: is_range_def)
  ultimately show ?thesis
    using kahn_inv_final g by (simp add: kahn_order_def)
qed

lemma kahn_order_acyclic:
  assumes "is_range (ord 1) m" and "is_range (ord 2) m" and "distinct (gkeys m)"
    and "\<And>s. set (deps_of m s) \<subseteq> dom (map_of m)"
  shows "length (kahn_order m ord) = length m \<longleftrightarrow> acyclic (dep_rel m)"
proof -
  obtain deg where inv: "kahn_inv m deg [] (kahn_order m ord)"
    using kahn_order_inv [OF assms(1,2)] by blast
  have "set (kahn_order m ord) = dom (map_of m) \<longleftrightarrow> acyclic (dep_rel m)"
    using acyclic_covers [OF _ assms(4) inv] topo_acyclic [of m "kahn_order m ord"] inv
    by (auto simp: kahn_inv_def)
  with kahn_inv_length [OF inv assms(3)] show ?thesis by simp
qed

subsection \<open>Construction\<close>

lemma visits_is_range: "visits ord defs \<Longrightarrow> is_range (ord i) (indexed defs)"
  by (simp add: visits_def is_range_def)

lemma valid_defs_closed:
  "valid_defs defs \<Longrightarrow> set (deps_of (indexed defs) s) \<subseteq> dom (map_of (indexed defs))"
proof
  fix d
  assume v: "valid_defs defs" and d: "d \<in> set (deps_of (indexed defs) s)"
  then have "s \<in> ws_ID ` set defs" using deps_of_key [OF d] by simp
  then obtain x where "x \<in> set defs" "s = ws_ID x" by auto
  with v d show "d \<in> dom (map_of (indexed defs))"
    by (simp add: valid_defs_def deps_of_indexed) blast
qed

lemma NewWorkflow_valid:
  assumes v: "valid_defs defs" and vis: "visits ord defs"
  shows "NewWorkflow wid rid defs ord =
    (if acyclic (def_rel defs)
     then Ok \<lparr>wf_id = wid, wf_runID = rid, wf_steps = indexed defs,
              wf_order = kahn_order (indexed defs) ord\<rparr>
     else Err (ECycle wid))"
proof -
  have idx: "index_steps wid 0 defs [] = Ok (indexed defs)"
    using index_steps_Ok [of defs "[]" wid 0] v by (auto simp: valid_defs_def)
  have vd: "validate_deps wid (indexed defs) (ord 0) = None"
    using valid_defs_closed [OF v] by (simp add: validate_deps_None)
  have "length (kahn_order (indexed defs) ord) = length (indexed defs) \<longleftrightarrow> acyclic (dep_rel (indexed defs))"
    using v by (intro kahn_order_acyclic visits_is_range [OF vis] valid_defs_closed)
      (auto simp: valid_defs_def comp_def)
  moreover have "dep_rel (indexed defs) = def_rel defs"
    using v by (intro dep_rel_indexed) (simp add: valid_defs_def)
  ultimately show ?thesis
    using v idx vd by (auto simp: NewWorkflow_def valid_defs_def kahn_order_def split: prod.splits)
qed

lemma NewWorkflow_invalid:
  assumes "\<not> valid_defs defs" and vis: "visits ord defs"
  shows "\<exists>e. NewWorkflow wid rid defs ord = Err e"
proof (cases "index_steps wid 0 defs []")
  case (Ok m)
  then have d: "'''' \<notin> ws_ID ` set defs \<and> distinct (map ws_ID defs)"
    using index_steps_OkD [OF Ok] by simp
  then have m: "m = indexed defs" using Ok index_steps_Ok [of defs "[]" wid 0] by simp
  show ?thesis
  proof (cases "validate_deps wid m (ord 0)")
    case None
    have "\<forall>x \<in> set defs. set (ws_DependsOn x) \<subseteq> ws_ID ` set defs"
    proof
      fix x assume x: "x \<in> set defs"
      then have "ws_ID x \<in> set (ord 0)" using vis by (simp add: visits_def)
      with None m have "set (deps_of (indexed defs) (ws_ID x)) \<subseteq> ws_ID ` set defs"
        by (simp add: validate_deps_None)
      with x d show "set (ws_DependsOn x) \<subseteq> ws_ID ` set defs" by (simp add: deps_of_indexed)
    qed
    with d assms(1) show ?thesis by (auto simp: valid_defs_def NewWorkflow_def)
  qed (use Ok in \<open>auto simp: NewWorkflow_def\<close>)
qed (use index_steps_not_Panic in \<open>auto simp: NewWorkflow_def\<close>)

subsection \<open>Reading and writing the status of a step\<close>

lemma depsAllPassed_iff: "depsAllPassed m ds \<longleftrightarrow> (\<forall>d \<in> set ds. status_of m d = Some StepStatusPassed)"
  by (induction ds) auto

lemma depsAnyFailed_iff: "depsAnyFailed m ds \<longleftrightarrow> (\<exists>d \<in> set ds. bad m d)"
  by (induction ds) (auto simp: bad_def)

lemma ready_from_filter:
  "ready_from m sids = filter (\<lambda>s. status_of m s = Some StepStatusPending \<and>
     (\<forall>d \<in> set (deps_of m s). status_of m d = Some StepStatusPassed)) sids"
  by (induction sids) (auto simp: depsAllPassed_iff)

lemma status_of_dom: "status_of m s = Some x \<Longrightarrow> s \<in> dom (map_of m)"
  by (auto simp: status_of_def)

lemma status_of_gmodify:
  "status_of (gmodify sid (\<lambda>s. s\<lparr>st_status := x\<rparr>) m) s =
    (if s = sid \<and> sid \<in> dom (map_of m) then Some x else status_of m s)"
  by (cases "map_of m sid") (auto simp: status_of_def)

lemma deps_of_gmodify [simp]: "deps_of (gmodify sid (\<lambda>s. s\<lparr>st_status := x\<rparr>) m) = deps_of m"
  by (auto simp: deps_of_def fun_eq_iff split: option.splits)

lemma status_of_gput:
  "status_of (gput sid s' m) s = (if s = sid then Some (st_status s') else status_of m s)"
  by (simp add: status_of_def)

lemma deps_of_gput:
  "map_of m sid = Some st \<Longrightarrow> st_def s' = st_def st \<Longrightarrow> deps_of (gput sid s' m) = deps_of m"
  by (auto simp: deps_of_def fun_eq_iff)

lemma topo_cong: "deps_of m = deps_of m' \<Longrightarrow> topo m S xs \<longleftrightarrow> topo m' S xs"
  by (induction xs arbitrary: S) auto

lemma topo_closed: "topo m S xs \<Longrightarrow> s \<in> set xs \<Longrightarrow> set (deps_of m s) \<subseteq> S \<union> set xs"
  by (induction xs arbitrary: S) fastforce+

subsection \<open>One pass of \<open>propagateSkip\<close>\<close>

lemma gkeys_propagate [simp]: "gkeys (propagate_from xs m) = gkeys m"
  by (induction xs m rule: propagate_from.induct) auto

lemma deps_of_propagate [simp]: "deps_of (propagate_from xs m) = deps_of m"
  by (induction xs m rule: propagate_from.induct) auto

lemma dom_propagate [simp]: "dom (map_of (propagate_from xs m)) = dom (map_of m)"
  by (simp add: dom_gkeys del: set_map)

lemma propagate_other: "s \<notin> set xs \<Longrightarrow> status_of (propagate_from xs m) s = status_of m s"
  by (induction xs m rule: propagate_from.induct) (auto simp: status_of_gmodify)

lemma propagate_status:
  "topo m S xs \<Longrightarrow> distinct xs \<Longrightarrow> S \<inter> set xs = {} \<Longrightarrow>
    status_of (propagate_from xs m) s =
      (if s \<in> set xs \<and> status_of m s = Some StepStatusPending \<and>
          (\<exists>d \<in> set (deps_of m s). bad (propagate_from xs m) d)
       then Some StepStatusSkipped else status_of m s)"
proof (induction xs arbitrary: m S)
  case (Cons x xs)
  define m1 where "m1 = (if status_of m x = Some StepStatusPending \<and> depsAnyFailed m (deps_of m x)
        then gmodify x (\<lambda>s. s\<lparr>st_status := StepStatusSkipped\<rparr>) m else m)"
  have deps: "deps_of m1 = deps_of m" by (simp add: m1_def)
  have run: "propagate_from (x # xs) m = propagate_from xs m1" by (simp add: m1_def)
  have "topo m (insert x S) xs" using Cons.prems(1) by simp
  then have "topo m1 (insert x S) xs" by (subst topo_cong [OF deps])
  moreover have "distinct xs" and "insert x S \<inter> set xs = {}" using Cons.prems(2,3) by auto
  ultimately have IH: "status_of (propagate_from xs m1) s =
      (if s \<in> set xs \<and> status_of m1 s = Some StepStatusPending \<and>
          (\<exists>d \<in> set (deps_of m s). bad (propagate_from xs m1) d)
       then Some StepStatusSkipped else status_of m1 s)"
    using Cons.IH [of m1 "insert x S"] deps by simp
  show ?case
  proof (cases "s = x")
    case True
    then have "s \<notin> set xs" using Cons.prems(2) by auto
    have eq: "bad (propagate_from xs m1) d \<longleftrightarrow> bad m d" if "d \<in> set (deps_of m x)" for d
    proof -
      from that Cons.prems(1,3) have "d \<noteq> x" and "d \<notin> set xs" by auto
      then show ?thesis by (simp add: bad_def propagate_other) (simp add: m1_def status_of_gmodify)
    qed
    have "status_of (propagate_from xs m1) x = status_of m1 x"
      using True \<open>s \<notin> set xs\<close> by (simp add: propagate_other)
    also have "\<dots> = (if status_of m x = Some StepStatusPending \<and> (\<exists>d \<in> set (deps_of m x). bad m d)
        then Some StepStatusSkipped else status_of m x)"
      by (auto simp: m1_def status_of_gmodify depsAnyFailed_iff dest: status_of_dom)
    finally show ?thesis
      using True eq by (simp add: run del: propagate_from.simps cong: bex_cong)
  next
    case False
    then have "status_of m1 s = status_of m s" by (simp add: m1_def status_of_gmodify)
    with False IH show ?thesis by (simp add: run del: propagate_from.simps)
  qed
qed simp

subsection \<open>The driven workflow\<close>

lemma StepStatusOf_status_of: "StepStatusOf w s = status_of (wf_steps w) s"
  by (simp add: StepStatusOf_def status_of_def)

lemma Ready_iff:
  "s \<in> set (Ready w) \<longleftrightarrow> s \<in> set (wf_order w) \<and> status_of (wf_steps w) s = Some StepStatusPending \<and>
     (\<forall>d \<in> set (deps_of (wf_steps w) s). status_of (wf_steps w) d = Some StepStatusPassed)"
  by (auto simp: Ready_def ready_from_filter)

lemma wf_inv_upd:
  assumes "wf_inv w" and "deps_of m = deps_of (wf_steps w)" and "gkeys m = gkeys (wf_steps w)"
  shows "wf_inv (w\<lparr>wf_steps := m\<rparr>)"
proof -
  have "dom (map_of m) = dom (map_of (wf_steps w))" using assms(3) by (simp add: dom_gkeys del: set_map)
  moreover have "topo m {} xs = topo (wf_steps w) {} xs" for xs using assms(2) by (rule topo_cong)
  ultimately show ?thesis using assms(1,3) by (simp add: wf_inv_def is_range_def)
qed

lemma status_ok_update:
  assumes ok: "status_ok m" and deps: "deps_of m' = deps_of m"
    and upd: "\<And>s. status_of m' s = (if s = sid then Some new else status_of m s)"
    and case_old: "status_of m sid = Some StepStatusPending \<and> new = StepStatusRunning \<and>
        (\<forall>d \<in> set (deps_of m sid). status_of m d = Some StepStatusPassed) \<or>
      status_of m sid = Some StepStatusRunning \<and> new = StepStatusPassed"
    and irr: "\<And>s. s \<notin> set (deps_of m s)"
  shows "status_ok m'"
proof -
  have bad: "bad m' d \<longleftrightarrow> bad m d" for d using case_old by (auto simp: bad_def upd)
  have passed: "status_of m d = Some StepStatusPassed \<Longrightarrow> status_of m' d = Some StepStatusPassed" for d
    using case_old by (auto simp: upd)
  show ?thesis
    unfolding status_ok_def deps bad
  proof (intro conjI allI impI)
    fix s d
    assume d: "d \<in> set (deps_of m s)"
      and st: "status_of m' s \<in> Some ` {StepStatusRunning, StepStatusPassed, StepStatusFailed}"
    show "status_of m' d = Some StepStatusPassed"
    proof (cases "s = sid")
      case True
      with case_old d ok have "status_of m d = Some StepStatusPassed" by (auto simp: status_ok_def)
      then show ?thesis by (rule passed)
    next
      case False
      with st have "status_of m s \<in> Some ` {StepStatusRunning, StepStatusPassed, StepStatusFailed}"
        by (simp add: upd)
      with ok d have "status_of m d = Some StepStatusPassed" unfolding status_ok_def by blast
      then show ?thesis by (rule passed)
    qed
  next
    fix s d
    assume "d \<in> set (deps_of m s)" and "status_of m' s = Some StepStatusPending"
    with ok case_old show "\<not> bad m d" by (auto simp: status_ok_def upd split: if_splits)
  next
    fix s
    assume "status_of m' s = Some StepStatusSkipped"
    with ok case_old show "\<exists>d \<in> set (deps_of m s). bad m d" by (auto simp: status_ok_def upd split: if_splits)
  qed
qed

lemma wf_inv_order:
  "wf_inv w \<Longrightarrow> set (wf_order w) = dom (map_of (wf_steps w)) \<and> distinct (wf_order w) \<and>
     topo (wf_steps w) {} (wf_order w)"
  by (simp add: wf_inv_def is_range_def)

lemma wf_inv_closed: "wf_inv w \<Longrightarrow> set (deps_of (wf_steps w) s) \<subseteq> dom (map_of (wf_steps w))"
  using wf_inv_order [of w] topo_closed [of "wf_steps w" "{}" "wf_order w" s] deps_of_key by fastforce

lemma wf_inv_irrefl:
  assumes "wf_inv w"
  shows "s \<notin> set (deps_of (wf_steps w) s)"
proof
  assume "s \<in> set (deps_of (wf_steps w) s)"
  then have "(s, s) \<in> (dep_rel (wf_steps w))\<^sup>+" by (auto simp: dep_rel_def)
  with assms show False
    using topo_acyclic [of "wf_steps w" "wf_order w"] wf_inv_order [of w] by (auto simp: acyclic_def)
qed

lemma MarkRunning_Ok:
  "MarkRunning w sid = Ok w' \<longleftrightarrow> (\<exists>s. map_of (wf_steps w) sid = Some s \<and>
     w' = w\<lparr>wf_steps := gput sid (s\<lparr>st_status := StepStatusRunning, st_attempts := st_attempts s + 1\<rparr>) (wf_steps w)\<rparr>)"
  by (auto simp: MarkRunning_def split: option.splits)

lemma Advance_Ok:
  "Advance w sid x = Ok w' \<longleftrightarrow> (\<exists>s. map_of (wf_steps w) sid = Some s \<and>
     w' = w\<lparr>wf_steps := (if x = StepStatusFailed
         then propagate_from (wf_order w) (gput sid (s\<lparr>st_status := x\<rparr>) (wf_steps w))
         else gput sid (s\<lparr>st_status := x\<rparr>) (wf_steps w))\<rparr>)"
  by (cases "map_of (wf_steps w) sid") (auto simp: Advance_def propagateSkip_def Let_def)

lemma status_ok_fail:
  assumes ok: "status_ok m" and run: "status_of m sid = Some StepStatusRunning"
    and deps: "deps_of m0 = deps_of m"
    and upd: "\<And>s. status_of m0 s = (if s = sid then Some StepStatusFailed else status_of m s)"
    and fix_eq: "\<And>s. status_of m' s =
      (if s \<in> dom (map_of m0) \<and> status_of m0 s = Some StepStatusPending \<and> (\<exists>d \<in> set (deps_of m s). bad m' d)
       then Some StepStatusSkipped else status_of m0 s)"
    and deps': "deps_of m' = deps_of m"
  shows "status_ok m'"
proof -
  have keep: "status_of m' d = status_of m d" if "status_of m d \<noteq> Some StepStatusPending" "d \<noteq> sid" for d
    using that fix_eq [of d] upd [of d] by simp
  have pass: "status_of m' d = Some StepStatusPassed" if "status_of m d = Some StepStatusPassed" for d
    using that keep [of d] run by (cases "d = sid") simp_all
  have deps_pass: "status_of m' d = Some StepStatusPassed"
    if "d \<in> set (deps_of m s)" "status_of m s \<in> Some ` {StepStatusRunning, StepStatusPassed, StepStatusFailed}" for s d
    using that ok pass unfolding status_ok_def by blast
  show ?thesis
    unfolding status_ok_def deps'
  proof (intro conjI allI impI)
    fix s d
    assume d: "d \<in> set (deps_of m s)"
      and st: "status_of m' s \<in> Some ` {StepStatusRunning, StepStatusPassed, StepStatusFailed}"
    show "status_of m' d = Some StepStatusPassed"
    proof (cases "s = sid")
      case True
      with d run deps_pass show ?thesis by blast
    next
      case False
      with st have "status_of m s \<in> Some ` {StepStatusRunning, StepStatusPassed, StepStatusFailed}"
        using fix_eq [of s] upd [of s] by (auto split: if_splits)
      with d deps_pass show ?thesis by blast
    qed
  next
    fix s d
    assume d: "d \<in> set (deps_of m s)" and st: "status_of m' s = Some StepStatusPending"
    then have "status_of m0 s = Some StepStatusPending" and "\<not> (\<exists>d \<in> set (deps_of m s). bad m' d)"
      using fix_eq [of s] status_of_dom [of m0 s] by (auto split: if_splits)
    with d show "\<not> bad m' d" by blast
  next
    fix s
    assume "status_of m' s = Some StepStatusSkipped"
    then consider "\<exists>d \<in> set (deps_of m s). bad m' d" | "status_of m s = Some StepStatusSkipped"
      using fix_eq [of s] upd [of s] by (auto split: if_splits)
    then show "\<exists>d \<in> set (deps_of m s). bad m' d"
    proof cases
      case 2
      with ok obtain d where d: "d \<in> set (deps_of m s)" "bad m d" by (auto simp: status_ok_def)
      moreover have "bad m' d" using d(2) keep [of d] run by (cases "d = sid") (auto simp: bad_def)
      ultimately show ?thesis by blast
    qed
  qed
qed

lemma drive_inv_launch:
  assumes "drive_inv w" and "sid \<in> set (Ready w)" and "MarkRunning w sid = Ok w'"
  shows "drive_inv w'"
proof -
  from assms(3) obtain s where s: "map_of (wf_steps w) sid = Some s"
    and w': "w' = w\<lparr>wf_steps := gput sid (s\<lparr>st_status := StepStatusRunning, st_attempts := st_attempts s + 1\<rparr>) (wf_steps w)\<rparr>"
    by (auto simp: MarkRunning_Ok)
  let ?m' = "gput sid (s\<lparr>st_status := StepStatusRunning, st_attempts := st_attempts s + 1\<rparr>) (wf_steps w)"
  have deps: "deps_of ?m' = deps_of (wf_steps w)"
    using deps_of_gput [OF s, of "s\<lparr>st_status := StepStatusRunning, st_attempts := st_attempts s + 1\<rparr>"] by simp
  have "status_ok ?m'"
    using assms(1,2) by (intro status_ok_update [OF _ deps, where sid = sid and new = StepStatusRunning])
      (auto simp: drive_inv_def status_of_gput Ready_iff wf_inv_irrefl)
  moreover have "wf_inv w'" unfolding w'
    using assms(1) deps gkeys_gput_old [OF s] by (intro wf_inv_upd) (auto simp: drive_inv_def)
  ultimately show ?thesis using w' by (simp add: drive_inv_def)
qed

lemma drive_inv_finish:
  assumes "drive_inv w" and "StepStatusOf w sid = Some StepStatusRunning"
    and "x = StepStatusPassed \<or> x = StepStatusFailed" and "Advance w sid x = Ok w'"
  shows "drive_inv w'"
proof -
  let ?m = "wf_steps w"
  from assms(4) obtain s where s: "map_of ?m sid = Some s"
    and w': "w' = w\<lparr>wf_steps := (if x = StepStatusFailed
         then propagate_from (wf_order w) (gput sid (s\<lparr>st_status := x\<rparr>) ?m)
         else gput sid (s\<lparr>st_status := x\<rparr>) ?m)\<rparr>"
    by (auto simp: Advance_Ok)
  let ?mx = "gput sid (s\<lparr>st_status := x\<rparr>) ?m"
  have deps: "deps_of ?mx = deps_of ?m" using deps_of_gput [OF s, of "s\<lparr>st_status := x\<rparr>"] by simp
  have keys: "gkeys ?mx = gkeys ?m" using s by (rule gkeys_gput_old)
  have run: "status_of ?m sid = Some StepStatusRunning" using assms(2) by (simp add: StepStatusOf_status_of)
  from assms(1) have inv: "wf_inv w" and ok: "status_ok ?m" by (auto simp: drive_inv_def)
  have "status_ok (wf_steps w')"
  proof (cases "x = StepStatusFailed")
    case True
    have "topo ?mx {} (wf_order w)" using wf_inv_order [OF inv] topo_cong [OF deps] by blast
    moreover have "set (wf_order w) = dom (map_of ?mx)" using wf_inv_order [OF inv] s by auto
    ultimately have "status_of (propagate_from (wf_order w) ?mx) t =
      (if t \<in> dom (map_of ?mx) \<and> status_of ?mx t = Some StepStatusPending \<and>
          (\<exists>d \<in> set (deps_of ?m t). bad (propagate_from (wf_order w) ?mx) d)
       then Some StepStatusSkipped else status_of ?mx t)" for t
      using propagate_status [of ?mx "{}" "wf_order w" t] wf_inv_order [OF inv] deps by simp
    with True show ?thesis
      unfolding w' using deps by (intro status_ok_fail [OF ok run deps]) (auto simp: status_of_gput)
  next
    case False
    with assms(3) have "x = StepStatusPassed" by simp
    with run deps show ?thesis unfolding w'
      by (intro status_ok_update [OF ok, where sid = sid and new = StepStatusPassed])
        (auto simp: status_of_gput wf_inv_irrefl [OF inv])
  qed
  moreover have "wf_inv w'" unfolding w' using inv deps keys by (intro wf_inv_upd) auto
  ultimately show ?thesis by (simp add: drive_inv_def)
qed

lemma drive_inv_step: "wf_step w w' \<Longrightarrow> drive_inv w \<Longrightarrow> drive_inv w'"
  by (induction rule: wf_step.induct) (blast intro: drive_inv_launch drive_inv_finish)+

lemma NewWorkflow_Ok:
  assumes "visits ord defs" and "NewWorkflow wid rid defs ord = Ok w"
  shows "valid_defs defs \<and> acyclic (def_rel defs) \<and> wf_id w = wid \<and> wf_runID w = rid \<and>
    wf_steps w = indexed defs \<and> wf_order w = kahn_order (indexed defs) ord"
proof -
  have v: "valid_defs defs" using NewWorkflow_invalid [OF _ assms(1), of wid rid] assms(2) by auto
  with NewWorkflow_valid [OF v assms(1)] assms(2) show ?thesis by (auto split: if_splits)
qed

lemma NewWorkflow_wf_inv:
  assumes "visits ord defs" and "NewWorkflow wid rid defs ord = Ok w"
  shows "wf_inv w"
proof -
  from NewWorkflow_Ok [OF assms] have v: "valid_defs defs" and ac: "acyclic (def_rel defs)"
    and m: "wf_steps w = indexed defs" and order: "wf_order w = kahn_order (indexed defs) ord" by auto
  have dist: "distinct (gkeys (indexed defs))" using v by (simp add: valid_defs_def comp_def)
  have rg: "is_range (ord i) (indexed defs)" for i using assms(1) by (rule visits_is_range)
  obtain deg where inv: "kahn_inv (indexed defs) deg [] (wf_order w)"
    using kahn_order_inv [of ord "indexed defs", OF rg rg] order by auto
  have "acyclic (dep_rel (indexed defs))"
    using ac v dep_rel_indexed [of defs] by (simp add: valid_defs_def)
  then have "dom (map_of (indexed defs)) \<subseteq> set (wf_order w)"
    using acyclic_covers [OF _ valid_defs_closed [OF v] inv] by blast
  with inv dist m show ?thesis by (auto simp: wf_inv_def is_range_def kahn_inv_def)
qed

lemma status_of_indexed:
  "distinct (map ws_ID defs) \<Longrightarrow>
    status_of (indexed defs) s = (if s \<in> ws_ID ` set defs then Some StepStatusPending else None)"
proof (cases "s \<in> ws_ID ` set defs")
  case True
  moreover assume "distinct (map ws_ID defs)"
  ultimately show ?thesis by (auto simp: status_of_def map_of_indexed)
next
  case False
  then have "map_of (indexed defs) s = None" using dom_indexed [of defs] by blast
  with False show ?thesis by (simp add: status_of_def)
qed

lemma driven_inv: "driven defs w \<Longrightarrow> drive_inv w"
proof (induction rule: driven.induct)
  case (start ord wid rid w)
  from NewWorkflow_Ok [OF start] have "wf_steps w = indexed defs" and "distinct (map ws_ID defs)"
    by (auto simp: valid_defs_def)
  then have "status_ok (wf_steps w)"
    by (auto simp: status_ok_def status_of_indexed bad_def split: if_splits)
  with NewWorkflow_wf_inv [OF start] show ?case by (simp add: drive_inv_def)
next
  case (step w w')
  then show ?case by (blast intro: drive_inv_step)
qed

subsection \<open>Progress and termination\<close>

lemma IsDone_iff:
  assumes "distinct (gkeys (wf_steps w))"
  shows "IsDone w \<longleftrightarrow> (\<forall>s. status_of (wf_steps w) s \<noteq> Some StepStatusPending \<and>
                           status_of (wf_steps w) s \<noteq> Some StepStatusRunning)"
proof -
  have "IsDone w \<longleftrightarrow> (\<forall>k v. map_of (wf_steps w) k = Some v \<longrightarrow> \<not> unfinished v)"
    using gvals_map_of [OF assms] unfolding IsDone_def list_all_iff by blast
  then show ?thesis by (auto simp: status_of_def)
qed

text \<open>The first pending step of the topological order is ready once nothing runs.\<close>

lemma drive_inv_progress:
  assumes inv: "drive_inv w" and nd: "\<not> IsDone w"
  shows "Ready w \<noteq> [] \<or> (\<exists>s. StepStatusOf w s = Some StepStatusRunning)"
proof (rule disjCI)
  let ?m = "wf_steps w"
  assume norun: "\<nexists>s. StepStatusOf w s = Some StepStatusRunning"
  let ?P = "\<lambda>s. status_of ?m s = Some StepStatusPending"
  from inv have wf: "wf_inv w" and ok: "status_ok ?m" by (auto simp: drive_inv_def)
  have "\<exists>s. ?P s"
    using nd norun wf by (auto simp: IsDone_iff wf_inv_def StepStatusOf_status_of)
  then have "\<exists>s \<in> set (wf_order w). ?P s" using status_of_dom wf_inv_order [OF wf] by blast
  then obtain ys x zs where sp: "wf_order w = ys @ x # zs" "?P x" "\<forall>y \<in> set ys. \<not> ?P y"
    using split_list_first_prop [of "wf_order w" ?P] by blast
  have sub: "set (deps_of ?m x) \<subseteq> set ys"
    using wf_inv_order [OF wf] sp(1) by (simp add: topo_append)
  have "status_of ?m d = Some StepStatusPassed" if d: "d \<in> set (deps_of ?m x)" for d
  proof -
    from d wf_inv_closed [OF wf] obtain st where st: "status_of ?m d = Some st"
      by (fastforce simp: status_of_def)
    moreover have "\<not> bad ?m d" using ok d sp(2) by (auto simp: status_ok_def)
    moreover have "st \<noteq> StepStatusPending" using sub d sp(3) st by auto
    moreover have "st \<noteq> StepStatusRunning" using norun st by (auto simp: StepStatusOf_status_of)
    ultimately show ?thesis by (cases st) (auto simp: bad_def)
  qed
  then have "x \<in> set (Ready w)" using sp by (simp add: Ready_iff)
  then show "Ready w \<noteq> []" by auto
qed

lemma weight_propagate:
  "sum_list (map step_weight (gvals (propagate_from xs m))) \<le> sum_list (map step_weight (gvals m))"
proof (induction xs m rule: propagate_from.induct)
  case (2 sid sids m)
  show ?case
  proof (cases "status_of m sid = Some StepStatusPending \<and> depsAnyFailed m (deps_of m sid)")
    case True
    moreover have "sum_list (map step_weight (gvals (gmodify sid (\<lambda>s. s\<lparr>st_status := StepStatusSkipped\<rparr>) m)))
      \<le> sum_list (map step_weight (gvals m))"
      by (rule weight_gmodify) (simp add: step_weight_def)
    ultimately show ?thesis using 2 by simp
  next
    case False
    with 2 show ?thesis by auto
  qed
qed simp

lemma work_left_launch:
  assumes "status_of (wf_steps w) sid = Some StepStatusPending" and "MarkRunning w sid = Ok w'"
  shows "work_left w' < work_left w"
proof -
  from assms obtain s where s: "map_of (wf_steps w) sid = Some s" "st_status s = StepStatusPending"
    and w': "w' = w\<lparr>wf_steps := gput sid (s\<lparr>st_status := StepStatusRunning, st_attempts := st_attempts s + 1\<rparr>) (wf_steps w)\<rparr>"
    by (auto simp: MarkRunning_Ok status_of_def)
  with weight_gput [OF s(1), of step_weight "s\<lparr>st_status := StepStatusRunning, st_attempts := st_attempts s + 1\<rparr>"]
  show ?thesis by (simp add: work_left_def step_weight_def)
qed

lemma work_left_finish:
  assumes "status_of (wf_steps w) sid = Some StepStatusRunning"
    and "x = StepStatusPassed \<or> x = StepStatusFailed" and "Advance w sid x = Ok w'"
  shows "work_left w' < work_left w"
proof -
  from assms obtain s where s: "map_of (wf_steps w) sid = Some s" "st_status s = StepStatusRunning"
    and w': "w' = w\<lparr>wf_steps := (if x = StepStatusFailed
         then propagate_from (wf_order w) (gput sid (s\<lparr>st_status := x\<rparr>) (wf_steps w))
         else gput sid (s\<lparr>st_status := x\<rparr>) (wf_steps w))\<rparr>"
    by (auto simp: Advance_Ok status_of_def)
  let ?n = "gput sid (s\<lparr>st_status := x\<rparr>) (wf_steps w)"
  have "sum_list (map step_weight (gvals ?n)) < work_left w"
    using weight_gput [OF s(1), of step_weight "s\<lparr>st_status := x\<rparr>"] s(2) assms(2)
    by (auto simp: work_left_def step_weight_def)
  with weight_propagate [of "wf_order w" ?n] show ?thesis unfolding w' by (auto simp: work_left_def)
qed

lemma wf_step_work_left: "wf_step w w' \<Longrightarrow> work_left w' < work_left w"
  by (erule wf_stepE) (auto simp: Ready_iff StepStatusOf_status_of intro: work_left_launch work_left_finish)

subsection \<open>Outcome of a driven workflow\<close>

lemma driven_steps:
  "driven defs w \<Longrightarrow> valid_defs defs \<and> acyclic (def_rel defs) \<and>
     gkeys (wf_steps w) = map ws_ID defs \<and> deps_of (wf_steps w) = deps_of (indexed defs)"
proof (induction rule: driven.induct)
  case (start ord wid rid w)
  then show ?case using NewWorkflow_Ok [OF start] by (simp add: comp_def)
next
  case (step w w')
  from step(2) have "gkeys (wf_steps w') = gkeys (wf_steps w) \<and> deps_of (wf_steps w') = deps_of (wf_steps w)"
    by (rule wf_stepE) (auto simp: MarkRunning_Ok Advance_Ok gkeys_gput_old deps_of_gput)
  with step show ?case by simp
qed

lemma skipped_failed_ancestor:
  assumes ok: "status_ok m" and wf: "wf (dep_rel m)"
  shows "bad m s \<Longrightarrow> \<exists>a. (a, s) \<in> (dep_rel m)\<^sup>* \<and> status_of m a = Some StepStatusFailed"
proof (induction s rule: wf_induct_rule [OF wf])
  case (1 s)
  show ?case
  proof (cases "status_of m s = Some StepStatusFailed")
    case False
    with 1(2) ok obtain d where d: "d \<in> set (deps_of m s)" "bad m d"
      by (auto simp: bad_def status_ok_def)
    with 1(1) [of d] obtain a where "(a, d) \<in> (dep_rel m)\<^sup>*" "status_of m a = Some StepStatusFailed"
      by (auto simp: dep_rel_def)
    moreover have "(d, s) \<in> dep_rel m" using d by (simp add: dep_rel_def)
    ultimately show ?thesis by (meson rtrancl.rtrancl_into_rtrancl)
  qed blast
qed

lemma failed_ancestor_bad:
  assumes ok: "status_ok m" and dom: "\<And>s. set (deps_of m s) \<subseteq> dom (map_of m)"
    and "(a, s) \<in> (dep_rel m)\<^sup>*" and "bad m a"
  shows "bad m s"
  using assms(3,4)
proof (induction rule: rtrancl_induct)
  case (step d s)
  then have d: "d \<in> set (deps_of m s)" and b: "bad m d" by (auto simp: dep_rel_def)
  then obtain st where st: "status_of m s = Some st"
    using deps_of_key [OF d] by (auto simp: status_of_def)
  have "\<not> (status_of m d = Some StepStatusPassed)" using b by (auto simp: bad_def)
  with ok d b st show ?case unfolding status_ok_def bad_def by (cases st) blast+
qed

lemma summary_from_counts:
  "summary_from ss (p, f, k) =
     (p + int (length (filter (\<lambda>s. st_status s = StepStatusPassed) ss)),
      f + int (length (filter (\<lambda>s. st_status s = StepStatusFailed) ss)),
      k + int (length (filter (\<lambda>s. st_status s = StepStatusSkipped) ss)))"
  by (induction ss arbitrary: p f k) (auto split: StepStatus.splits)

lemma filter_done_length:
  "list_all (\<lambda>s. \<not> unfinished s) ss \<Longrightarrow>
    length ss = length (filter (\<lambda>s. st_status s = StepStatusPassed) ss) +
      length (filter (\<lambda>s. st_status s = StepStatusFailed) ss) +
      length (filter (\<lambda>s. st_status s = StepStatusSkipped) ss)"
proof (induction ss)
  case (Cons s ss)
  then show ?case by (cases "st_status s") auto
qed simp

lemma att_ok_propagate: "att_ok m \<Longrightarrow> att_ok (propagate_from xs m)"
proof (induction xs m rule: propagate_from.induct)
  case (2 sid sids m)
  have "att_ok (gmodify sid (\<lambda>s. s\<lparr>st_status := StepStatusSkipped\<rparr>) m)"
    if "status_of m sid = Some StepStatusPending"
    using that "2.prems" by (auto simp: att_ok_def status_of_def)
  with 2 show ?case by simp
qed simp

lemma wf_step_att_ok: "wf_step w w' \<Longrightarrow> att_ok (wf_steps w) \<Longrightarrow> att_ok (wf_steps w')"
proof (erule wf_stepE)
  fix sid
  assume "att_ok (wf_steps w)" "sid \<in> set (Ready w)" "MarkRunning w sid = Ok w'"
  then obtain s where s: "map_of (wf_steps w) sid = Some s" "st_status s = StepStatusPending"
    and w': "w' = w\<lparr>wf_steps := gput sid (s\<lparr>st_status := StepStatusRunning, st_attempts := st_attempts s + 1\<rparr>) (wf_steps w)\<rparr>"
    by (auto simp: MarkRunning_Ok Ready_iff status_of_def)
  with \<open>att_ok (wf_steps w)\<close> have "st_attempts s = 0" by (simp add: att_ok_def)
  with \<open>att_ok (wf_steps w)\<close> s show ?thesis unfolding w' by (simp add: att_ok_def)
next
  fix sid status
  assume "att_ok (wf_steps w)" "StepStatusOf w sid = Some StepStatusRunning"
    "status = StepStatusPassed \<or> status = StepStatusFailed" and adv: "Advance w sid status = Ok w'"
  then have "att_ok (gput sid (s\<lparr>st_status := status\<rparr>) (wf_steps w))" if "map_of (wf_steps w) sid = Some s" for s
    using that by (auto simp: att_ok_def StepStatusOf_def)
  moreover from adv obtain s where s: "map_of (wf_steps w) sid = Some s"
    and w': "w' = w\<lparr>wf_steps := (if status = StepStatusFailed
         then propagate_from (wf_order w) (gput sid (s\<lparr>st_status := status\<rparr>) (wf_steps w))
         else gput sid (s\<lparr>st_status := status\<rparr>) (wf_steps w))\<rparr>"
    by (auto simp: Advance_Ok)
  ultimately show ?thesis unfolding w'
    by (cases "status = StepStatusFailed") (simp_all add: att_ok_propagate)
qed

lemma driven_att_ok: "driven defs w \<Longrightarrow> att_ok (wf_steps w)"
proof (induction rule: driven.induct)
  case (start ord wid rid w)
  from NewWorkflow_Ok [OF start] have "wf_steps w = indexed defs" by simp
  moreover have "att_ok (indexed defs)" by (auto simp: att_ok_def dest!: map_of_SomeD)
  ultimately show ?case by simp
qed (rule wf_step_att_ok)

lemma driven_dep_rel: "driven defs w \<Longrightarrow> dep_rel (wf_steps w) = def_rel defs"
  using driven_steps [of defs w] dep_rel_indexed [of defs] by (simp add: dep_rel_def valid_defs_def)

lemma driven_dom: "driven defs w \<Longrightarrow> dom (map_of (wf_steps w)) = ws_ID ` set defs"
  using driven_steps [of defs w] by (simp add: dom_gkeys del: set_map) simp

lemma driven_work_bound: "driven defs w \<Longrightarrow> work_left w \<le> 2 * length defs"
proof -
  assume "driven defs w"
  then have "length (wf_steps w) = length defs" using driven_steps [of defs w] by (metis length_map)
  moreover have "sum_list (map step_weight ss) \<le> 2 * length ss" for ss
    by (induction ss) (auto simp: step_weight_def split: StepStatus.splits)
  ultimately show ?thesis by (metis length_map work_left_def)
qed

lemma wf_step_relpow: "(wf_step ^^ n) w w' \<Longrightarrow> n + work_left w' \<le> work_left w"
proof (induction n arbitrary: w')
  case (Suc n)
  then obtain v where "(wf_step ^^ n) w v" "wf_step v w'" by auto
  with Suc.IH [of v] wf_step_work_left [of v w'] show ?case by simp
qed simp

lemma driven_relpow: "driven defs w \<Longrightarrow> (wf_step ^^ n) w w' \<Longrightarrow> driven defs w'"
  by (induction n arbitrary: w') (auto intro: driven.step)

lemma wf_step_exists:
  assumes "drive_inv w" and "\<not> IsDone w"
  shows "\<exists>w'. wf_step w w'"
proof -
  from drive_inv_progress [OF assms] consider s where "s \<in> set (Ready w)"
    | s where "StepStatusOf w s = Some StepStatusRunning"
    by (cases "Ready w") (auto intro: list.set_intros)
  then show ?thesis
  proof cases
    case 1
    then have "s \<in> dom (map_of (wf_steps w))" using status_of_dom by (auto simp: Ready_iff)
    then show ?thesis using launch [OF 1] by (auto simp: MarkRunning_Ok)
  next
    case 2
    then obtain st where "map_of (wf_steps w) s = Some st" by (auto simp: StepStatusOf_def)
    then show ?thesis using finish [OF 2, of StepStatusPassed] by (auto simp: Advance_Ok)
  qed
qed

lemma Summary_counts:
  "Summary w = (p, f, k) \<Longrightarrow>
     p = int (length (filter (\<lambda>s. st_status s = StepStatusPassed) (gvals (wf_steps w)))) \<and>
     f = int (length (filter (\<lambda>s. st_status s = StepStatusFailed) (gvals (wf_steps w)))) \<and>
     k = int (length (filter (\<lambda>s. st_status s = StepStatusSkipped) (gvals (wf_steps w))))"
  unfolding Summary_def summary_from_counts by simp

lemma Summary_zero:
  assumes "distinct (gkeys (wf_steps w))" and "Summary w = (p, f, k)"
  shows "f = 0 \<longleftrightarrow> (\<forall>s. StepStatusOf w s \<noteq> Some StepStatusFailed)"
    and "k = 0 \<longleftrightarrow> (\<forall>s. StepStatusOf w s \<noteq> Some StepStatusSkipped)"
proof -
  have "filter (\<lambda>s. st_status s = x) (gvals (wf_steps w)) = [] \<longleftrightarrow> (\<forall>s. StepStatusOf w s \<noteq> Some x)" for x
  proof -
    have "filter (\<lambda>s. st_status s = x) (gvals (wf_steps w)) = [] \<longleftrightarrow>
      (\<forall>v. (\<exists>k. map_of (wf_steps w) k = Some v) \<longrightarrow> st_status v \<noteq> x)"
      unfolding filter_empty_conv using gvals_map_of [OF assms(1)] by blast
    then show ?thesis by (auto simp: StepStatusOf_def)
  qed
  then show "f = 0 \<longleftrightarrow> (\<forall>s. StepStatusOf w s \<noteq> Some StepStatusFailed)"
    and "k = 0 \<longleftrightarrow> (\<forall>s. StepStatusOf w s \<noteq> Some StepStatusSkipped)"
    using Summary_counts [OF assms(2)] by (metis length_0_conv of_nat_eq_0_iff)+
qed

subsection \<open>Properties\<close>

text \<open>An example suite: \<open>load\<close>, then \<open>mode\<close> and \<open>fuzz\<close>, then \<open>report\<close>.\<close>

definition example_step :: "string \<Rightarrow> string list \<Rightarrow> WorkflowStep" where
  "example_step sid deps = \<lparr>ws_ID = sid, ws_TestBinary = sid, ws_Args = [], ws_DependsOn = deps,
     ws_RetryMax = 0, ws_TimeoutSec = 0\<rparr>"

definition example_defs :: "WorkflowStep list" where
  "example_defs = [example_step ''load'' [], example_step ''mode'' [''load''],
     example_step ''fuzz'' [''load''], example_step ''report'' [''mode'', ''fuzz'']]"

definition example_ord :: "nat \<Rightarrow> string list" where
  "example_ord i = [''fuzz'', ''load'', ''report'', ''mode'']"

text \<open>The workflow of the example after a list of moves: start a step, or report its status.\<close>

fun play :: "Workflow \<Rightarrow> (string \<times> StepStatus) list \<Rightarrow> Workflow res" where
  "play w [] = Ok w"
| "play w ((sid, st) # ms) =
     (case (if st = StepStatusRunning then MarkRunning w sid else Advance w sid st) of
        Ok w' \<Rightarrow> play w' ms | r \<Rightarrow> r)"

fun play_legal :: "Workflow \<Rightarrow> (string \<times> StepStatus) list \<Rightarrow> bool" where
  "play_legal w [] = True"
| "play_legal w ((sid, st) # ms) =
     ((if st = StepStatusRunning then sid \<in> set (Ready w)
       else StepStatusOf w sid = Some StepStatusRunning \<and> (st = StepStatusPassed \<or> st = StepStatusFailed)) \<and>
      (case (if st = StepStatusRunning then MarkRunning w sid else Advance w sid st) of
         Ok w' \<Rightarrow> play_legal w' ms | _ \<Rightarrow> True))"

lemma play_driven: "driven defs w \<Longrightarrow> play_legal w ms \<Longrightarrow> play w ms = Ok w' \<Longrightarrow> driven defs w'"
proof (induction w ms rule: play.induct)
  case (2 w sid st ms)
  then obtain v where v: "(if st = StepStatusRunning then MarkRunning w sid else Advance w sid st) = Ok v"
    by (auto split: res.splits)
  with "2.prems"(2) have "wf_step w v"
    by (auto split: if_splits intro: wf_step.intros)
  with 2 v show ?case by (auto intro: driven.step)
qed simp

definition example_wf :: "(string \<times> StepStatus) list \<Rightarrow> Workflow" where
  "example_wf ms = (case NewWorkflow ''wf'' ''run'' example_defs example_ord of
     Ok w \<Rightarrow> (case play w ms of Ok w' \<Rightarrow> w' | _ \<Rightarrow> w)
   | _ \<Rightarrow> \<lparr>wf_id = [], wf_runID = [], wf_steps = [], wf_order = []\<rparr>)"

lemma example_visits: "visits example_ord example_defs"
  by (auto simp: visits_def example_ord_def example_defs_def example_step_def)

definition example_start :: Workflow where
  "example_start = \<lparr>wf_id = ''wf'', wf_runID = ''run'', wf_steps = indexed example_defs,
     wf_order = [''load'', ''fuzz'', ''mode'', ''report'']\<rparr>"

lemma example_new: "NewWorkflow ''wf'' ''run'' example_defs example_ord = Ok example_start"
  by code_simp

lemma example_driven: "play_legal example_start ms \<Longrightarrow> is_ok (play example_start ms) \<Longrightarrow> driven example_defs (example_wf ms)"
  using play_driven [OF driven.start [OF example_visits example_new]] 
  by (auto simp: example_wf_def example_new is_ok_iff)


definition example_moves :: "(string \<times> StepStatus) list" where
  "example_moves = [(''load'', StepStatusRunning), (''load'', StepStatusPassed),
     (''mode'', StepStatusRunning), (''mode'', StepStatusFailed)]"

lemma example_moves_driven: "driven example_defs (example_wf example_moves)"
  by (rule example_driven) code_simp+

definition example_all_moves :: "(string \<times> StepStatus) list" where
  "example_all_moves = example_moves @ [(''fuzz'', StepStatusRunning), (''fuzz'', StepStatusPassed)]"

lemma example_all_moves_driven: "driven example_defs (example_wf example_all_moves)"
  by (rule example_driven) code_simp+

text \<open>
  C22: \<open>NewWorkflow\<close> never panics, and for every order in which its map loops run it
  accepts a step list exactly when the IDs are non-empty and distinct, every dependency is
  declared and the dependency graph has no cycle. The workflow it returns then holds one step
  per definition and an order that is a topological sorting of all of them.
\<close>

theorem NewWorkflow_correct:
  assumes "visits ord defs"
  shows "case NewWorkflow wid rid defs ord of
      Ok w \<Rightarrow> valid_defs defs \<and> acyclic (def_rel defs) \<and> gkeys (wf_steps w) = map ws_ID defs \<and>
             distinct (wf_order w) \<and> set (wf_order w) = ws_ID ` set defs \<and> topo (wf_steps w) {} (wf_order w)
    | Err _ \<Rightarrow> \<not> (valid_defs defs \<and> acyclic (def_rel defs))
    | Panic _ \<Rightarrow> False"
proof (cases "NewWorkflow wid rid defs ord")
  case (Ok w)
  from NewWorkflow_Ok [OF assms Ok] wf_inv_order [OF NewWorkflow_wf_inv [OF assms Ok]] Ok
  show ?thesis by (simp add: comp_def)
next
  case (Err e)
  with NewWorkflow_valid [OF _ assms] show ?thesis by auto
next
  case (Panic s)
  with NewWorkflow_valid [OF _ assms, of wid rid] NewWorkflow_invalid [OF _ assms, of wid rid]
  show ?thesis by (cases "valid_defs defs") (auto split: if_splits)
qed

theorem NewWorkflow_correct_witness:
  "valid_defs example_defs \<and> acyclic (def_rel example_defs) \<and>
   topo (wf_steps example_start) {} (wf_order example_start)"
  using NewWorkflow_correct [OF example_visits, of "''wf''" "''run''"] by (simp add: example_new)

text \<open>
  C23: a workflow cannot deadlock. However a driver has started ready steps and reported their
  outcomes, as long as \<open>IsDone\<close> is false some step is ready or some step is running.
\<close>

theorem workflow_never_stuck:
  assumes "driven defs w" and "\<not> IsDone w"
  shows "Ready w \<noteq> [] \<or> (\<exists>s. StepStatusOf w s = Some StepStatusRunning)"
  by (rule drive_inv_progress [OF driven_inv [OF assms(1)] assms(2)])

theorem workflow_never_stuck_witness:
  "IsDone (example_wf example_moves) = False \<and>
   (0 < length (Ready (example_wf example_moves)) \<or>
    (\<exists>s. StepStatusOf (example_wf example_moves) s = Some StepStatusRunning))"
proof -
  have nd: "\<not> IsDone (example_wf example_moves)" by code_simp
  from workflow_never_stuck [OF example_moves_driven nd] nd show ?thesis by auto
qed

text \<open>
  C24: dependencies are respected. A step that runs or has run has every step it depends on,
  directly or through other steps, in status \<open>PASSED\<close>.
\<close>

theorem workflow_runs_after_dependencies:
  assumes "driven defs w" and "(d, s) \<in> (def_rel defs)\<^sup>+"
    and "StepStatusOf w s \<in> Some ` {StepStatusRunning, StepStatusPassed, StepStatusFailed}"
  shows "StepStatusOf w d = Some StepStatusPassed"
proof -
  have ok: "status_ok (wf_steps w)" using driven_inv [OF assms(1)] by (simp add: drive_inv_def)
  have one: "StepStatusOf w d = Some StepStatusPassed"
    if "(d, s) \<in> def_rel defs" "StepStatusOf w s \<in> Some ` {StepStatusRunning, StepStatusPassed, StepStatusFailed}" for d s
    using that ok driven_dep_rel [OF assms(1)] unfolding status_ok_def StepStatusOf_status_of dep_rel_def by blast
  from assms(2,3) show ?thesis
  proof (induction rule: converse_trancl_induct)
    case (base d)
    then show ?case by (rule one)
  next
    case (step d e)
    then show ?case using one [of d e] by simp
  qed
qed

theorem workflow_runs_after_dependencies_witness:
  "(''load'', ''mode'') \<in> def_rel example_defs \<and>
   StepStatusOf (example_wf example_moves) ''mode'' = Some StepStatusFailed \<and>
   StepStatusOf (example_wf example_moves) ''load'' = Some StepStatusPassed"
proof -
  have dep: "(''load'', ''mode'') \<in> def_rel example_defs"
    by (auto simp: def_rel_def example_defs_def example_step_def)
  have st: "StepStatusOf (example_wf example_moves) ''mode'' = Some StepStatusFailed" by code_simp
  show ?thesis
    using workflow_runs_after_dependencies [OF example_moves_driven r_into_trancl [OF dep]] dep st by simp
qed

text \<open>
  C25: one pass of \<open>propagateSkip\<close> is enough. At every moment the skipped steps are exactly
  the steps with a failed step among their direct or transitive dependencies.
\<close>

theorem workflow_skipped_iff_failed_ancestor:
  assumes "driven defs w"
  shows "StepStatusOf w s = Some StepStatusSkipped \<longleftrightarrow>
    (\<exists>a. (a, s) \<in> (def_rel defs)\<^sup>+ \<and> StepStatusOf w a = Some StepStatusFailed)"
proof
  let ?m = "wf_steps w"
  have inv: "wf_inv w" and ok: "status_ok ?m" using driven_inv [OF assms] by (auto simp: drive_inv_def)
  have rel: "dep_rel ?m = def_rel defs" by (rule driven_dep_rel [OF assms])
  have wf: "wf (dep_rel ?m)"
    using finite_acyclic_wf [OF finite_dep_rel] driven_steps [OF assms] rel by metis
  {
    assume sk: "StepStatusOf w s = Some StepStatusSkipped"
    then have "bad ?m s" by (simp add: bad_def StepStatusOf_status_of)
    from skipped_failed_ancestor [OF ok wf this] obtain a where
      a: "(a, s) \<in> (dep_rel ?m)\<^sup>*" "status_of ?m a = Some StepStatusFailed" by blast
    with sk have "a \<noteq> s" by (auto simp: StepStatusOf_status_of)
    with a rel show "\<exists>a. (a, s) \<in> (def_rel defs)\<^sup>+ \<and> StepStatusOf w a = Some StepStatusFailed"
      by (auto simp: StepStatusOf_status_of rtrancl_eq_or_trancl)
  next
    assume "\<exists>a. (a, s) \<in> (def_rel defs)\<^sup>+ \<and> StepStatusOf w a = Some StepStatusFailed"
    then obtain a where "(a, s) \<in> (dep_rel ?m)\<^sup>+" and a: "bad ?m a"
      using rel by (auto simp: bad_def StepStatusOf_status_of)
    then obtain d where "(a, d) \<in> (dep_rel ?m)\<^sup>*" and ds: "(d, s) \<in> dep_rel ?m"
      by (meson tranclD2)
    have b: "bad ?m d" by (rule failed_ancestor_bad [OF ok wf_inv_closed [OF inv] _ a]) fact
    moreover have "bad ?m s" by (rule failed_ancestor_bad [OF ok wf_inv_closed [OF inv] _ b]) (use ds in blast)
    moreover have "status_of ?m s \<noteq> Some StepStatusFailed"
      using ok ds b unfolding status_ok_def dep_rel_def bad_def by fastforce
    ultimately show "StepStatusOf w s = Some StepStatusSkipped"
      by (simp add: bad_def StepStatusOf_status_of)
  }
qed

theorem workflow_skipped_iff_failed_ancestor_witness:
  "StepStatusOf (example_wf example_moves) ''report'' = Some StepStatusSkipped \<and>
   (\<exists>a. (a, ''report'') \<in> (def_rel example_defs)\<^sup>+ \<and>
        StepStatusOf (example_wf example_moves) a = Some StepStatusFailed)"
proof -
  have "StepStatusOf (example_wf example_moves) ''report'' = Some StepStatusSkipped" by code_simp
  with workflow_skipped_iff_failed_ancestor [OF example_moves_driven, of "''report''"] show ?thesis by blast
qed

text \<open>
  C26: driving a workflow terminates. From any workflow a driver has reached at most twice as
  many moves follow as there are steps, and a workflow in which no move is left is done.
\<close>

theorem workflow_terminates:
  assumes "driven defs w" and "(wf_step ^^ n) w w'"
  shows "n \<le> 2 * length defs \<and> ((\<nexists>w''. wf_step w' w'') \<longrightarrow> IsDone w')"
proof
  show "n \<le> 2 * length defs"
    using wf_step_relpow [OF assms(2)] driven_work_bound [OF assms(1)] by simp
  show "(\<nexists>w''. wf_step w' w'') \<longrightarrow> IsDone w'"
    using wf_step_exists [OF driven_inv [OF driven_relpow [OF assms]]] by blast
qed

theorem workflow_terminates_witness:
  "\<exists>w. wf_step (example_wf example_moves) w \<and> (1 :: nat) \<le> 2 * length example_defs"
proof -
  have "''fuzz'' \<in> set (Ready (example_wf example_moves))" by code_simp
  moreover have "is_ok (MarkRunning (example_wf example_moves) ''fuzz'')" by code_simp
  then obtain w where "MarkRunning (example_wf example_moves) ''fuzz'' = Ok w" by (auto simp: is_ok_iff)
  ultimately have s: "wf_step (example_wf example_moves) w" by (rule wf_step.launch)
  then have "(wf_step ^^ 1) (example_wf example_moves) w" by (simp only: relpowp_1)
  with workflow_terminates [OF example_moves_driven this] s show ?thesis by blast
qed

lemma summary_done:
  assumes "driven defs w" and "IsDone w" and "Summary w = (passed, failed, skipped)"
  shows "passed + failed + skipped = int (length defs) \<and> 0 \<le> passed \<and> 0 \<le> failed \<and> 0 \<le> skipped \<and>
    (failed = 0 \<longleftrightarrow> (\<forall>d \<in> set defs. StepStatusOf w (ws_ID d) = Some StepStatusPassed)) \<and>
    (failed = 0 \<longrightarrow> skipped = 0)"
proof -
  let ?m = "wf_steps w"
  have inv: "wf_inv w" and ok: "status_ok ?m" using driven_inv [OF assms(1)] by (auto simp: drive_inv_def)
  then have dist: "distinct (gkeys ?m)" by (simp add: wf_inv_def)
  have wf: "wf (dep_rel ?m)"
    using finite_acyclic_wf [OF finite_dep_rel] driven_steps [OF assms(1)] driven_dep_rel [OF assms(1)] by metis
  have none: "failed = 0 \<Longrightarrow> \<not> bad ?m s" for s
    using Summary_zero(1) [OF dist assms(3)] skipped_failed_ancestor [OF ok wf, of s]
    by (auto simp: StepStatusOf_status_of)
  have len: "length (gvals ?m) = length defs" using driven_steps [OF assms(1)] by (metis length_map)
  have total: "passed + failed + skipped = int (length defs)" and nn: "0 \<le> passed" "0 \<le> failed" "0 \<le> skipped"
    using Summary_counts [OF assms(3)] filter_done_length [of "gvals ?m"] assms(2) len
    by (simp_all add: IsDone_def del: filter_map)
  have "StepStatusOf w (ws_ID d) = Some StepStatusPassed" if "failed = 0" "d \<in> set defs" for d
  proof -
    from that(2) driven_dom [OF assms(1)] obtain st where st: "status_of ?m (ws_ID d) = Some st"
      by (fastforce simp: status_of_def)
    with none [OF that(1), of "ws_ID d"] assms(2) dist show ?thesis
      by (cases st) (auto simp: IsDone_iff bad_def StepStatusOf_status_of)
  qed
  moreover have "failed = 0" if all: "\<forall>d \<in> set defs. StepStatusOf w (ws_ID d) = Some StepStatusPassed"
  proof -
    have "StepStatusOf w s \<noteq> Some StepStatusFailed" for s
      using all driven_dom [OF assms(1)] status_of_dom [of ?m s] by (force simp: StepStatusOf_status_of)
    then show ?thesis using Summary_zero(1) [OF dist assms(3)] by simp
  qed
  moreover have "failed = 0 \<Longrightarrow> skipped = 0"
    using none Summary_zero(2) [OF dist assms(3)] by (auto simp: StepStatusOf_status_of bad_def)
  ultimately show ?thesis using total nn by blast
qed

text \<open>
  The accounting of a finished workflow. \<open>Summary\<close> counts every step once, and it
  reports no failure exactly when every step passed; in particular nothing is skipped then.
\<close>

theorem workflow_summary:
  assumes "driven defs w" and "IsDone w" and "Summary w = (passed, failed, skipped)"
  shows "passed + failed + skipped = int (length defs) \<and> 0 \<le> passed \<and> 0 \<le> failed \<and> 0 \<le> skipped \<and>
    (failed = 0 \<longleftrightarrow> (\<forall>d \<in> set defs. StepStatusOf w (ws_ID d) = Some StepStatusPassed)) \<and>
    (failed = 0 \<longrightarrow> skipped = 0)"
  by (rule summary_done [OF assms])

theorem workflow_summary_witness:
  "IsDone (example_wf example_all_moves) \<and> Summary (example_wf example_all_moves) = (2, 1, 1) \<and>
   (2::int) + 1 + 1 = int (length example_defs)"
proof -
  have "IsDone (example_wf example_all_moves)" and "Summary (example_wf example_all_moves) = (2, 1, 1)"
    by code_simp+
  with workflow_summary [OF example_all_moves_driven] show ?thesis by blast
qed

text \<open>
  A step is started at most once. The attempt counter of a step is 1 when the step runs or
  has run, and 0 while it is pending or when it was skipped.
\<close>

theorem workflow_started_once:
  assumes "driven defs w" and "d \<in> set defs"
  shows "Attempts w (ws_ID d) =
    (if StepStatusOf w (ws_ID d) \<in> Some ` {StepStatusRunning, StepStatusPassed, StepStatusFailed} then 1 else 0)"
proof -
  from assms driven_dom [OF assms(1)] obtain s where s: "map_of (wf_steps w) (ws_ID d) = Some s" by fastforce
  with driven_att_ok [OF assms(1)] show ?thesis
    by (cases "st_status s") (auto simp: att_ok_def Attempts_def StepStatusOf_def)
qed

theorem workflow_started_once_witness:
  "Attempts (example_wf example_moves) (ws_ID (example_step ''mode'' [''load''])) = 1"
proof -
  have "example_step ''mode'' [''load''] \<in> set example_defs" by (simp add: example_defs_def)
  moreover have "StepStatusOf (example_wf example_moves) (ws_ID (example_step ''mode'' [''load''])) = Some StepStatusFailed"
    by code_simp
  ultimately show ?thesis using workflow_started_once [OF example_moves_driven] by simp
qed

text \<open>
  \<open>IsBlocked\<close> does not look at running steps. Its comment promises true only when no step
  is ready and none is running; here a workflow whose first step is running counts as blocked.
\<close>

theorem IsBlocked_while_running:
  "let w = example_wf [(''load'', StepStatusRunning)] in
   driven example_defs w \<and> StepStatusOf w ''load'' = Some StepStatusRunning \<and> IsBlocked w"
proof -
  have "driven example_defs (example_wf [(''load'', StepStatusRunning)])"
    by (rule example_driven) code_simp+
  moreover have "StepStatusOf (example_wf [(''load'', StepStatusRunning)]) ''load'' = Some StepStatusRunning"
    and "IsBlocked (example_wf [(''load'', StepStatusRunning)])" by code_simp+
  ultimately show ?thesis by (simp add: Let_def)
qed

end
