(* ===== verification/Engine_Workflow.thy ===== *)
theory Engine_Workflow
  imports Engine_Base Workflow
begin

text \<open>
  The step execution loop \<open>runWorkflow\<close> of \<open>execution_engine.go\<close>.

  A step runs in a goroutine of its own, which sends the step's command up to
  \<open>RetryMax + 1\<close> times. The model interleaves goroutines at the granularity of one attempt:
  \<open>rt_Select\<close> picks the goroutine that makes the next attempt, or reports that the run's context
  is done. A goroutine that has finished delivers its result to the loop, which advances the
  workflow and starts what became ready. Goroutines that are still running when the context is done are
  dropped.

  The loop takes fuel, one unit per attempt. \<open>runWorkflow\<close> takes the sum of the attempts all steps
  may make, and \<open>runWorkflow_returns\<close> shows that this is enough for every world.
\<close>

subsection \<open>One attempt of a step\<close>

definition max_attempts :: "WorkflowStep \<Rightarrow> nat" where
  "max_attempts d = nat (ws_RetryMax d)"

definition step_cmd_id :: "TestRun \<Rightarrow> string \<Rightarrow> nat \<Rightarrow> string" where
  "step_cmd_id run stepID attempt = ''cmd-step-'' @ run_ID run @ ''-'' @ stepID @ ''-'' @ itoa (int attempt)"

definition base_env :: "DeviceEntry \<Rightarrow> (string, gval) gomap" where
  "base_env device = [(''DVF_DEVICE_PATH'', GStr (dev_DeviceNode device))]"

fun put_all :: "(string \<times> gval) list \<Rightarrow> (string, gval) gomap \<Rightarrow> (string, gval) gomap" where
  "put_all [] m = m"
| "put_all ((k, v) # kvs) m = put_all kvs (gput k v m)"

definition step_params :: "TestRun \<Rightarrow> DeviceEntry \<Rightarrow> WorkflowStep \<Rightarrow> (string, gval) gomap" where
  "step_params run device d =
     (let ps = put_all [(''binary'', GStr (ws_TestBinary d)), (''timeout'', GStr (itoa (ws_TimeoutSec d))),
                        (''suite_name'', GStr (run_TestSuiteID run)), (''env'', GObj (base_env device))] []
      in if ws_Args d \<noteq> [] then gput ''args'' (GArr (map GStr (ws_Args d))) ps else ps)"

text \<open>The Vishwa variables are merged over the base environment.\<close>

definition vishwa_params :: "TestRun \<Rightarrow> DeviceEntry \<Rightarrow> string \<Rightarrow> (string, gval) gomap \<Rightarrow> (string, gval) gomap" where
  "vishwa_params run device binaryName ps =
     (let suitePath = drop 7 (run_TestSuiteID run);
          env = put_all (map (\<lambda>(k, v). (k, GStr v)) (dev_VishwaEnv device)) (base_env device)
      in put_all [(''loader'', GStr (vishwa_loader device)), (''lib_dir'', GStr (vishwa_lib_dir device)),
                  (''binary_dir'', GStr (vishwa_test_dir device @ ''/'' @ suitePath)), (''env'', GObj env),
                  (''binary_name'', GStr binaryName)] ps)"

definition step_cmd :: "TestRun \<Rightarrow> DeviceEntry \<Rightarrow> WorkflowStep \<Rightarrow> nat \<Rightarrow> AgentCommand res" where
  "step_cmd run device d attempt =
     (let cmd = \<lparr>cmd_ID = step_cmd_id run (ws_ID d) attempt, cmd_Type = ''start_test'',
                 cmd_Parameters = step_params run device d\<rparr>
      in if isVishwaSuite (run_TestSuiteID run)
         then (case last_segment (splitPath (drop 7 (run_TestSuiteID run))) of
                 Ok binaryName \<Rightarrow> Ok (cmd\<lparr>cmd_Parameters := vishwa_params run device binaryName (cmd_Parameters cmd)\<rparr>)
               | Err e \<Rightarrow> Err e
               | Panic p \<Rightarrow> Panic p)
         else Ok cmd)"

datatype attempt_outcome = AttemptRetry | AttemptDone StepStatus | AttemptCrash

definition step_ctx :: "gctx \<Rightarrow> WorkflowStep \<Rightarrow> gctx" where
  "step_ctx ctx d = CtxTimeout ctx (wrap64 (wrap64 (ws_TimeoutSec d + 10) * 1000000000))"

definition run_attempt :: "'w ExecutionEngine \<Rightarrow> 'w AgentCoordinatorInterface \<Rightarrow> gctx \<Rightarrow> TestRun \<Rightarrow> DeviceEntry \<Rightarrow> string
    \<Rightarrow> WorkflowStep \<Rightarrow> nat \<Rightarrow> ('w, attempt_outcome) act" where
  "run_attempt e ac ctx run device vmID d attempt =
     (case step_cmd run device d attempt of
        Ok cmd \<Rightarrow> do {
          r \<leftarrow> sendCommand ac (step_ctx ctx d) vmID cmd;
          (case r of
             Inr ar \<Rightarrow> do {
               _ \<leftarrow> processResultsForStep e ctx run (ws_ID d) (Some ar);
               ret (if ares_Status ar = ''passed'' then AttemptDone StepStatusPassed
                    else if attempt < max_attempts d then AttemptRetry else AttemptDone StepStatusFailed)
             }
           | Inl _ \<Rightarrow> ret (if attempt < max_attempts d then AttemptRetry else AttemptDone StepStatusFailed))
        }
      | _ \<Rightarrow> ret AttemptCrash)"

subsection \<open>The loop\<close>

type_synonym goroutines = "(WorkflowStep \<times> nat) list"

abbreviation gr_ids :: "goroutines \<Rightarrow> string list" where
  "gr_ids gs \<equiv> map (\<lambda>g. ws_ID (fst g)) gs"

definition mark_or_same :: "Workflow \<Rightarrow> string \<Rightarrow> Workflow" where
  "mark_or_same w sid = (case MarkRunning w sid of Ok w' \<Rightarrow> w' | _ \<Rightarrow> w)"

definition advance_or_same :: "Workflow \<Rightarrow> string \<Rightarrow> StepStatus \<Rightarrow> Workflow" where
  "advance_or_same w sid st = (case Advance w sid st of Ok w' \<Rightarrow> w' | _ \<Rightarrow> w)"

fun launch_ready :: "Workflow \<Rightarrow> goroutines \<Rightarrow> string list \<Rightarrow> Workflow \<times> goroutines" where
  "launch_ready w gs [] = (w, gs)"
| "launch_ready w gs (sid # sids) =
     (if sid \<in> set (gr_ids gs) then launch_ready w gs sids
      else let d = (case StepDef w sid of Some d \<Rightarrow> d | None \<Rightarrow> zero_WorkflowStep)
           in launch_ready (mark_or_same w sid) (gs @ [(d, 0)]) sids)"

datatype wf_outcome = WfDone Workflow | WfErr error | WfStuck

text \<open>The head of the loop: done, or the workflow and goroutines with which \<open>select\<close> is entered.\<close>

definition wf_enter :: "Workflow \<Rightarrow> goroutines \<Rightarrow> Workflow + Workflow \<times> goroutines" where
  "wf_enter w gs = (if IsDone w then Inl w else Inr (launch_ready w gs (Ready w)))"

fun wf_select :: "nat \<Rightarrow> 'w ExecutionEngine \<Rightarrow> 'w AgentCoordinatorInterface \<Rightarrow> gctx \<Rightarrow> TestRun \<Rightarrow> DeviceEntry \<Rightarrow> string
    \<Rightarrow> Workflow \<Rightarrow> goroutines \<Rightarrow> ('w, wf_outcome) act" where
  "wf_select 0 e ac ctx run device vmID w gs = ret WfStuck"
| "wf_select (Suc n) e ac ctx run device vmID w gs =
     do {
       c \<leftarrow> ask (rt_Select (ee_runtime e) ctx (length gs));
       (case c of
          Inl err \<Rightarrow> ret (WfErr err)
        | Inr k \<Rightarrow>
            if gs = [] then ret WfStuck
            else let i = k mod length gs; (d, attempt) = gs ! i in
              do {
                out \<leftarrow> run_attempt e ac ctx run device vmID d attempt;
                (case out of
                   AttemptCrash \<Rightarrow> ret WfStuck
                 | AttemptRetry \<Rightarrow> wf_select n e ac ctx run device vmID w (gs[i := (d, Suc attempt)])
                 | AttemptDone st \<Rightarrow>
                     (case wf_enter (advance_or_same w (ws_ID d) st) (take i gs @ drop (Suc i) gs) of
                        Inl w' \<Rightarrow> ret (WfDone w')
                      | Inr (w', gs') \<Rightarrow> wf_select n e ac ctx run device vmID w' gs'))
              })
     }"

text \<open>The visiting orders of the map loops in \<open>NewWorkflow\<close>: any permutation the world likes.\<close>

definition range_orders :: "string list \<Rightarrow> (nat \<Rightarrow> string list) \<Rightarrow> nat \<Rightarrow> string list" where
  "range_orders ids f i = (if distinct (f i) \<and> set (f i) = set ids then f i else remdups ids)"

definition wf_fuel :: "WorkflowStep list \<Rightarrow> nat" where
  "wf_fuel defs = sum_list (map (\<lambda>d. Suc (max_attempts d)) defs)"

text \<open>What the loop returns for a workflow that is done.\<close>

definition wf_verdict :: "Workflow \<Rightarrow> error + unit" where
  "wf_verdict w = (case Summary w of (p, f, sk) \<Rightarrow>
     if f > 0 \<or> sk > 0 then Inl (EWorkflowFailed f sk) else Inr ())"

text \<open>\<open>None\<close>: the loop does not return.\<close>

definition runWorkflow :: "'w ExecutionEngine \<Rightarrow> 'w AgentCoordinatorInterface \<Rightarrow> gctx \<Rightarrow> TestRun \<Rightarrow> DeviceEntry \<Rightarrow> string
    \<Rightarrow> TestSuite \<Rightarrow> ('w, (error + unit) option) act" where
  "runWorkflow e ac ctx run device vmID suite =
     do {
       f \<leftarrow> ask (rt_Range (ee_runtime e) (map ws_ID (suite_Steps suite)));
       (case NewWorkflow (suite_ID suite) (run_ID run) (suite_Steps suite)
               (range_orders (map ws_ID (suite_Steps suite)) f) of
          Err err \<Rightarrow> ret (Some (Inl (EWrap ''failed to create workflow'' err)))
        | Panic p \<Rightarrow> ret None
        | Ok w \<Rightarrow>
            (case wf_enter w [] of
               Inl w' \<Rightarrow> ret (Some (wf_verdict w'))
             | Inr (w1, gs) \<Rightarrow>
                 do {
                   out \<leftarrow> wf_select (wf_fuel (suite_Steps suite)) e ac ctx run device vmID w1 gs;
                   ret (case out of
                     WfStuck \<Rightarrow> None
                   | WfErr err \<Rightarrow> Some (Inl err)
                   | WfDone w' \<Rightarrow> Some (wf_verdict w'))
                 }))
     }"

subsection \<open>Invariant of the loop\<close>

definition gs_ok :: "WorkflowStep list \<Rightarrow> Workflow \<Rightarrow> goroutines \<Rightarrow> bool" where
  "gs_ok defs w gs \<longleftrightarrow> driven defs w \<and> distinct (gr_ids gs) \<and>
     set (gr_ids gs) = {s. StepStatusOf w s = Some StepStatusRunning} \<and>
     (\<forall>(d, a) \<in> set gs. d \<in> set defs \<and> a \<le> max_attempts d)"

text \<open>The attempts that may still be made: of the steps that have not started, and of the goroutines.\<close>

definition pending_defs :: "WorkflowStep list \<Rightarrow> Workflow \<Rightarrow> WorkflowStep list" where
  "pending_defs defs w = filter (\<lambda>d. StepStatusOf w (ws_ID d) = Some StepStatusPending) defs"

definition attempts_left :: "WorkflowStep list \<Rightarrow> Workflow \<Rightarrow> goroutines \<Rightarrow> nat" where
  "attempts_left defs w gs = wf_fuel (pending_defs defs w) + sum_list (map (\<lambda>(d, a). Suc (max_attempts d) - a) gs)"

subsection \<open>Lemmas: what the helpers emit\<close>

fun is_save :: "call \<Rightarrow> bool" where
  "is_save (CallSaveResult _ _) = True"
| "is_save _ = False"

lemma emits_save_items: "emits (save_items e ctx run ar raws) (\<lambda>_ t. list_all is_save t)"
proof (induction raws)
  case (Cons raw raws)
  then show ?case by (auto intro!: emits_intros emits_conseq [OF Cons.IH])
qed (simp add: emits_ret)

lemma emits_process_output: "emits (process_output e ctx run name ar) (\<lambda>_ t. list_all is_save t)"
  unfolding process_output_def
  by (auto intro!: emits_intros emits_conseq [OF emits_save_items] split: option.splits)

text \<open>An attempt sends one command, then only saves results; it passes only when the agent said so.\<close>

definition attempt_trace :: "TestRun \<Rightarrow> string \<Rightarrow> WorkflowStep \<Rightarrow> nat \<Rightarrow> attempt_outcome \<Rightarrow> call list \<Rightarrow> bool" where
  "attempt_trace run vm d a out t \<longleftrightarrow> (\<exists>ctx cmd st u. t = CallSendCommand ctx vm cmd st # u \<and> list_all is_save u \<and>
     cmd_ID cmd = step_cmd_id run (ws_ID d) a \<and> cmd_Type cmd = ''start_test'' \<and>
     (out = AttemptDone StepStatusPassed \<longleftrightarrow> st = Some ''passed'') \<and>
     (out = AttemptRetry \<longrightarrow> a < max_attempts d) \<and> out \<noteq> AttemptCrash \<and>
     (\<forall>x. out = AttemptDone x \<longrightarrow> x = StepStatusPassed \<or> x = StepStatusFailed))"

definition vishwa_ok :: "string \<Rightarrow> bool" where
  "vishwa_ok suiteID \<longleftrightarrow> (isVishwaSuite suiteID \<longrightarrow> splitPath (drop 7 suiteID) \<noteq> [])"

lemma step_cmd_Ok:
  "vishwa_ok (run_TestSuiteID run) \<Longrightarrow> \<exists>cmd. step_cmd run device d a = Ok cmd \<and>
     cmd_ID cmd = step_cmd_id run (ws_ID d) a \<and> cmd_Type cmd = ''start_test''"
  by (auto simp: step_cmd_def vishwa_ok_def last_segment_def Let_def)

lemma emits_attempt:
  assumes "vishwa_ok (run_TestSuiteID run)"
  shows "emits (run_attempt e ac ctx run device vm d a) (attempt_trace run vm d a)"
proof -
  obtain cmd where cmd: "step_cmd run device d a = Ok cmd" "cmd_ID cmd = step_cmd_id run (ws_ID d) a"
    "cmd_Type cmd = ''start_test''" using step_cmd_Ok [OF assms] by blast
  then show ?thesis
    unfolding run_attempt_def processResultsForStep_def
    by (auto intro!: emits_intros emits_conseq [OF emits_process_output] simp: attempt_trace_def split: sum.splits)
qed

subsection \<open>Lemmas: definitions and statuses of a driven workflow\<close>

lemma StepDef_propagate: "map_option st_def (map_of (propagate_from xs m) s) = map_option st_def (map_of m s)"
  by (induction xs m rule: propagate_from.induct) (auto simp: option.map_comp comp_def)

lemma wf_step_StepDef: "wf_step w w' \<Longrightarrow> StepDef w' s = StepDef w s"
  by (erule wf_stepE) (auto simp: StepDef_def MarkRunning_Ok Advance_Ok StepDef_propagate)

lemma driven_StepDef: "driven defs w \<Longrightarrow> d \<in> set defs \<Longrightarrow> StepDef w (ws_ID d) = Some d"
proof (induction rule: driven.induct)
  case (start ord wid rid w)
  from NewWorkflow_Ok [OF start(1,2)] have "wf_steps w = indexed defs" and "distinct (map ws_ID defs)"
    by (auto simp: valid_defs_def)
  with start(3) show ?case by (simp add: StepDef_def map_of_indexed)
next
  case (step w w')
  then show ?case by (simp add: wf_step_StepDef)
qed

lemma MarkRunning_status:
  "MarkRunning w sid = Ok w' \<Longrightarrow> StepStatusOf w' s = (if s = sid then Some StepStatusRunning else StepStatusOf w s)"
  by (auto simp: MarkRunning_Ok StepStatusOf_def)

lemma propagate_from_changes:
  "status_of (propagate_from xs m) s = status_of m s \<or>
   status_of m s = Some StepStatusPending \<and> status_of (propagate_from xs m) s = Some StepStatusSkipped"
proof (induction xs m rule: propagate_from.induct)
  case (2 sid sids m)
  then show ?case by (auto simp: status_of_gmodify split: if_splits dest: status_of_dom)
qed simp

lemma Advance_status:
  assumes "Advance w sid x = Ok w'" and "x \<noteq> StepStatusPending"
  shows "StepStatusOf w' sid = Some x"
    and "s \<noteq> sid \<Longrightarrow> StepStatusOf w' s = StepStatusOf w s \<or>
      StepStatusOf w s = Some StepStatusPending \<and> StepStatusOf w' s = Some StepStatusSkipped"
proof -
  from assms(1) obtain st where w': "w' = w\<lparr>wf_steps := (if x = StepStatusFailed
         then propagate_from (wf_order w) (gput sid (st\<lparr>st_status := x\<rparr>) (wf_steps w))
         else gput sid (st\<lparr>st_status := x\<rparr>) (wf_steps w))\<rparr>" by (auto simp: Advance_Ok)
  note ch = propagate_from_changes [of "wf_order w" "gput sid (st\<lparr>st_status := x\<rparr>) (wf_steps w)"]
  show "StepStatusOf w' sid = Some x"
    using ch [of sid] assms(2) unfolding w' by (auto simp: StepStatusOf_status_of status_of_gput)
  show "s \<noteq> sid \<Longrightarrow> StepStatusOf w' s = StepStatusOf w s \<or>
      StepStatusOf w s = Some StepStatusPending \<and> StepStatusOf w' s = Some StepStatusSkipped"
    using ch [of s] unfolding w' by (auto simp: StepStatusOf_status_of status_of_gput)
qed

subsection \<open>Lemmas: launching\<close>

lemma mark_ready:
  assumes "driven defs w" and "sid \<in> set (Ready w)"
  shows "MarkRunning w sid = Ok (mark_or_same w sid)" and "wf_step w (mark_or_same w sid)"
    and "sid \<in> ws_ID ` set defs"
proof -
  have "sid \<in> dom (map_of (wf_steps w))" using assms(2) status_of_dom by (auto simp: Ready_iff)
  then have "sid \<in> ws_ID ` set defs" and "\<exists>w'. MarkRunning w sid = Ok w'"
    using driven_dom [OF assms(1)] by (auto simp: MarkRunning_Ok)
  then show "MarkRunning w sid = Ok (mark_or_same w sid)" and "sid \<in> ws_ID ` set defs"
    by (auto simp: mark_or_same_def)
  with assms(2) show "wf_step w (mark_or_same w sid)" by (auto intro: wf_step.launch)
qed

lemma ready_after_mark:
  assumes "driven defs w" and "sid \<in> set (Ready w)" and "s \<in> set (Ready w)" and "s \<noteq> sid"
  shows "s \<in> set (Ready (mark_or_same w sid))"
proof -
  obtain st where m: "map_of (wf_steps w) sid = Some st"
    and w': "mark_or_same w sid = w\<lparr>wf_steps := gput sid (st\<lparr>st_status := StepStatusRunning, st_attempts := st_attempts st + 1\<rparr>) (wf_steps w)\<rparr>"
    using mark_ready(1) [OF assms(1,2)] by (auto simp: MarkRunning_Ok)
  have p: "status_of (wf_steps w) sid = Some StepStatusPending" using assms(2) by (simp add: Ready_iff)
  have "deps_of (gput sid (st\<lparr>st_status := StepStatusRunning, st_attempts := st_attempts st + 1\<rparr>) (wf_steps w)) = deps_of (wf_steps w)"
    using deps_of_gput [OF m, of "st\<lparr>st_status := StepStatusRunning, st_attempts := st_attempts st + 1\<rparr>"] by simp
  with assms(3,4) p show ?thesis unfolding w' by (auto simp: Ready_iff status_of_gput)
qed

lemma pending_mark:
  assumes "driven defs w" and "d \<in> set defs" and "ws_ID d \<in> set (Ready w)"
  shows "wf_fuel (pending_defs defs w) = Suc (max_attempts d) + wf_fuel (pending_defs defs (mark_or_same w (ws_ID d)))"
proof -
  let ?w = "mark_or_same w (ws_ID d)"
  have st: "StepStatusOf ?w s = (if s = ws_ID d then Some StepStatusRunning else StepStatusOf w s)" for s
    by (rule MarkRunning_status [OF mark_ready(1) [OF assms(1,3)]])
  have p: "StepStatusOf w (ws_ID d) = Some StepStatusPending"
    using assms(3) by (simp add: Ready_iff StepStatusOf_status_of)
  have dist: "distinct (map ws_ID defs)" using driven_steps [OF assms(1)] by (simp add: valid_defs_def)
  obtain xs ys where sp: "defs = xs @ d # ys" using split_list [OF assms(2)] by blast
  have "ws_ID x \<noteq> ws_ID d" if "x \<in> set xs \<union> set ys" for x using dist that unfolding sp by (auto simp: rev_image_eqI)
  then have "filter (\<lambda>x. StepStatusOf ?w (ws_ID x) = Some StepStatusPending) zs =
      filter (\<lambda>x. StepStatusOf w (ws_ID x) = Some StepStatusPending) zs" if "set zs \<subseteq> set xs \<union> set ys" for zs
    using that st by (intro filter_cong) auto
  then show ?thesis using st p unfolding sp by (simp add: pending_defs_def wf_fuel_def)
qed

lemma launch_one:
  assumes ok: "gs_ok defs w gs" and r: "sid \<in> set (Ready w)" and d: "StepDef w sid = Some d"
  shows "sid \<notin> set (gr_ids gs) \<and> ws_ID d = sid \<and> gs_ok defs (mark_or_same w sid) (gs @ [(d, 0)]) \<and>
    attempts_left defs (mark_or_same w sid) (gs @ [(d, 0)]) = attempts_left defs w gs"
proof -
  from ok have drv: "driven defs w" by (simp add: gs_ok_def)
  obtain d' where d': "d' \<in> set defs" "ws_ID d' = sid" using mark_ready(3) [OF drv r] by auto
  with driven_StepDef [OF drv d'(1)] d have dd: "d \<in> set defs" "ws_ID d = sid" by auto
  have p: "StepStatusOf w sid = Some StepStatusPending" using r by (simp add: Ready_iff StepStatusOf_status_of)
  have new: "sid \<notin> set (gr_ids gs)" using ok p by (auto simp: gs_ok_def)
  have st: "StepStatusOf (mark_or_same w sid) s = (if s = sid then Some StepStatusRunning else StepStatusOf w s)" for s
    by (rule MarkRunning_status [OF mark_ready(1) [OF drv r]])
  have "driven defs (mark_or_same w sid)" using drv mark_ready(2) [OF drv r] by (rule driven.step)
  with ok new dd st have "gs_ok defs (mark_or_same w sid) (gs @ [(d, 0)])" by (auto simp: gs_ok_def)
  moreover have "attempts_left defs (mark_or_same w sid) (gs @ [(d, 0)]) = attempts_left defs w gs"
    using pending_mark [OF drv dd(1)] r dd(2) by (simp add: attempts_left_def)
  ultimately show ?thesis using new dd by blast
qed

lemma launch_ready_ok:
  assumes "gs_ok defs w gs" and "set sids \<subseteq> set (Ready w)" and "distinct sids"
    and "launch_ready w gs sids = (w', gs')"
  shows "gs_ok defs w' gs' \<and> attempts_left defs w' gs' = attempts_left defs w gs \<and>
    (gs \<noteq> [] \<or> sids \<noteq> [] \<longrightarrow> gs' \<noteq> [])"
  using assms
proof (induction sids arbitrary: w gs)
  case (Cons sid sids)
  from Cons.prems have drv: "driven defs w" and r: "sid \<in> set (Ready w)" by (auto simp: gs_ok_def)
  obtain d where d: "StepDef w sid = Some d"
    using mark_ready(3) [OF drv r] driven_StepDef [OF drv] by auto
  note one = launch_one [OF Cons.prems(1) r d]
  have "set sids \<subseteq> set (Ready (mark_or_same w sid))"
    using Cons.prems(2,3) ready_after_mark [OF drv r] by auto
  moreover have "launch_ready (mark_or_same w sid) (gs @ [(d, 0)]) sids = (w', gs')"
    using Cons.prems(4) one d by (simp add: Let_def)
  ultimately show ?case using Cons.IH [of "mark_or_same w sid" "gs @ [(d, 0)]"] one Cons.prems(3) by auto
qed auto

subsection \<open>Lemmas: finishing\<close>

lemma without_nth:
  assumes "distinct (gr_ids gs)" and "gs = xs @ (d, a) # ys"
  shows "set (gr_ids (xs @ ys)) = set (gr_ids gs) - {ws_ID d} \<and> distinct (gr_ids (xs @ ys))"
  using assms(1) unfolding assms(2) by (auto simp: image_iff)

lemma finish_one:
  assumes ok: "gs_ok defs w gs" and i: "i < length gs" "gs ! i = (d, a)"
    and st: "st = StepStatusPassed \<or> st = StepStatusFailed"
  shows "gs_ok defs (advance_or_same w (ws_ID d) st) (take i gs @ drop (Suc i) gs) \<and>
    attempts_left defs (advance_or_same w (ws_ID d) st) (take i gs @ drop (Suc i) gs) < attempts_left defs w gs"
proof -
  let ?w = "advance_or_same w (ws_ID d) st" and ?gs = "take i gs @ drop (Suc i) gs"
  have split: "gs = take i gs @ (d, a) # drop (Suc i) gs" using id_take_nth_drop [OF i(1)] i(2) by simp
  from ok have drv: "driven defs w" and dist: "distinct (gr_ids gs)"
    and run: "set (gr_ids gs) = {s. StepStatusOf w s = Some StepStatusRunning}"
    and each: "\<forall>(d, a) \<in> set gs. d \<in> set defs \<and> a \<le> max_attempts d" by (auto simp: gs_ok_def)
  have mem: "(d, a) \<in> set gs" using i nth_mem by metis
  then have r: "StepStatusOf w (ws_ID d) = Some StepStatusRunning" using run by force
  then have adv: "Advance w (ws_ID d) st = Ok ?w"
    by (auto simp: advance_or_same_def Advance_def StepStatusOf_def Let_def split: option.splits)
  then have drv': "driven defs ?w" using drv r st by (auto intro: driven.step wf_step.finish)
  have st_d: "StepStatusOf ?w (ws_ID d) = Some st"
    and st_other: "\<And>s. s \<noteq> ws_ID d \<Longrightarrow> StepStatusOf ?w s = StepStatusOf w s \<or>
      StepStatusOf w s = Some StepStatusPending \<and> StepStatusOf ?w s = Some StepStatusSkipped"
    using Advance_status [OF adv] st by auto
  have ids: "set (gr_ids ?gs) = set (gr_ids gs) - {ws_ID d} \<and> distinct (gr_ids ?gs)"
    by (rule without_nth [OF dist split])
  have "StepStatusOf ?w s = Some StepStatusRunning \<longleftrightarrow> s \<noteq> ws_ID d \<and> StepStatusOf w s = Some StepStatusRunning" for s
    using st_d st_other [of s] st by (cases "s = ws_ID d") auto
  then have "set (gr_ids ?gs) = {s. StepStatusOf ?w s = Some StepStatusRunning}"
    unfolding conjunct1 [OF ids] run by blast
  moreover have "set ?gs \<subseteq> set gs" by (auto dest: in_set_takeD in_set_dropD)
  ultimately have "gs_ok defs ?w ?gs" using drv' ids each by (auto simp: gs_ok_def)
  moreover have "wf_fuel (pending_defs defs ?w) \<le> wf_fuel (pending_defs defs w)"
  proof -
    have "StepStatusOf ?w s = Some StepStatusPending \<Longrightarrow> StepStatusOf w s = Some StepStatusPending" for s
      using st_d st_other [of s] st by (cases "s = ws_ID d") auto
    then show ?thesis by (induction defs) (auto simp: pending_defs_def wf_fuel_def)
  qed
  moreover have "sum_list (map (\<lambda>(d, a). Suc (max_attempts d) - a) gs) =
      sum_list (map (\<lambda>(d, a). Suc (max_attempts d) - a) ?gs) + (Suc (max_attempts d) - a)"
    using arg_cong [OF split, of "\<lambda>x. sum_list (map (\<lambda>(d, a). Suc (max_attempts d) - a) x)"] by simp
  ultimately show ?thesis using each mem by (auto simp: attempts_left_def)
qed

lemma wf_enter_ok:
  assumes "gs_ok defs w gs" and "wf_enter w gs = Inr (w', gs')"
  shows "gs_ok defs w' gs' \<and> attempts_left defs w' gs' = attempts_left defs w gs \<and> gs' \<noteq> []"
proof -
  from assms have nd: "\<not> IsDone w" and l: "launch_ready w gs (Ready w) = (w', gs')" and drv: "driven defs w"
    by (auto simp: wf_enter_def gs_ok_def split: if_splits)
  have "distinct (Ready w)" using wf_inv_order [of w] driven_inv [OF drv]
    by (auto simp: Ready_def ready_from_filter drive_inv_def)
  moreover have "gs \<noteq> [] \<or> Ready w \<noteq> []"
    using drive_inv_progress [OF driven_inv [OF drv] nd] assms(1) by (force simp: gs_ok_def)
  ultimately show ?thesis using launch_ready_ok [OF assms(1) _ _ l] by auto
qed

lemma retry_ok:
  assumes "gs_ok defs w gs" and i: "i < length gs" "gs ! i = (d, a)" and "a < max_attempts d"
  shows "gs_ok defs w (gs[i := (d, Suc a)]) \<and> attempts_left defs w (gs[i := (d, Suc a)]) < attempts_left defs w gs"
proof -
  have "gr_ids (gs[i := (d, Suc a)]) = gr_ids gs"
    using i by (metis (no_types, lifting) fst_conv list_update_id map_update nth_map)
  moreover have "\<forall>(d, a) \<in> set (gs[i := (d, Suc a)]). d \<in> set defs \<and> a \<le> max_attempts d"
    using assms nth_mem [OF i(1)] by (auto simp: gs_ok_def dest!: subsetD [OF set_update_subset_insert])
  moreover have "sum_list (map (\<lambda>(d, a). Suc (max_attempts d) - a) gs) =
      sum_list (map (\<lambda>(d, a). Suc (max_attempts d) - a) (gs[i := (d, Suc a)])) + 1"
  proof -
    have split: "gs = take i gs @ (d, a) # drop (Suc i) gs" using id_take_nth_drop [OF i(1)] i(2) by simp
    have "gs[i := (d, Suc a)] = take i gs @ (d, Suc a) # drop (Suc i) gs" using i by (simp add: upd_conv_take_nth_drop)
    then show ?thesis using assms(4) arg_cong [OF split, of "\<lambda>x. sum_list (map (\<lambda>(d, a). Suc (max_attempts d) - a) x)"]
      by (simp add: Suc_diff_le)
  qed
  ultimately show ?thesis using assms(1) by (simp add: gs_ok_def attempts_left_def)
qed

subsection \<open>The commands of a trace\<close>

text \<open>The identifiers of the commands sent, each with the status the agent answered.\<close>

fun sends :: "call list \<Rightarrow> (string \<times> string option) list" where
  "sends [] = []"
| "sends (CallSendCommand _ _ cmd st # cs) = (cmd_ID cmd, st) # sends cs"
| "sends (_ # cs) = sends cs"

text \<open>The only calls of the loop: commands of type \<open>start_test\<close> to the run's VM, and saved results.\<close>

fun is_step_call :: "string \<Rightarrow> call \<Rightarrow> bool" where
  "is_step_call vm (CallSendCommand _ v cmd _) = (v = vm \<and> cmd_Type cmd = ''start_test'')"
| "is_step_call vm c = is_save c"

definition passed_in :: "TestRun \<Rightarrow> (string \<times> string option) list \<Rightarrow> string \<Rightarrow> bool" where
  "passed_in run h s \<longleftrightarrow> (\<exists>a. (step_cmd_id run s a, Some ''passed'') \<in> set h)"

text \<open>
  Every command is an attempt of a defined step, within its retry limit, all dependencies of which have
  been answered \<open>passed\<close> before, and no attempt is made twice. \<open>h\<close> is what was sent before.
\<close>

fun order_ok :: "WorkflowStep list \<Rightarrow> TestRun \<Rightarrow> (string \<times> string option) list \<Rightarrow> (string \<times> string option) list \<Rightarrow> bool" where
  "order_ok defs run h [] = True"
| "order_ok defs run h (c # cs) =
     ((\<exists>d \<in> set defs. \<exists>a \<le> max_attempts d. fst c = step_cmd_id run (ws_ID d) a \<and>
         list_all (passed_in run h) (ws_DependsOn d)) \<and>
      fst c \<notin> fst ` set h \<and> order_ok defs run (h @ [c]) cs)"

lemma sends_append [simp]: "sends (t @ u) = sends t @ sends u"
  by (induction t rule: sends.induct) auto

lemma sends_save: "list_all is_save t \<Longrightarrow> sends t = []"
  by (induction t rule: sends.induct) auto

lemma is_step_save: "list_all is_save t \<Longrightarrow> list_all (is_step_call vm) t"
  by (auto simp: list_all_iff elim!: is_save.elims(2))

lemma step_cmd_id_inject [simp]: "step_cmd_id run s a = step_cmd_id run s' a' \<longleftrightarrow> s = s' \<and> a = a'"
  using append_sep_inject [of s "CHR ''-''" "itoa (int a)" s' "itoa (int a')"]
  by (auto simp: step_cmd_id_def itoa_def nat_str_no_dash)

subsection \<open>Statuses and the commands sent so far\<close>

definition hist_ok :: "WorkflowStep list \<Rightarrow> TestRun \<Rightarrow> Workflow \<Rightarrow> goroutines \<Rightarrow> (string \<times> string option) list \<Rightarrow> bool" where
  "hist_ok defs run w gs h \<longleftrightarrow>
     (\<forall>s. StepStatusOf w s = Some StepStatusPassed \<longleftrightarrow> passed_in run h s) \<and>
     (\<forall>s a. step_cmd_id run s a \<in> fst ` set h \<longrightarrow>
        StepStatusOf w s \<notin> {Some StepStatusPending, Some StepStatusSkipped} \<and>
        (\<forall>d b. (d, b) \<in> set gs \<longrightarrow> ws_ID d = s \<longrightarrow> a < b))"

lemma hist_ok_launch:
  assumes ok: "gs_ok defs w gs" and r: "sid \<in> set (Ready w)" and "ws_ID d = sid"
    and h: "hist_ok defs run w gs h"
  shows "hist_ok defs run (mark_or_same w sid) (gs @ [(d, 0)]) h"
proof -
  have drv: "driven defs w" using ok by (simp add: gs_ok_def)
  have st: "StepStatusOf (mark_or_same w sid) s = (if s = sid then Some StepStatusRunning else StepStatusOf w s)" for s
    by (rule MarkRunning_status [OF mark_ready(1) [OF drv r]])
  have p: "StepStatusOf w sid = Some StepStatusPending" using r by (simp add: Ready_iff StepStatusOf_status_of)
  have h1: "StepStatusOf w s = Some StepStatusPassed \<longleftrightarrow> passed_in run h s" for s
    using h by (simp add: hist_ok_def)
  have h2: "step_cmd_id run s a \<in> fst ` set h \<Longrightarrow> StepStatusOf w s \<notin> {Some StepStatusPending, Some StepStatusSkipped} \<and>
      (\<forall>d b. (d, b) \<in> set gs \<longrightarrow> ws_ID d = s \<longrightarrow> a < b)" for s a
    using h unfolding hist_ok_def by blast
  have "StepStatusOf (mark_or_same w sid) s = Some StepStatusPassed \<longleftrightarrow> passed_in run h s" for s
    using h1 [of s] p st by auto
  moreover have "StepStatusOf (mark_or_same w sid) s \<notin> {Some StepStatusPending, Some StepStatusSkipped} \<and>
      (\<forall>d' b. (d', b) \<in> set (gs @ [(d, 0)]) \<longrightarrow> ws_ID d' = s \<longrightarrow> a < b)"
    if "step_cmd_id run s a \<in> fst ` set h" for s a
    using h2 [OF that] p st assms(3) by auto
  ultimately show ?thesis unfolding hist_ok_def by blast
qed

lemma hist_ok_launch_ready:
  assumes "gs_ok defs w gs" and "set sids \<subseteq> set (Ready w)" and "distinct sids"
    and "launch_ready w gs sids = (w', gs')" and "hist_ok defs run w gs h"
  shows "hist_ok defs run w' gs' h"
  using assms
proof (induction sids arbitrary: w gs)
  case (Cons sid sids)
  from Cons.prems have drv: "driven defs w" and r: "sid \<in> set (Ready w)" by (auto simp: gs_ok_def)
  obtain d where d: "StepDef w sid = Some d"
    using mark_ready(3) [OF drv r] driven_StepDef [OF drv] by auto
  note one = launch_one [OF Cons.prems(1) r d]
  have "set sids \<subseteq> set (Ready (mark_or_same w sid))"
    using Cons.prems(2,3) ready_after_mark [OF drv r] by auto
  moreover have "launch_ready (mark_or_same w sid) (gs @ [(d, 0)]) sids = (w', gs')"
    using Cons.prems(4) one d by (simp add: Let_def)
  moreover have "hist_ok defs run (mark_or_same w sid) (gs @ [(d, 0)]) h"
    using hist_ok_launch [OF Cons.prems(1) r] one Cons.prems(5) by blast
  ultimately show ?case using Cons.IH [of "mark_or_same w sid" "gs @ [(d, 0)]"] one Cons.prems(3) by auto
qed auto


lemma running_gs:
  assumes "gs_ok defs w gs" and "(d, a) \<in> set gs"
  shows "d \<in> set defs \<and> a \<le> max_attempts d \<and> StepStatusOf w (ws_ID d) = Some StepStatusRunning"
proof -
  have "ws_ID d \<in> set (gr_ids gs)" using assms(2) by force
  with assms show ?thesis by (auto simp: gs_ok_def)
qed

lemma gs_unique:
  assumes "gs_ok defs w gs" and "(d, a) \<in> set gs" and "(d', a') \<in> set gs" and "ws_ID d = ws_ID d'"
  shows "d = d' \<and> a = a'"
proof -
  have "inj_on (\<lambda>g. ws_ID (fst g)) (set gs)" using assms(1) by (simp add: gs_ok_def distinct_map)
  from inj_onD [OF this, of "(d, a)" "(d', a')"] assms(2-4) show ?thesis by simp
qed

lemma running_deps:
  assumes "driven defs w" and "d \<in> set defs" and "StepStatusOf w (ws_ID d) = Some StepStatusRunning"
    and "dep \<in> set (ws_DependsOn d)"
  shows "StepStatusOf w dep = Some StepStatusPassed"
proof -
  have "StepDef w (ws_ID d) = Some d" by (rule driven_StepDef [OF assms(1,2)])
  then have "deps_of (wf_steps w) (ws_ID d) = ws_DependsOn d" by (auto simp: StepDef_def deps_of_def)
  moreover have "status_ok (wf_steps w)" using driven_inv [OF assms(1)] by (simp add: drive_inv_def)
  ultimately show ?thesis using assms(3,4) unfolding status_ok_def StepStatusOf_status_of by (metis image_eqI insertI1)
qed

lemma send_head:
  assumes ok: "gs_ok defs w gs" and mem: "(d, a) \<in> set gs" and h: "hist_ok defs run w gs h"
  shows "order_ok defs run h ((step_cmd_id run (ws_ID d) a, st) # cs) \<longleftrightarrow>
    order_ok defs run (h @ [(step_cmd_id run (ws_ID d) a, st)]) cs"
proof -
  note r = running_gs [OF ok mem]
  have drv: "driven defs w" using ok by (simp add: gs_ok_def)
  have "list_all (passed_in run h) (ws_DependsOn d)"
    using running_deps [OF drv] r h by (auto simp: list_all_iff hist_ok_def)
  moreover have "step_cmd_id run (ws_ID d) a \<notin> fst ` set h"
    using h mem unfolding hist_ok_def by blast
  ultimately show ?thesis using r by auto
qed

lemma passed_in_snoc:
  "passed_in run (h @ [(step_cmd_id run s a, st)]) s' \<longleftrightarrow> passed_in run h s' \<or> s' = s \<and> st = Some ''passed''"
  by (auto simp: passed_in_def)

lemma hist_ok_retry:
  assumes ok: "gs_ok defs w gs" and i: "i < length gs" "gs ! i = (d, a)" and h: "hist_ok defs run w gs h"
    and st: "st \<noteq> Some ''passed''"
  shows "hist_ok defs run w (gs[i := (d, Suc a)]) (h @ [(step_cmd_id run (ws_ID d) a, st)])"
proof -
  have mem: "(d, a) \<in> set gs" using i nth_mem by metis
  note r = running_gs [OF ok mem]
  have new: "(d', b) \<in> set gs \<or> d' = d \<and> b = Suc a" if "(d', b) \<in> set (gs[i := (d, Suc a)])" for d' b
    using that set_update_subset_insert by fastforce
  have only: "a < b" if m: "(d', b) \<in> set (gs[i := (d, Suc a)])" and eq: "ws_ID d' = ws_ID d" for d' b
  proof -
    obtain j where "j < length (gs[i := (d, Suc a)])" and jb: "gs[i := (d, Suc a)] ! j = (d', b)"
      using m unfolding in_set_conv_nth by blast
    then have j: "j < length gs" by simp
    have "distinct (gr_ids gs)" using ok by (simp add: gs_ok_def)
    then have "j = i" if "ws_ID (fst (gs ! j)) = ws_ID (fst (gs ! i))"
      using that j i(1) nth_eq_iff_index_eq [of "gr_ids gs" j i] by simp
    with j jb i eq show ?thesis by (cases "j = i") auto
  qed
  have h2: "StepStatusOf w s \<notin> {Some StepStatusPending, Some StepStatusSkipped} \<and>
      (\<forall>d b. (d, b) \<in> set gs \<longrightarrow> ws_ID d = s \<longrightarrow> a < b)" if "step_cmd_id run s a \<in> fst ` set h" for s a
    using h that unfolding hist_ok_def by blast
  have "a' < b" if "step_cmd_id run s a' \<in> fst ` set h" "(d', b) \<in> set (gs[i := (d, Suc a)])" "ws_ID d' = s" for s a' d' b
    using h2 [OF that(1)] new [OF that(2)] that(3) mem less_SucI by blast
  moreover have "StepStatusOf w s = Some StepStatusPassed \<longleftrightarrow> passed_in run h s" for s using h by (simp add: hist_ok_def)
  ultimately show ?thesis using h2 st r only unfolding hist_ok_def passed_in_snoc by auto
qed

lemma hist_ok_finish:
  assumes ok: "gs_ok defs w gs" and i: "i < length gs" "gs ! i = (d, a)" and h: "hist_ok defs run w gs h"
    and x: "x = StepStatusPassed \<or> x = StepStatusFailed" and st: "x = StepStatusPassed \<longleftrightarrow> st = Some ''passed''"
  shows "hist_ok defs run (advance_or_same w (ws_ID d) x) (take i gs @ drop (Suc i) gs)
    (h @ [(step_cmd_id run (ws_ID d) a, st)])"
proof -
  let ?w = "advance_or_same w (ws_ID d) x"
  have mem: "(d, a) \<in> set gs" using i nth_mem by metis
  note r = running_gs [OF ok mem]
  have adv: "Advance w (ws_ID d) x = Ok ?w"
    using r by (auto simp: advance_or_same_def Advance_def StepStatusOf_def Let_def split: option.splits)
  have st_d: "StepStatusOf ?w (ws_ID d) = Some x"
    and st_other: "\<And>s. s \<noteq> ws_ID d \<Longrightarrow> StepStatusOf ?w s = StepStatusOf w s \<or>
      StepStatusOf w s = Some StepStatusPending \<and> StepStatusOf ?w s = Some StepStatusSkipped"
    using Advance_status [OF adv] x by auto
  have dist: "distinct (gr_ids gs)" using ok by (simp add: gs_ok_def)
  have split: "gs = take i gs @ (d, a) # drop (Suc i) gs" using id_take_nth_drop [OF i(1)] i(2) by simp
  have gone: "ws_ID d \<notin> set (gr_ids (take i gs @ drop (Suc i) gs))"
    using without_nth [OF dist split] by auto
  have sub: "set (take i gs @ drop (Suc i) gs) \<subseteq> set gs" by (auto dest: in_set_takeD in_set_dropD)
  have h1: "StepStatusOf w s = Some StepStatusPassed \<longleftrightarrow> passed_in run h s" for s
    using h by (simp add: hist_ok_def)
  have h2: "StepStatusOf w s \<notin> {Some StepStatusPending, Some StepStatusSkipped} \<and>
      (\<forall>d b. (d, b) \<in> set gs \<longrightarrow> ws_ID d = s \<longrightarrow> a < b)" if "step_cmd_id run s a \<in> fst ` set h" for s a
    using h that unfolding hist_ok_def by blast
  have "StepStatusOf ?w s = Some StepStatusPassed \<longleftrightarrow> passed_in run (h @ [(step_cmd_id run (ws_ID d) a, st)]) s" for s
    using h1 [of s] st_d st_other [of s] r st by (cases "s = ws_ID d") (auto simp: passed_in_snoc)
  moreover have "StepStatusOf ?w s \<notin> {Some StepStatusPending, Some StepStatusSkipped} \<and>
      (\<forall>d b. (d, b) \<in> set (take i gs @ drop (Suc i) gs) \<longrightarrow> ws_ID d = s \<longrightarrow> a' < b)"
    if "step_cmd_id run s a' \<in> fst ` set (h @ [(step_cmd_id run (ws_ID d) a, st)])" for s a'
  proof (cases "s = ws_ID d")
    case True
    then show ?thesis using st_d x gone by force
  next
    case False
    with that have "step_cmd_id run s a' \<in> fst ` set h" by auto
    from h2 [OF this] st_other [OF False] sub show ?thesis by auto
  qed
  ultimately show ?thesis unfolding hist_ok_def by blast
qed


subsection \<open>The loop\<close>

definition loop_result :: "string \<Rightarrow> WorkflowStep list \<Rightarrow> TestRun \<Rightarrow> nat \<Rightarrow> (string \<times> string option) list \<Rightarrow> wf_outcome \<Rightarrow> call list \<Rightarrow> bool" where
  "loop_result vm defs run n h out t \<longleftrightarrow> out \<noteq> WfStuck \<and> list_all (is_step_call vm) t \<and>
     order_ok defs run h (sends t) \<and> length (sends t) \<le> n \<and>
     (\<forall>w. out = WfDone w \<longrightarrow> driven defs w \<and> IsDone w \<and>
        (\<forall>s. StepStatusOf w s = Some StepStatusPassed \<longleftrightarrow> passed_in run (h @ sends t) s))"

lemma wf_enter_cases:
  assumes ok: "gs_ok defs w gs" and h: "hist_ok defs run w gs h"
  shows "case wf_enter w gs of
      Inl w' \<Rightarrow> w' = w \<and> IsDone w
    | Inr (w', gs') \<Rightarrow> gs_ok defs w' gs' \<and> gs' \<noteq> [] \<and> hist_ok defs run w' gs' h \<and>
        attempts_left defs w' gs' = attempts_left defs w gs"
proof (cases "wf_enter w gs")
  case (Inl w')
  then show ?thesis by (auto simp: wf_enter_def split: if_splits)
next
  case (Inr p)
  obtain w' gs' where p: "p = (w', gs')" by fastforce
  have l: "launch_ready w gs (Ready w) = (w', gs')" using Inr p by (auto simp: wf_enter_def split: if_splits)
  have "distinct (Ready w)" using wf_inv_order [of w] driven_inv [of defs w] ok
    by (auto simp: Ready_def ready_from_filter drive_inv_def gs_ok_def)
  with hist_ok_launch_ready [OF ok _ _ l h] wf_enter_ok [OF ok] Inr p show ?thesis by auto
qed

lemma attempt_trace_sends:
  assumes "attempt_trace run vm d a out t"
  obtains st where "sends t = [(step_cmd_id run (ws_ID d) a, st)]" and "list_all (is_step_call vm) t"
    and "out = AttemptDone StepStatusPassed \<longleftrightarrow> st = Some ''passed''"
  using assms by (auto simp: attempt_trace_def sends_save is_step_save)

lemma wf_select_emits:
  assumes v: "vishwa_ok (run_TestSuiteID run)"
  shows "gs_ok defs w gs \<Longrightarrow> gs \<noteq> [] \<Longrightarrow> hist_ok defs run w gs h \<Longrightarrow> attempts_left defs w gs \<le> n \<Longrightarrow>
    emits (wf_select n e ac ctx run device vm w gs) (loop_result vm defs run n h)"
proof (induction n arbitrary: w gs h)
  case 0
  then obtain d a where g: "(d, a) \<in> set gs" by (cases gs) auto
  have "Suc (max_attempts d) - a \<le> attempts_left defs w gs"
    unfolding attempts_left_def by (intro trans_le_add2 member_le_sum_list) (use g in \<open>force+\<close>)
  with running_gs [OF 0(1) g] 0(4) show ?case by simp
next
  case (Suc n)
  have body: "emits (run_attempt e ac ctx run device vm d a) (\<lambda>out t.
      emits (case out of AttemptCrash \<Rightarrow> ret WfStuck
        | AttemptRetry \<Rightarrow> wf_select n e ac ctx run device vm w (gs[i := (d, Suc a)])
        | AttemptDone st \<Rightarrow> (case wf_enter (advance_or_same w (ws_ID d) st) (take i gs @ drop (Suc i) gs) of
             Inl w' \<Rightarrow> ret (WfDone w') | Inr (w', gs') \<Rightarrow> wf_select n e ac ctx run device vm w' gs'))
        (\<lambda>y u. loop_result vm defs run (Suc n) h y (t @ u)))"
    if i: "i < length gs" "gs ! i = (d, a)" for i d a
  proof (rule emits_conseq [OF emits_attempt [OF v]])
    fix out t
    assume t: "attempt_trace run vm d a out t"
    from t obtain st where s: "sends t = [(step_cmd_id run (ws_ID d) a, st)]" "list_all (is_step_call vm) t"
      "out = AttemptDone StepStatusPassed \<longleftrightarrow> st = Some ''passed''" by (rule attempt_trace_sends)
    let ?h = "h @ [(step_cmd_id run (ws_ID d) a, st)]"
    have mem: "(d, a) \<in> set gs" using i nth_mem by metis
    have lift: "loop_result vm defs run n ?h y u \<Longrightarrow> loop_result vm defs run (Suc n) h y (t @ u)" for y u
      using send_head [OF Suc.prems(1) mem Suc.prems(3)] s by (auto simp: loop_result_def)
    show "emits (case out of AttemptCrash \<Rightarrow> ret WfStuck
        | AttemptRetry \<Rightarrow> wf_select n e ac ctx run device vm w (gs[i := (d, Suc a)])
        | AttemptDone st \<Rightarrow> (case wf_enter (advance_or_same w (ws_ID d) st) (take i gs @ drop (Suc i) gs) of
             Inl w' \<Rightarrow> ret (WfDone w') | Inr (w', gs') \<Rightarrow> wf_select n e ac ctx run device vm w' gs'))
        (\<lambda>y u. loop_result vm defs run (Suc n) h y (t @ u))"
    proof (cases out)
      case AttemptRetry
      then have "a < max_attempts d" using t by (auto simp: attempt_trace_def)
      note r = retry_ok [OF Suc.prems(1) i this]
      have "hist_ok defs run w (gs[i := (d, Suc a)]) ?h"
        using hist_ok_retry [OF Suc.prems(1) i Suc.prems(3)] s(3) AttemptRetry by simp
      then have "emits (wf_select n e ac ctx run device vm w (gs[i := (d, Suc a)])) (loop_result vm defs run n ?h)"
        using r Suc.prems(2,4) by (intro Suc.IH) auto
      from emits_conseq [OF this lift] AttemptRetry show ?thesis by simp
    next
      case (AttemptDone x)
      then have x: "x = StepStatusPassed \<or> x = StepStatusFailed" using t by (auto simp: attempt_trace_def)
      let ?w = "advance_or_same w (ws_ID d) x" and ?gs = "take i gs @ drop (Suc i) gs"
      have f: "gs_ok defs ?w ?gs" "attempts_left defs ?w ?gs < attempts_left defs w gs"
        using finish_one [OF Suc.prems(1) i x] by auto
      have hh: "hist_ok defs run ?w ?gs ?h"
        using hist_ok_finish [OF Suc.prems(1) i Suc.prems(3) x] s(3) AttemptDone by simp
      note en = wf_enter_cases [OF f(1) hh]
      show ?thesis
      proof (cases "wf_enter ?w ?gs")
        case (Inl w')
        then have "loop_result vm defs run n ?h (WfDone w') []"
          using en f(1) hh by (auto simp: loop_result_def gs_ok_def hist_ok_def)
        from lift [OF this] Inl AttemptDone show ?thesis by (simp add: emits_ret)
      next
        case (Inr p)
        obtain w' gs' where p: "p = (w', gs')" by fastforce
        with Inr en f(2) Suc.prems(4) have "emits (wf_select n e ac ctx run device vm w' gs') (loop_result vm defs run n ?h)"
          by (intro Suc.IH) auto
        from emits_conseq [OF this lift] Inr p AttemptDone show ?thesis by simp
      qed
    qed (use t in \<open>auto simp: attempt_trace_def\<close>)
  qed
  show ?case
    unfolding wf_select.simps
  proof (rule emits_bindI, rule emits_ask)
    fix c
    show "emits (case c of Inl err \<Rightarrow> ret (WfErr err)
        | Inr k \<Rightarrow> if gs = [] then ret WfStuck
            else let i = k mod length gs; (d, attempt) = gs ! i in
              do {
                out \<leftarrow> run_attempt e ac ctx run device vm d attempt;
                (case out of
                   AttemptCrash \<Rightarrow> ret WfStuck
                 | AttemptRetry \<Rightarrow> wf_select n e ac ctx run device vm w (gs[i := (d, Suc attempt)])
                 | AttemptDone st \<Rightarrow>
                     (case wf_enter (advance_or_same w (ws_ID d) st) (take i gs @ drop (Suc i) gs) of
                        Inl w' \<Rightarrow> ret (WfDone w')
                      | Inr (w', gs') \<Rightarrow> wf_select n e ac ctx run device vm w' gs'))
              }) (\<lambda>y u. loop_result vm defs run (Suc n) h y ([] @ u))"
    proof (cases c)
      case (Inl err)
      then show ?thesis by (auto intro!: emits_ret simp: loop_result_def)
    next
      case (Inr k)
      obtain d a where g: "gs ! (k mod length gs) = (d, a)" by fastforce
      have "k mod length gs < length gs" using Suc.prems(2) by simp
      from body [OF this g] Inr g Suc.prems(2) show ?thesis by (simp add: Let_def emits_bindI)
    qed
  qed
qed

lemma visits_range_orders: "visits (range_orders (map ws_ID defs) f) defs"
  by (simp add: visits_def range_orders_def)

lemma wf_verdict_Inr:
  assumes "driven defs w" and "IsDone w"
  shows "wf_verdict w = Inr () \<longleftrightarrow> (\<forall>d \<in> set defs. StepStatusOf w (ws_ID d) = Some StepStatusPassed)"
proof -
  obtain p f k where s: "Summary w = (p, f, k)" using prod_cases3 by blast
  from summary_done [OF assms s] s show ?thesis by (auto simp: wf_verdict_def)
qed

lemma new_gs_ok:
  assumes "NewWorkflow wid rid defs (range_orders (map ws_ID defs) f) = Ok w"
  shows "gs_ok defs w [] \<and> hist_ok defs run w [] [] \<and> attempts_left defs w [] = wf_fuel defs"
proof -
  have drv: "driven defs w" using driven.start [OF visits_range_orders assms] .
  from NewWorkflow_Ok [OF visits_range_orders assms] have st: "wf_steps w = indexed defs"
    and dist: "distinct (map ws_ID defs)" by (auto simp: valid_defs_def)
  have pend: "StepStatusOf w s = (if s \<in> ws_ID ` set defs then Some StepStatusPending else None)" for s
  proof (cases "s \<in> ws_ID ` set defs")
    case True
    then show ?thesis using st dist by (auto simp: StepStatusOf_def map_of_indexed)
  next
    case False
    then have "map_of (indexed defs) s = None" using dom_indexed [of defs] by blast
    then show ?thesis using st False by (simp add: StepStatusOf_def)
  qed
  then have "pending_defs defs w = defs" by (simp add: pending_defs_def filter_id_conv)
  then show ?thesis using drv pend by (auto simp: gs_ok_def hist_ok_def attempts_left_def passed_in_def split: if_splits)
qed

lemma NewWorkflow_no_Panic: "NewWorkflow wid rid defs (range_orders (map ws_ID defs) f) \<noteq> Panic p"
  using NewWorkflow_valid [OF _ visits_range_orders, of defs wid rid f]
    NewWorkflow_invalid [OF _ visits_range_orders, of defs wid rid f]
  by (cases "valid_defs defs") auto

definition wf_report :: "string \<Rightarrow> TestRun \<Rightarrow> TestSuite \<Rightarrow> (error + unit) option \<Rightarrow> call list \<Rightarrow> bool" where
  "wf_report vm run suite r t \<longleftrightarrow> r \<noteq> None \<and> list_all (is_step_call vm) t \<and>
     order_ok (suite_Steps suite) run [] (sends t) \<and> length (sends t) \<le> wf_fuel (suite_Steps suite) \<and>
     (r = Some (Inr ()) \<longrightarrow> (\<forall>d \<in> set (suite_Steps suite). passed_in run (sends t) (ws_ID d)))"

lemma loop_result_report:
  assumes "loop_result vm (suite_Steps suite) run (wf_fuel (suite_Steps suite)) [] out t"
  shows "wf_report vm run suite (case out of WfStuck \<Rightarrow> None | WfErr err \<Rightarrow> Some (Inl err) | WfDone w \<Rightarrow> Some (wf_verdict w)) t"
  using assms wf_verdict_Inr [of "suite_Steps suite"] by (auto simp: loop_result_def wf_report_def split: wf_outcome.splits)

lemma emits_runWorkflow:
  assumes v: "vishwa_ok (run_TestSuiteID run)"
  shows "emits (runWorkflow e ac ctx run device vm suite) (wf_report vm run suite)"
proof -
  let ?defs = "suite_Steps suite"
  have "emits (case NewWorkflow (suite_ID suite) (run_ID run) ?defs (range_orders (map ws_ID ?defs) f) of
          Err err \<Rightarrow> ret (Some (Inl (EWrap ''failed to create workflow'' err)))
        | Panic p \<Rightarrow> ret None
        | Ok w \<Rightarrow> (case wf_enter w [] of
               Inl w' \<Rightarrow> ret (Some (wf_verdict w'))
             | Inr (w1, gs) \<Rightarrow> do {
                   out \<leftarrow> wf_select (wf_fuel ?defs) e ac ctx run device vm w1 gs;
                   ret (case out of WfStuck \<Rightarrow> None | WfErr err \<Rightarrow> Some (Inl err) | WfDone w' \<Rightarrow> Some (wf_verdict w')) }))
      (wf_report vm run suite)" for f
  proof (cases "NewWorkflow (suite_ID suite) (run_ID run) ?defs (range_orders (map ws_ID ?defs) f)")
    case (Ok w)
    note new = new_gs_ok [OF Ok, of run]
    note en = wf_enter_cases [OF conjunct1 [OF new] conjunct1 [OF conjunct2 [OF new]]]
    show ?thesis
    proof (cases "wf_enter w []")
      case (Inl w')
      with en new have "loop_result vm ?defs run (wf_fuel ?defs) [] (WfDone w) []"
        by (auto simp: loop_result_def gs_ok_def hist_ok_def)
      from loop_result_report [OF this] Inl en Ok show ?thesis by (simp add: emits_ret)
    next
      case (Inr p)
      obtain w' gs where p: "p = (w', gs)" by fastforce
      with Inr en new have "emits (wf_select (wf_fuel ?defs) e ac ctx run device vm w' gs) (loop_result vm ?defs run (wf_fuel ?defs) [])"
        by (intro wf_select_emits [OF v]) auto
      then have "emits (do {
          out \<leftarrow> wf_select (wf_fuel ?defs) e ac ctx run device vm w' gs;
          ret (case out of WfStuck \<Rightarrow> None | WfErr err \<Rightarrow> Some (Inl err) | WfDone w' \<Rightarrow> Some (wf_verdict w')) })
        (wf_report vm run suite)"
        by (rule emits_bind) (auto intro!: emits_ret dest: loop_result_report)
      then show ?thesis using Inr p Ok by simp
    qed
  qed (auto intro!: emits_ret simp: wf_report_def NewWorkflow_no_Panic)
  then show ?thesis unfolding runWorkflow_def by (intro emits_bindI emits_ask) simp
qed

subsection \<open>Properties\<close>

text \<open>A suite of two steps, the second one depending on the first, which may be retried once.\<close>

definition example_suite :: TestSuite where
  "example_suite = \<lparr>suite_ID = ''s'', suite_Name = '''', suite_DeviceID = '''', suite_Category = '''',
     suite_Description = '''', suite_BinaryPath = '''',
     suite_Steps = [\<lparr>ws_ID = ''b'', ws_TestBinary = ''tb'', ws_Args = [], ws_DependsOn = [''a''], ws_RetryMax = 0, ws_TimeoutSec = 5\<rparr>,
                    \<lparr>ws_ID = ''a'', ws_TestBinary = ''ta'', ws_Args = [], ws_DependsOn = [], ws_RetryMax = 1, ws_TimeoutSec = 5\<rparr>],
     suite_Timeout = 0, suite_Tags = []\<rparr>"

abbreviation dvf_run :: TestRun where
  "dvf_run \<equiv> vishwa_run\<lparr>run_TestSuiteID := ''s''\<rparr>"

text \<open>The agent fails the first attempt of \<open>a\<close> and passes everything else.\<close>

definition flaky :: "string \<Rightarrow> error + AgentResult" where
  "flaky i = Inr (answer (if i = ''cmd-step-r1-a-0'' then ''failed'' else ''passed'') '''')"

abbreviation flaky_run :: "(unit, (error + unit) option) act" where
  "flaky_run \<equiv> runWorkflow (scripted_engine flaky) (scripted_agent flaky) CtxEngine dvf_run example_device ''vm-1'' example_suite"

lemma flaky_run_log:
  "fst (run_log flaky_run ()) = Some (Inr ()) \<and>
   sends (snd (run_log flaky_run ())) =
     [(''cmd-step-r1-a-0'', Some ''failed''), (''cmd-step-r1-a-1'', Some ''passed''), (''cmd-step-r1-b-0'', Some ''passed'')]"
  by code_simp

text \<open>
  C7: \<open>runWorkflow\<close> returns. Whatever the agent, the store and the scheduling of the step
  goroutines do, the loop ends within the attempts that the steps and their retries allow; it never
  blocks with nothing running and never sends more commands than that.
\<close>

theorem runWorkflow_returns:
  assumes "vishwa_ok (run_TestSuiteID run)"
  shows "emits (runWorkflow e ac ctx run device vmID suite)
    (\<lambda>r t. r \<noteq> None \<and> length (sends t) \<le> (\<Sum>d \<leftarrow> suite_Steps suite. 1 + nat (ws_RetryMax d)))"
  by (rule emits_conseq [OF emits_runWorkflow [OF assms]])
    (auto simp: wf_report_def wf_fuel_def max_attempts_def comp_def)

theorem runWorkflow_returns_witness:
  "vishwa_ok ''s'' \<and> fst (run_log flaky_run ()) = Some (Inr ()) \<and> length (sends (snd (run_log flaky_run ()))) = 3 \<and>
   length (sends (snd (run_log flaky_run ()))) \<le> (\<Sum>d \<leftarrow> suite_Steps example_suite. 1 + nat (ws_RetryMax d))"
proof -
  have v: "vishwa_ok (run_TestSuiteID dvf_run)" by (simp add: vishwa_ok_def isVishwaSuite_def)
  have "fst (run_log flaky_run ()) \<noteq> None \<and>
      length (sends (snd (run_log flaky_run ()))) \<le> (\<Sum>d \<leftarrow> suite_Steps example_suite. 1 + nat (ws_RetryMax d))"
    by (rule emits_log [OF runWorkflow_returns [OF v] surjective_pairing])
  moreover have "vishwa_ok ''s''" using v by simp
  ultimately show ?thesis using flaky_run_log by simp
qed

text \<open>
  C4: the order of the commands. Every command \<open>runWorkflow\<close> sends is an attempt of a step of the
  suite within its retry limit, is sent only after all steps it depends on were answered
  \<open>passed\<close>, and is sent once; besides commands the loop only saves results. It returns
  without error only when every step of the suite was answered \<open>passed\<close>.
\<close>

theorem runWorkflow_order:
  assumes "vishwa_ok (run_TestSuiteID run)"
  shows "emits (runWorkflow e ac ctx run device vmID suite)
    (\<lambda>r t. list_all (is_step_call vmID) t \<and> order_ok (suite_Steps suite) run [] (sends t) \<and>
       (r = Some (Inr ()) \<longrightarrow> list_all (\<lambda>d. passed_in run (sends t) (ws_ID d)) (suite_Steps suite)))"
  by (rule emits_conseq [OF emits_runWorkflow [OF assms]]) (auto simp: wf_report_def list_all_iff)

theorem runWorkflow_order_witness:
  "vishwa_ok ''s'' \<and> sends (snd (run_log flaky_run ())) =
     [(''cmd-step-r1-a-0'', Some ''failed''), (''cmd-step-r1-a-1'', Some ''passed''), (''cmd-step-r1-b-0'', Some ''passed'')] \<and>
   order_ok (suite_Steps example_suite) dvf_run [] (sends (snd (run_log flaky_run ()))) \<and>
   list_all (\<lambda>d. passed_in dvf_run (sends (snd (run_log flaky_run ()))) (ws_ID d)) (suite_Steps example_suite)"
proof -
  have v: "vishwa_ok (run_TestSuiteID dvf_run)" by (simp add: vishwa_ok_def isVishwaSuite_def)
  have "list_all (is_step_call ''vm-1'') (snd (run_log flaky_run ())) \<and>
      order_ok (suite_Steps example_suite) dvf_run [] (sends (snd (run_log flaky_run ()))) \<and>
      (fst (run_log flaky_run ()) = Some (Inr ()) \<longrightarrow>
       list_all (\<lambda>d. passed_in dvf_run (sends (snd (run_log flaky_run ()))) (ws_ID d)) (suite_Steps example_suite))"
    by (rule emits_log [OF runWorkflow_order [OF v] surjective_pairing])
  moreover have "vishwa_ok ''s''" using v by simp
  ultimately show ?thesis using flaky_run_log by blast
qed

end
