(* ===== verification/Scheduler.thy ===== *)
theory Scheduler
  imports Core_Types
begin

text \<open>
  The run queue, \<open>internal/core/scheduler.go\<close>. The channel \<open>notify\<close> has capacity one, so
  its state is whether it holds a token and whether it is closed. A call that blocks, returns
  nil or returns a run is a value of \<open>next_outcome\<close>; a send on a closed channel is a panic.

  The operations take the mutex once, and the signal is sent after it is released. The machine
  \<open>sched_step\<close> interleaves these two halves of any number of \<open>Enqueue\<close> and
  \<open>Release\<close> calls with the engine's single worker in \<open>Next\<close> and with \<open>Close\<close>;
  \<open>sched_inv\<close> is its invariant, of which the absence of lost wake-ups is the main part.

  The locale \<open>slot_queue\<close> is the contract the engine relies on: a FIFO queue whose
  entries are handed out only while a slot is free.
\<close>

subsection \<open>State and operations\<close>

record Scheduler =
  sch_maxConcurrent :: int
  sch_activeCount :: int
  sch_queue :: "TestRun list"
  sch_token :: bool
  sch_closed :: bool

definition NewScheduler :: "int \<Rightarrow> Scheduler" where
  "NewScheduler maxConcurrent =
     \<lparr>sch_maxConcurrent = (if maxConcurrent \<le> 0 then 1 else maxConcurrent), sch_activeCount = 0,
      sch_queue = [], sch_token = False, sch_closed = False\<rparr>"

text \<open>The non-blocking send: the token is dropped when the buffer is full.\<close>

definition signal :: "Scheduler \<Rightarrow> Scheduler res" where
  "signal s = (if sch_closed s then Panic ''send on closed channel'' else Ok (s\<lparr>sch_token := True\<rparr>))"

definition enqueue_cs :: "Scheduler \<Rightarrow> TestRun \<Rightarrow> Scheduler" where
  "enqueue_cs s run = s\<lparr>sch_queue := sch_queue s @ [run]\<rparr>"

text \<open>\<open>Enqueue\<close> keeps the appended run even when the send panics.\<close>

definition Enqueue :: "Scheduler \<Rightarrow> TestRun \<Rightarrow> Scheduler \<times> unit res" where
  "Enqueue s run =
     (let s1 = enqueue_cs s run
      in case signal s1 of Ok s2 \<Rightarrow> (s2, Ok ()) | Err e \<Rightarrow> (s1, Err e) | Panic p \<Rightarrow> (s1, Panic p))"

text \<open>The critical section that \<open>Next\<close> and \<open>TryNext\<close> share.\<close>

definition take_cs :: "Scheduler \<Rightarrow> TestRun option \<times> Scheduler" where
  "take_cs s =
     (case sch_queue s of
        run # rest \<Rightarrow>
          if sch_activeCount s < sch_maxConcurrent s
          then (Some run, s\<lparr>sch_queue := rest, sch_activeCount := sch_activeCount s + 1\<rparr>)
          else (None, s)
      | [] \<Rightarrow> (None, s))"

datatype next_outcome = NextRun TestRun Scheduler | NextNil Scheduler | NextBlocked Scheduler

function Next :: "Scheduler \<Rightarrow> next_outcome" where
  "Next s =
     (case take_cs s of
        (Some run, s') \<Rightarrow> NextRun run s'
      | (None, s') \<Rightarrow>
          if sch_token s' then Next (s'\<lparr>sch_token := False\<rparr>)
          else if sch_closed s' then NextNil s'
          else NextBlocked s')"
  by pat_completeness auto
termination
  by (relation "measure (\<lambda>s. if sch_token s then 1 else 0)")
     (auto simp: take_cs_def split: list.splits if_splits)

definition TryNext :: "Scheduler \<Rightarrow> TestRun option \<times> Scheduler" where
  "TryNext s = take_cs s"

definition release_cs :: "Scheduler \<Rightarrow> Scheduler" where
  "release_cs s = (if sch_activeCount s > 0 then s\<lparr>sch_activeCount := sch_activeCount s - 1\<rparr> else s)"

text \<open>\<open>Release\<close> recovers from the panic of its signal.\<close>

definition Release :: "Scheduler \<Rightarrow> Scheduler" where
  "Release s = (let s1 = release_cs s in case signal s1 of Ok s2 \<Rightarrow> s2 | _ \<Rightarrow> s1)"

definition QueueLen :: "Scheduler \<Rightarrow> int" where
  "QueueLen s = int (length (sch_queue s))"

definition ActiveCount :: "Scheduler \<Rightarrow> int" where
  "ActiveCount s = sch_activeCount s"

definition Close :: "Scheduler \<Rightarrow> Scheduler res" where
  "Close s = (if sch_closed s then Panic ''close of closed channel'' else Ok (s\<lparr>sch_closed := True\<rparr>))"

definition sched_wf :: "Scheduler \<Rightarrow> bool" where
  "sched_wf s \<longleftrightarrow> 0 < sch_maxConcurrent s \<and> 0 \<le> sch_activeCount s \<and> sch_activeCount s \<le> sch_maxConcurrent s"

subsection \<open>Concurrent callers\<close>

text \<open>
  The machine's state: the scheduler, how many callers of \<open>Enqueue\<close> and of \<open>Release\<close>
  stand between their critical section and their signal, where the worker is, the runs handed
  out and not yet released, and the history of what was enqueued and what was started.
\<close>

datatype worker_pc = WChecking | WWaiting | WStopped

record sched_world =
  sw_sched :: Scheduler
  sw_enq :: nat
  sw_rel :: nat
  sw_pc :: worker_pc
  sw_busy :: nat
  sw_enqueued :: "TestRun list"
  sw_started :: "TestRun list"
  sw_crashed :: bool

datatype sched_act =
    ActEnqueue TestRun
  | ActEnqueueSignal
  | ActRelease
  | ActReleaseSignal
  | ActCheck
  | ActReceive
  | ActClose

fun sched_step :: "sched_world \<Rightarrow> sched_act \<Rightarrow> sched_world option" where
  "sched_step w (ActEnqueue run) =
     Some (w\<lparr>sw_sched := enqueue_cs (sw_sched w) run, sw_enq := Suc (sw_enq w),
             sw_enqueued := sw_enqueued w @ [run]\<rparr>)"
| "sched_step w ActEnqueueSignal =
     (if sw_enq w = 0 then None
      else case signal (sw_sched w) of
             Ok s \<Rightarrow> Some (w\<lparr>sw_sched := s, sw_enq := sw_enq w - 1\<rparr>)
           | _ \<Rightarrow> Some (w\<lparr>sw_crashed := True, sw_enq := sw_enq w - 1\<rparr>))"
| "sched_step w ActRelease =
     (if sw_busy w = 0 then None
      else Some (w\<lparr>sw_sched := release_cs (sw_sched w), sw_busy := sw_busy w - 1, sw_rel := Suc (sw_rel w)\<rparr>))"
| "sched_step w ActReleaseSignal =
     (if sw_rel w = 0 then None
      else case signal (sw_sched w) of
             Ok s \<Rightarrow> Some (w\<lparr>sw_sched := s, sw_rel := sw_rel w - 1\<rparr>)
           | _ \<Rightarrow> Some (w\<lparr>sw_rel := sw_rel w - 1\<rparr>))"
| "sched_step w ActCheck =
     (if sw_pc w \<noteq> WChecking then None
      else case take_cs (sw_sched w) of
             (Some run, s) \<Rightarrow> Some (w\<lparr>sw_sched := s, sw_busy := Suc (sw_busy w),
                                      sw_started := sw_started w @ [run]\<rparr>)
           | (None, s) \<Rightarrow> Some (w\<lparr>sw_sched := s, sw_pc := WWaiting\<rparr>))"
| "sched_step w ActReceive =
     (if sw_pc w \<noteq> WWaiting then None
      else if sch_token (sw_sched w)
        then Some (w\<lparr>sw_sched := (sw_sched w)\<lparr>sch_token := False\<rparr>, sw_pc := WChecking\<rparr>)
      else if sch_closed (sw_sched w) then Some (w\<lparr>sw_pc := WStopped\<rparr>)
      else None)"
| "sched_step w ActClose =
     (case Close (sw_sched w) of Ok s \<Rightarrow> Some (w\<lparr>sw_sched := s\<rparr>) | _ \<Rightarrow> Some (w\<lparr>sw_crashed := True\<rparr>))"

definition sched_start :: "int \<Rightarrow> sched_world" where
  "sched_start n = \<lparr>sw_sched = NewScheduler n, sw_enq = 0, sw_rel = 0, sw_pc = WChecking, sw_busy = 0,
     sw_enqueued = [], sw_started = [], sw_crashed = False\<rparr>"

inductive sched_reach :: "int \<Rightarrow> sched_world \<Rightarrow> bool" for n where
  init: "sched_reach n (sched_start n)"
| act: "sched_reach n w \<Longrightarrow> sched_step w a = Some w' \<Longrightarrow> sched_reach n w'"

fun sched_acts :: "sched_world \<Rightarrow> sched_act list \<Rightarrow> sched_world option" where
  "sched_acts w [] = Some w"
| "sched_acts w (a # as) = (case sched_step w a of None \<Rightarrow> None | Some w' \<Rightarrow> sched_acts w' as)"

definition work_waits :: "Scheduler \<Rightarrow> bool" where
  "work_waits s \<longleftrightarrow> sch_queue s \<noteq> [] \<and> sch_activeCount s < sch_maxConcurrent s"

definition sched_inv :: "sched_world \<Rightarrow> bool" where
  "sched_inv w \<longleftrightarrow> sched_wf (sw_sched w) \<and> sch_activeCount (sw_sched w) = int (sw_busy w) \<and>
     sw_enqueued w = sw_started w @ sch_queue (sw_sched w) \<and>
     (sw_pc w = WWaiting \<and> work_waits (sw_sched w) \<and> \<not> sch_closed (sw_sched w) \<longrightarrow>
        sch_token (sw_sched w) \<or> 0 < sw_enq w \<or> 0 < sw_rel w) \<and>
     (sw_pc w = WStopped \<longrightarrow> sch_closed (sw_sched w))"

subsection \<open>The contract\<close>

locale slot_queue =
  fixes inv :: "'s \<Rightarrow> bool" and put :: "'s \<Rightarrow> 'r \<Rightarrow> 's" and take_one :: "'s \<Rightarrow> 'r option \<times> 's"
    and free :: "'s \<Rightarrow> 's" and waiting :: "'s \<Rightarrow> 'r list" and active :: "'s \<Rightarrow> int" and slots :: "'s \<Rightarrow> int"
  assumes put_law: "inv s \<Longrightarrow> inv (put s r) \<and> waiting (put s r) = waiting s @ [r] \<and>
      active (put s r) = active s \<and> slots (put s r) = slots s"
    and free_law: "inv s \<Longrightarrow> inv (free s) \<and> waiting (free s) = waiting s \<and>
      active (free s) = max 0 (active s - 1) \<and> slots (free s) = slots s"
    and take_none: "inv s \<Longrightarrow> take_one s = (None, s') \<Longrightarrow> s' = s \<and> (waiting s = [] \<or> active s = slots s)"
    and take_some: "inv s \<Longrightarrow> take_one s = (Some r, s') \<Longrightarrow> inv s' \<and> waiting s = r # waiting s' \<and>
      active s' = active s + 1 \<and> slots s' = slots s \<and> active s < slots s"
    and inv_bounds: "inv s \<Longrightarrow> 0 \<le> active s \<and> active s \<le> slots s"
begin

text \<open>A client's history: put (\<open>Inl r\<close>), take (\<open>Inr True\<close>), free (\<open>Inr False\<close>).
  \<open>play\<close> also collects the entries handed out.\<close>

fun play :: "'s \<times> 'r list \<Rightarrow> ('r + bool) list \<Rightarrow> 's \<times> 'r list" where
  "play st [] = st"
| "play (s, out) (Inl r # ops) = play (put s r, out) ops"
| "play (s, out) (Inr True # ops) =
     (case take_one s of (None, s') \<Rightarrow> play (s', out) ops | (Some r, s') \<Rightarrow> play (s', out @ [r]) ops)"
| "play (s, out) (Inr False # ops) = play (free s, out) ops"

fun puts :: "('r + bool) list \<Rightarrow> 'r list" where
  "puts [] = []"
| "puts (Inl r # ops) = r # puts ops"
| "puts (Inr _ # ops) = puts ops"

lemma play_fifo:
  "inv s \<Longrightarrow> play (s, out) ops = (s', out') \<Longrightarrow>
    inv s' \<and> out' @ waiting s' = out @ waiting s @ puts ops \<and> slots s' = slots s"
proof (induction "(s, out)" ops arbitrary: s out rule: play.induct)
  case (3 s out ops)
  show ?case
  proof (cases "take_one s")
    case (Pair opt s1)
    show ?thesis
    proof (cases opt)
      case None
      with 3 Pair take_none [of s s1] show ?thesis by simp
    next
      case (Some r)
      with Pair have t: "take_one s = (Some r, s1)" by simp
      from take_some [OF "3.prems"(1) t] 3 Pair Some show ?thesis by simp
    qed
  qed
qed (use put_law free_law in \<open>fastforce+\<close>)

lemma play_within_slots:
  "inv s \<Longrightarrow> play (s, out) ops = (s', out') \<Longrightarrow> 0 \<le> active s' \<and> active s' \<le> slots s"
  using play_fifo [of s out ops s' out'] inv_bounds [of s'] by auto

end

subsection \<open>Lemmas: sequential calls\<close>

declare Next.simps [simp del]

lemma take_cs_None: "take_cs s = (None, s') \<longleftrightarrow> s' = s \<and> \<not> work_waits s"
  by (auto simp: take_cs_def work_waits_def split: list.splits if_splits)

lemma take_cs_Some: "take_cs s = (Some r, s') \<longleftrightarrow> work_waits s \<and> r = hd (sch_queue s) \<and>
    s' = s\<lparr>sch_queue := tl (sch_queue s), sch_activeCount := sch_activeCount s + 1\<rparr>"
  by (auto simp: take_cs_def work_waits_def split: list.splits if_splits)

lemma signal_OkD:
  "signal s = Ok s' \<Longrightarrow> s' = s\<lparr>sch_token := True\<rparr> \<and> \<not> sch_closed s"
  by (auto simp: signal_def split: if_splits)

lemma fst_Enqueue: "fst (Enqueue s r) =
    s\<lparr>sch_queue := sch_queue s @ [r], sch_token := sch_token s \<or> \<not> sch_closed s\<rparr>"
  by (auto simp: Enqueue_def enqueue_cs_def signal_def Let_def)

lemma Release_eq: "Release s =
    s\<lparr>sch_activeCount := (if sch_activeCount s > 0 then sch_activeCount s - 1 else sch_activeCount s),
      sch_token := sch_token s \<or> \<not> sch_closed s\<rparr>"
  by (auto simp: Release_def release_cs_def signal_def Let_def)

interpretation sq: slot_queue sched_wf "\<lambda>s r. fst (Enqueue s r)" TryNext Release
    sch_queue sch_activeCount sch_maxConcurrent
  by unfold_locales
    (auto simp: sched_wf_def fst_Enqueue Release_eq TryNext_def take_cs_None take_cs_Some work_waits_def)

lemma Next_spec:
  "Next s = (if work_waits s
     then NextRun (hd (sch_queue s))
            (s\<lparr>sch_queue := tl (sch_queue s), sch_activeCount := sch_activeCount s + 1\<rparr>)
     else if sch_closed s then NextNil (s\<lparr>sch_token := False\<rparr>)
     else NextBlocked (s\<lparr>sch_token := False\<rparr>))"
proof (induction s rule: Next.induct)
  case (1 s)
  show ?case
  proof (cases "work_waits s")
    case True
    then have "take_cs s = (Some (hd (sch_queue s)),
        s\<lparr>sch_queue := tl (sch_queue s), sch_activeCount := sch_activeCount s + 1\<rparr>)"
      by (simp add: take_cs_Some)
    with True show ?thesis by (simp add: Next.simps [of s])
  next
    case False
    then have t: "take_cs s = (None, s)" by (simp add: take_cs_None)
    have nw: "\<not> work_waits (s\<lparr>sch_token := False\<rparr>)" using False by (simp add: work_waits_def)
    show ?thesis
    proof (cases "sch_token s")
      case True
      with "1" [OF t [symmetric]] t nw False show ?thesis by (simp add: Next.simps [of s])
    next
      case no: False
      then have "s\<lparr>sch_token := False\<rparr> = s" by simp
      with no t False show ?thesis by (simp add: Next.simps [of s])
    qed
  qed
qed

subsection \<open>Lemmas: concurrent calls\<close>

lemma sched_inv_start: "sched_inv (sched_start n)"
  by (simp add: sched_inv_def sched_start_def NewScheduler_def sched_wf_def work_waits_def)

lemma release_cs_busy:
  "sched_wf s \<Longrightarrow> sch_activeCount s = int n \<Longrightarrow> 0 < n \<Longrightarrow>
    release_cs s = s\<lparr>sch_activeCount := int (n - 1)\<rparr>"
  by (simp add: release_cs_def of_nat_diff)

lemma sched_inv_step [inv_intros]:
  assumes inv: "sched_inv w" and step: "sched_step w a = Some w'"
  shows "sched_inv w'"
proof (cases a)
  case ActRelease
  with step have b: "0 < sw_busy w" and w': "w' = w\<lparr>sw_sched := release_cs (sw_sched w), sw_busy := sw_busy w - 1, sw_rel := Suc (sw_rel w)\<rparr>"
    by (auto split: if_splits)
  have "release_cs (sw_sched w) = (sw_sched w)\<lparr>sch_activeCount := int (sw_busy w - 1)\<rparr>"
    using inv b by (intro release_cs_busy) (auto simp: sched_inv_def)
  with inv b show ?thesis unfolding w' by (auto simp: sched_inv_def sched_wf_def work_waits_def)
next
  case ActCheck
  with step inv show ?thesis
    by (auto simp: sched_inv_def sched_wf_def take_cs_None take_cs_Some work_waits_def
        split: if_splits prod.splits option.splits)
qed (use assms in \<open>auto simp: sched_inv_def sched_wf_def enqueue_cs_def signal_def Close_def work_waits_def
      split: if_splits res.splits\<close>)

lemma sched_reach_inv: "sched_reach n w \<Longrightarrow> sched_inv w"
  by (induction rule: sched_reach.induct) (blast intro: sched_inv_start sched_inv_step)+

lemma sched_step_max:
  "sched_step w a = Some w' \<Longrightarrow> sch_maxConcurrent (sw_sched w') = sch_maxConcurrent (sw_sched w)"
  by (cases a) (auto simp: enqueue_cs_def signal_def release_cs_def take_cs_def Close_def
      split: if_splits res.splits list.splits)

lemma sched_reach_max: "sched_reach n w \<Longrightarrow> sch_maxConcurrent (sw_sched w) = (if n \<le> 0 then 1 else n)"
  by (induction rule: sched_reach.induct) (auto simp: sched_start_def NewScheduler_def dest: sched_step_max)

text \<open>Once the token is in the channel, the waiting worker receives it and takes the head.\<close>

lemma worker_takes_head:
  assumes "sw_pc w = WWaiting" and "work_waits (sw_sched w)" and "sch_token (sw_sched w)"
  shows "\<exists>w'. sched_acts w [ActReceive, ActCheck] = Some w' \<and>
    sw_started w' = sw_started w @ [hd (sch_queue (sw_sched w))]"
proof -
  have "take_cs ((sw_sched w)\<lparr>sch_token := False\<rparr>) = (Some (hd (sch_queue (sw_sched w))),
      (sw_sched w)\<lparr>sch_token := False, sch_queue := tl (sch_queue (sw_sched w)),
        sch_activeCount := sch_activeCount (sw_sched w) + 1\<rparr>)"
    using assms(2) by (auto simp: take_cs_Some work_waits_def)
  with assms show ?thesis by simp
qed

subsection \<open>Properties\<close>

abbreviation example_run :: "string \<Rightarrow> TestRun" where
  "example_run i \<equiv> \<lparr>run_ID = i, run_DeviceID = ''gpu'', run_TestSuiteID = ''smoke'',
     run_Status = TestRunStatusPending, run_VMID = [], run_Priority = 0, run_CreatedAt = 0,
     run_StartedAt = None, run_CompletedAt = None, run_DurationMs = 0, run_RequestedBy = [],
     run_Tags = [], run_ErrorMessage = []\<rparr>"

text \<open>
  C27: no wake-up is lost. In every reachable interleaving of callers, signals and the worker,
  if the worker sleeps in \<open>Next\<close> while a run is queued, a slot is free and the scheduler is
  open, then at most three internal steps (a pending signal, the receive, the check) start the
  run at the head of the queue, without any further call of \<open>Enqueue\<close> or \<open>Release\<close>.
\<close>

theorem scheduler_no_lost_wakeup:
  assumes "sched_reach n w" and "sw_pc w = WWaiting" and "work_waits (sw_sched w)"
    and "\<not> sch_closed (sw_sched w)"
  shows "\<exists>as w'. length as \<le> 3 \<and> set as \<subseteq> {ActEnqueueSignal, ActReleaseSignal, ActReceive, ActCheck} \<and>
    sched_acts w as = Some w' \<and> sw_started w' = sw_started w @ [hd (sch_queue (sw_sched w))]"
proof -
  let ?w = "w\<lparr>sw_sched := (sw_sched w)\<lparr>sch_token := True\<rparr>\<rparr>"
  from sched_reach_inv [OF assms(1)] assms(2-4)
  consider "sch_token (sw_sched w)" | "0 < sw_enq w" | "0 < sw_rel w" by (auto simp: sched_inv_def)
  then show ?thesis
  proof cases
    case 1
    from worker_takes_head [OF assms(2,3) 1] show ?thesis
      by (intro exI [where x = "[ActReceive, ActCheck]"]) auto
  next
    case 2
    let ?v = "?w\<lparr>sw_enq := sw_enq w - 1\<rparr>"
    have "\<exists>w'. sched_acts ?v [ActReceive, ActCheck] = Some w' \<and>
        sw_started w' = sw_started ?v @ [hd (sch_queue (sw_sched ?v))]"
      using assms(2,3) by (intro worker_takes_head) (simp_all add: work_waits_def)
    moreover have "sched_step w ActEnqueueSignal = Some ?v" using 2 assms(4) by (simp add: signal_def)
    ultimately show ?thesis
      by (intro exI [where x = "[ActEnqueueSignal, ActReceive, ActCheck]"]) (simp del: sched_step.simps)
  next
    case 3
    let ?v = "?w\<lparr>sw_rel := sw_rel w - 1\<rparr>"
    have "\<exists>w'. sched_acts ?v [ActReceive, ActCheck] = Some w' \<and>
        sw_started w' = sw_started ?v @ [hd (sch_queue (sw_sched ?v))]"
      using assms(2,3) by (intro worker_takes_head) (simp_all add: work_waits_def)
    moreover have "sched_step w ActReleaseSignal = Some ?v" using 3 assms(4) by (simp add: signal_def)
    ultimately show ?thesis
      by (intro exI [where x = "[ActReleaseSignal, ActReceive, ActCheck]"]) (simp del: sched_step.simps)
  qed
qed

text \<open>
  C28: order and concurrency. In every reachable interleaving the runs have been started in the
  order in which they were enqueued, none twice and none dropped, and the number of runs that
  are executing equals \<open>ActiveCount\<close> and never exceeds the configured limit.
\<close>

theorem scheduler_fifo_within_limit:
  assumes "sched_reach n w"
  shows "sw_enqueued w = sw_started w @ sch_queue (sw_sched w) \<and>
    ActiveCount (sw_sched w) = int (sw_busy w) \<and> int (sw_busy w) \<le> (if n \<le> 0 then 1 else n)"
  using sched_reach_inv [OF assms] sched_reach_max [OF assms]
  by (auto simp: sched_inv_def sched_wf_def ActiveCount_def)

definition example_acts :: "sched_act list" where
  "example_acts = [ActEnqueue (example_run ''a''), ActCheck, ActCheck, ActEnqueueSignal, ActReceive,
     ActEnqueue (example_run ''b''), ActCheck, ActRelease]"

lemma sched_acts_reach: "sched_reach n w \<Longrightarrow> sched_acts w as = Some w' \<Longrightarrow> sched_reach n w'"
  by (induction w as rule: sched_acts.induct) (auto split: option.splits intro: sched_reach.act)

definition example_world :: sched_world where
  "example_world = the (sched_acts (sched_start 1) example_acts)"

lemma example_world_reach: "sched_reach 1 example_world"
proof -
  have "sched_acts (sched_start 1) example_acts \<noteq> None" by code_simp
  then have "sched_acts (sched_start 1) example_acts = Some example_world" by (auto simp: example_world_def)
  then show ?thesis by (rule sched_acts_reach [OF sched_reach.init])
qed

theorem scheduler_no_lost_wakeup_witness:
  "sw_pc example_world = WWaiting \<and> work_waits (sw_sched example_world) \<and>
   (\<exists>as w'. length as \<le> 3 \<and> sched_acts example_world as = Some w' \<and>
      sw_started w' = sw_started example_world @ [hd (sch_queue (sw_sched example_world))])"
proof -
  have a: "sw_pc example_world = WWaiting" and b: "work_waits (sw_sched example_world)"
    and c: "\<not> sch_closed (sw_sched example_world)" by code_simp+
  from scheduler_no_lost_wakeup [OF example_world_reach a b c] a b show ?thesis by blast
qed

theorem scheduler_fifo_within_limit_witness:
  "sw_enqueued example_world = [example_run ''a'', example_run ''b''] \<and>
   sw_enqueued example_world = sw_started example_world @ sch_queue (sw_sched example_world)"
proof -
  have "sw_enqueued example_world = [example_run ''a'', example_run ''b'']" by code_simp
  with scheduler_fifo_within_limit [OF example_world_reach] show ?thesis by blast
qed

text \<open>
  \<open>Next\<close> returns the head of the queue exactly when a run waits and a slot is free;
  otherwise it returns nil exactly when the scheduler is closed, and blocks when it is open. So
  \<open>Close\<close> lets the worker drain what it may still start, and then stops it.
\<close>

theorem Next_behaviour:
  "Next s = (if work_waits s
     then NextRun (hd (sch_queue s))
            (s\<lparr>sch_queue := tl (sch_queue s), sch_activeCount := sch_activeCount s + 1\<rparr>)
     else if sch_closed s then NextNil (s\<lparr>sch_token := False\<rparr>)
     else NextBlocked (s\<lparr>sch_token := False\<rparr>))"
  by (rule Next_spec)

text \<open>
  The scheduler is a FIFO queue with slots for every sequence of \<open>Enqueue\<close>,
  \<open>TryNext\<close> and \<open>Release\<close> calls: what was handed out followed by what still waits is what
  was enqueued, in order, and the active count stays between 0 and the limit.
\<close>

theorem scheduler_history:
  assumes "sq.play (NewScheduler n, []) ops = (s, out)"
  shows "out @ sch_queue s = sq.puts ops \<and> 0 \<le> sch_activeCount s \<and>
    sch_activeCount s \<le> sch_maxConcurrent (NewScheduler n)"
proof -
  have "sched_wf (NewScheduler n)" by (simp add: NewScheduler_def sched_wf_def)
  from sq.play_fifo [OF this assms] sq.play_within_slots [OF this assms] show ?thesis
    by (simp add: NewScheduler_def)
qed

theorem scheduler_history_witness:
  "let ops = [Inl (example_run ''a''), Inl (example_run ''b''), Inr True, Inr True, Inr False]
   in case sq.play (NewScheduler 1, []) ops of (s, out) \<Rightarrow>
        out @ sch_queue s = [example_run ''a'', example_run ''b''] \<and> length out = 1"
proof -
  let ?ops = "[Inl (example_run ''a''), Inl (example_run ''b''), Inr True, Inr True, Inr False]"
  obtain s out where r: "sq.play (NewScheduler 1, []) ?ops = (s, out)" by (cases "sq.play (NewScheduler 1, []) ?ops")
  then have "length out = 1"
    unfolding sq.play.simps by (auto simp: TryNext_def take_cs_def NewScheduler_def fst_Enqueue split: if_splits)
  with scheduler_history [OF r] r show ?thesis by simp
qed

text \<open>
  \<open>Enqueue\<close> has no guard against a closed scheduler: it panics on every call after
  \<open>Close\<close>, with the run already appended, while \<open>Release\<close> recovers.
\<close>

theorem Enqueue_after_Close_panics:
  assumes "sched_wf s" and "Close s = Ok s'"
  shows "snd (Enqueue s' run) = Panic ''send on closed channel'' \<and>
    sch_queue (fst (Enqueue s' run)) = sch_queue s @ [run] \<and>
    sch_activeCount (Release s') = max 0 (sch_activeCount s - 1)"
  using assms by (auto simp: sched_wf_def Close_def Enqueue_def enqueue_cs_def signal_def Let_def Release_eq split: if_splits)

theorem Enqueue_after_Close_panics_witness:
  "snd (Enqueue ((NewScheduler 2)\<lparr>sch_closed := True\<rparr>) (example_run ''a'')) = Panic ''send on closed channel''"
  using Enqueue_after_Close_panics [of "NewScheduler 2" "(NewScheduler 2)\<lparr>sch_closed := True\<rparr>" "example_run ''a''"]
  by (simp add: Close_def NewScheduler_def sched_wf_def)

end
