(* ===== verification/Engine.thy ===== *)
theory Engine
  imports Engine_Workflow Scheduler
begin

text \<open>
  The execution engine: \<open>executeTestRun\<close>, \<open>SubmitTestRun\<close>, the goroutine of a slot and
  \<open>Stop\<close>, of \<open>execution_engine.go\<close>.

  \<open>executeTestRun\<close> is one function with early returns and deferred calls. The model cuts it at
  its numbered steps, from the last one to the first: each definition runs its step and, where the
  code goes on, calls the next. A deferred call runs after the definition of the step that registers it.
  The tracing spans and the log lines are left out. The result is \<open>Some (Ok ())\<close> and
  \<open>Some (Err e)\<close> for the two ways to return, \<open>Some (Panic p)\<close> for a panic of the run's own
  goroutine, and \<open>None\<close> when a step goroutine panics or the loop never ends.
\<close>

subsection \<open>Definitions\<close>

type_synonym outcome = "unit res option"

definition mk_event :: "EventType \<Rightarrow> string \<Rightarrow> string \<Rightarrow> string \<Rightarrow> (string, gval) gomap \<Rightarrow> Event" where
  "mk_event ty entity dev status payload =
     \<lparr>ev_Type = ty, ev_EntityID = entity, ev_DeviceID = dev, ev_Status = status, ev_Payload = payload\<rparr>"

definition seconds :: "int \<Rightarrow> int" where
  "seconds n = wrap64 (n * 1000000000)"

text \<open>An update to ERRORED whose own error is ignored, and the return that follows it.\<close>

definition fail_run :: "'w ExecutionEngine \<Rightarrow> gctx \<Rightarrow> TestRun \<Rightarrow> string \<Rightarrow> error \<Rightarrow> ('w, outcome) act" where
  "fail_run e ctx run msg err =
     do {
       _ \<leftarrow> updateStatus e ctx (run_ID run) TestRunStatusErrored msg;
       ret (Some (Err err))
     }"

text \<open>Step 7.\<close>

fun bad_result :: "TestResult \<Rightarrow> bool" where
  "bad_result r = (tres_Status r = TestRunStatusFailed \<or> tres_Status r = TestRunStatusErrored)"

fun final_status :: "TestResult list \<Rightarrow> TestRunStatus" where
  "final_status [] = TestRunStatusPassed"
| "final_status (r # rs) = (if bad_result r then TestRunStatusFailed else final_status rs)"

definition finalize :: "'w ExecutionEngine \<Rightarrow> gctx \<Rightarrow> TestRun \<Rightarrow> int \<Rightarrow> ('w, outcome) act" where
  "finalize e ctx run startTime =
     do {
       r \<leftarrow> getResults e ctx (run_ID run);
       let finalStatus = final_status (case r of Inl _ \<Rightarrow> [] | Inr results \<Rightarrow> results);
       _ \<leftarrow> updateStatus e ctx (run_ID run) finalStatus '''';
       now \<leftarrow> timeNow e;
       let durationMs = milliseconds (time_sub now startTime);
       _ \<leftarrow> publish e ctx (mk_event EventTestRunCompleted (run_ID run) (run_DeviceID run) (run_status_str finalStatus)
              [(''duration_ms'', GInt durationMs)]);
       _ \<leftarrow> audit e (LogComplete (run_ID run) (run_status_str finalStatus) durationMs);
       ret (Some (Ok ()))
     }"

text \<open>Step 6.\<close>

fun is_workflow_failed :: "error \<Rightarrow> bool" where
  "is_workflow_failed (EWorkflowFailed f s) = True"
| "is_workflow_failed _ = False"

definition exec_workflow :: "'w ExecutionEngine \<Rightarrow> 'w AgentCoordinatorInterface \<Rightarrow> gctx \<Rightarrow> TestRun \<Rightarrow> DeviceEntry \<Rightarrow> string
    \<Rightarrow> TestSuite \<Rightarrow> int \<Rightarrow> ('w, outcome) act" where
  "exec_workflow e ac ctx run device vmID suite startTime =
     do {
       r \<leftarrow> runWorkflow e ac ctx run device vmID suite;
       (case r of
          None \<Rightarrow> ret None
        | Some (Inr _) \<Rightarrow> finalize e ctx run startTime
        | Some (Inl err) \<Rightarrow>
            if is_workflow_failed err then finalize e ctx run startTime
            else fail_run e ctx run (''workflow execution failed: '' @ error_text err) (EWrap ''executing workflow'' err))
     }"

text \<open>What makes a command a failure: the error of \<open>SendCommand\<close>, or another status than \<open>passed\<close>.\<close>

definition command_error :: "string \<Rightarrow> error + AgentResult \<Rightarrow> error option" where
  "command_error what r = (case r of
     Inl err \<Rightarrow> Some err
   | Inr ar \<Rightarrow> if ares_Status ar \<noteq> ''passed'' then Some (EText (what @ ares_Status ar)) else None)"

definition exec_verify :: "'w ExecutionEngine \<Rightarrow> 'w AgentCoordinatorInterface \<Rightarrow> gctx \<Rightarrow> TestRun \<Rightarrow> DeviceEntry \<Rightarrow> string
    \<Rightarrow> TestSuite \<Rightarrow> int \<Rightarrow> ('w, outcome) act" where
  "exec_verify e ac ctx run device vmID suite startTime =
     (if isVishwaSuite (run_TestSuiteID run) then
        do {
          r \<leftarrow> sendCommand ac ctx vmID (verify_cmd run device);
          (case command_error ''verify status: '' r of
             Some err \<Rightarrow> fail_run e ctx run (error_text err) (EText (''verifying device: '' @ error_text err))
           | None \<Rightarrow> exec_workflow e ac ctx run device vmID suite startTime)
        }
      else exec_workflow e ac ctx run device vmID suite startTime)"

text \<open>Step 5.\<close>

definition exec_load :: "'w ExecutionEngine \<Rightarrow> 'w AgentCoordinatorInterface \<Rightarrow> gctx \<Rightarrow> TestRun \<Rightarrow> DeviceEntry \<Rightarrow> string
    \<Rightarrow> TestSuite \<Rightarrow> int \<Rightarrow> ('w, outcome) act" where
  "exec_load e ac ctx run device vmID suite startTime =
     do {
       r \<leftarrow> sendCommand ac ctx vmID (load_cmd run device);
       (case command_error ''driver load status: '' r of
          Some err \<Rightarrow> fail_run e ctx run (error_text err) (EText (''loading driver: '' @ error_text err))
        | None \<Rightarrow>
            do {
              _ \<leftarrow> publish e ctx (mk_event EventDriverLoaded (run_ID run) (run_DeviceID run) ''''
                     [(''module_name'', GStr (dev_DriverModule device))]);
              exec_verify e ac ctx run device vmID suite startTime
            })
     }"

text \<open>Step 4.\<close>

definition exec_agent :: "'w ExecutionEngine \<Rightarrow> gctx \<Rightarrow> TestRun \<Rightarrow> DeviceEntry \<Rightarrow> string \<Rightarrow> TestSuite \<Rightarrow> int
    \<Rightarrow> ('w, outcome) act" where
  "exec_agent e ctx run device vmID suite startTime =
     (case ee_agentCoord e of
        None \<Rightarrow> finalize e ctx run startTime
      | Some ac \<Rightarrow>
          do {
            r \<leftarrow> waitForAgent ac (CtxTimeout ctx (seconds (vd_BootTimeoutSeconds (gc_VMDefaults (ee_cfg e))))) vmID;
            (case r of
               Inl err \<Rightarrow> fail_run e ctx run (''agent registration timeout: '' @ error_text err) (EWrap ''waiting for agent'' err)
             | Inr _ \<Rightarrow>
                 do {
                   _ \<leftarrow> publish e ctx (mk_event EventVMReady vmID (run_DeviceID run) '''' [(''test_run_id'', GStr (run_ID run))]);
                   exec_load e ac ctx run device vmID suite startTime
                 })
          })"

text \<open>The deferred clean-up, with a context of its own.\<close>

definition teardown :: "'w ExecutionEngine \<Rightarrow> TestRun \<Rightarrow> string \<Rightarrow> ('w, unit) act" where
  "teardown e run vmID =
     do {
       _ \<leftarrow> unregisterVM e vmID;
       _ \<leftarrow> stopVM e CtxBackground vmID;
       _ \<leftarrow> destroyVM e CtxBackground vmID;
       _ \<leftarrow> publish e CtxBackground (mk_event EventVMDestroyed vmID (run_DeviceID run) '''' [(''test_run_id'', GStr (run_ID run))]);
       audit e (LogVMEvent ''vm.destroyed'' vmID (run_DeviceID run) (run_ID run))
     }"

text \<open>A deferred call: it runs when the function returns or panics.\<close>

definition deferred :: "('w, outcome) act \<Rightarrow> ('w, unit) act \<Rightarrow> ('w, outcome) act" where
  "deferred body cleanup =
     do {
       r \<leftarrow> body;
       (case r of None \<Rightarrow> ret None | Some x \<Rightarrow> do { _ \<leftarrow> cleanup; ret (Some x) })
     }"

text \<open>Step 3: \<open>exec_start\<close> goes on from a created VM.\<close>

definition exec_start :: "'w ExecutionEngine \<Rightarrow> gctx \<Rightarrow> TestRun \<Rightarrow> DeviceEntry \<Rightarrow> VMInstance \<Rightarrow> TestSuite \<Rightarrow> int
    \<Rightarrow> ('w, outcome) act" where
  "exec_start e ctx run device vmInstance suite startTime =
     do {
       _ \<leftarrow> publish e ctx (mk_event EventVMCreated (vm_ID vmInstance) (run_DeviceID run) (vm_status_str (vm_Status vmInstance))
              [(''test_run_id'', GStr (run_ID run))]);
       _ \<leftarrow> audit e (LogVMEvent ''vm.created'' (vm_ID vmInstance) (run_DeviceID run) (run_ID run));
       _ \<leftarrow> registerVM e (vm_ID vmInstance);
       r \<leftarrow> startVM e ctx (vm_ID vmInstance);
       (case r of
          Inl err \<Rightarrow>
            do {
              _ \<leftarrow> unregisterVM e (vm_ID vmInstance);
              _ \<leftarrow> destroyVM e ctx (vm_ID vmInstance);
              fail_run e ctx run (''VM start failed: '' @ error_text err) (EWrap ''starting VM'' err)
            }
        | Inr _ \<Rightarrow> deferred (exec_agent e ctx run device (vm_ID vmInstance) suite startTime)
                           (teardown e run (vm_ID vmInstance)))
     }"

definition exec_create :: "'w ExecutionEngine \<Rightarrow> gctx \<Rightarrow> TestRun \<Rightarrow> DeviceEntry \<Rightarrow> TestSuite \<Rightarrow> int \<Rightarrow> ('w, outcome) act" where
  "exec_create e ctx run device suite startTime =
     do {
       r \<leftarrow> createVM e ctx device;
       (case r of
          Inl err \<Rightarrow> fail_run e ctx run (''VM creation failed: '' @ error_text err) (EWrap ''creating VM'' err)
        | Inr vmInstance \<Rightarrow> exec_start e ctx (run\<lparr>run_VMID := vm_ID vmInstance\<rparr>) device vmInstance suite startTime)
     }"

text \<open>Step 2c.\<close>

definition needed :: "'w ExecutionEngine \<Rightarrow> Allocation" where
  "needed e = \<lparr>al_CPUs = qc_DefaultCPUs (gc_QEMU (ee_cfg e)), al_MemMB = qc_DefaultMemoryMB (gc_QEMU (ee_cfg e))\<rparr>"

definition exec_acquire :: "'w ExecutionEngine \<Rightarrow> gctx \<Rightarrow> TestRun \<Rightarrow> DeviceEntry \<Rightarrow> TestSuite \<Rightarrow> int \<Rightarrow> ('w, outcome) act" where
  "exec_acquire e ctx run device suite startTime =
     (case ee_allocator e of
        None \<Rightarrow> exec_create e ctx run device suite startTime
      | Some al \<Rightarrow>
          do {
            ok \<leftarrow> tryAcquire al (needed e);
            if ok then deferred (exec_create e ctx run device suite startTime) (releaseAlloc al (needed e))
            else do {
              _ \<leftarrow> updateStatus e ctx (run_ID run) TestRunStatusPending ''waiting for resources'';
              _ \<leftarrow> resubmitLater e run;
              ret (Some (Ok ()))
            }
          })"

text \<open>Step 2b.\<close>

definition exec_suite :: "'w ExecutionEngine \<Rightarrow> gctx \<Rightarrow> TestRun \<Rightarrow> DeviceEntry \<Rightarrow> int \<Rightarrow> ('w, outcome) act" where
  "exec_suite e ctx run device startTime =
     do {
       r \<leftarrow> loadTestSuite e (run_TestSuiteID run) device;
       (case r of
          Ok suite \<Rightarrow> exec_acquire e ctx run device suite startTime
        | Err err \<Rightarrow> fail_run e ctx run (''failed to load test suite: '' @ error_text err) (EWrap ''failed to load test suite'' err)
        | Panic p \<Rightarrow> ret (Some (Panic p)))
     }"

text \<open>Step 2a. The verb \<open>%v\<close> prints a slice of strings with blanks between them.\<close>

fun join_blank :: "string list \<Rightarrow> string" where
  "join_blank [] = ''''"
| "join_blank [s] = s"
| "join_blank (s # ss) = s @ '' '' @ join_blank ss"

definition skip_msg :: "DeviceEntry \<Rightarrow> string" where
  "skip_msg device = ''skipped: device '' @ go_quote (dev_ID device) @ '' target_modes ['' @ join_blank (dev_TargetModes device) @
     ''] does not include 'qemu'; physical hardware passthrough required''"

definition exec_gate :: "'w ExecutionEngine \<Rightarrow> gctx \<Rightarrow> TestRun \<Rightarrow> DeviceEntry \<Rightarrow> int \<Rightarrow> ('w, outcome) act" where
  "exec_gate e ctx run device startTime =
     (if deviceSupportsQEMU (dev_TargetModes device) then exec_suite e ctx run device startTime
      else do {
        _ \<leftarrow> updateStatus e ctx (run_ID run) TestRunStatusCancelled (skip_msg device);
        _ \<leftarrow> publish e ctx (mk_event EventTestRunCancelled (run_ID run) (run_DeviceID run) (run_status_str TestRunStatusCancelled)
               [(''reason'', GStr (skip_msg device))]);
        _ \<leftarrow> audit e (LogCancel (run_ID run) (run_RequestedBy run));
        ret (Some (Ok ()))
      })"

text \<open>Steps 1 and 2.\<close>

definition executeTestRun :: "'w ExecutionEngine \<Rightarrow> gctx \<Rightarrow> TestRun \<Rightarrow> ('w, outcome) act" where
  "executeTestRun e ctx run =
     (let runCtx = CtxTimeout ctx (seconds (vd_TestTimeoutSeconds (gc_VMDefaults (ee_cfg e))))
      in do {
        startTime \<leftarrow> timeNow e;
        r \<leftarrow> updateStatus e runCtx (run_ID run) TestRunStatusRunning '''';
        (case r of
           Inl err \<Rightarrow> ret (Some (Err (EWrap ''updating status to RUNNING'' err)))
         | Inr _ \<Rightarrow>
             do {
               _ \<leftarrow> publish e runCtx (mk_event EventTestRunStarted (run_ID run) (run_DeviceID run)
                      (run_status_str TestRunStatusRunning) []);
               (case FindDevice (ee_registry e) (run_DeviceID run) of
                  Ok device \<Rightarrow> exec_gate e runCtx run device startTime
                | Err err \<Rightarrow> fail_run e runCtx run (''device not found: '' @ error_text err) (EWrap ''device lookup'' err)
                | Panic p \<Rightarrow> ret (Some (Panic p)))
             })
      })"

subsection \<open>Submission, slots, start and stop\<close>

text \<open>
  \<open>SubmitTestRun\<close> on the scheduler's state. A panic of \<open>Enqueue\<close> leaves the function before the event
  is published.
\<close>

definition SubmitTestRun :: "'w ExecutionEngine \<Rightarrow> Scheduler \<Rightarrow> TestRun \<Rightarrow> ('w, Scheduler \<times> unit res) act" where
  "SubmitTestRun e s run =
     (case Enqueue s run of
        (s', Ok _) \<Rightarrow>
          do {
            _ \<leftarrow> publish e CtxBackground (mk_event EventTestRunSubmitted (run_ID run) (run_DeviceID run)
                   (run_status_str TestRunStatusPending)
                   [(''priority'', GInt (run_Priority run)), (''requested_by'', GStr (run_RequestedBy run)),
                    (''tags'', GArr (map GStr (run_Tags run)))]);
            ret (s', Ok ())
          }
      | (s', r) \<Rightarrow> ret (s', r))"

text \<open>
  The goroutine \<open>worker\<close> starts for a run it was given: the slot is released when
  \<open>executeTestRun\<close> returns, with or without error. A panic that is not recovered ends the process after
  the deferred calls.
\<close>

definition run_slot :: "'w ExecutionEngine \<Rightarrow> Scheduler \<Rightarrow> TestRun \<Rightarrow> ('w, Scheduler \<times> outcome) act" where
  "run_slot e s run =
     do {
       r \<leftarrow> executeTestRun e CtxEngine run;
       ret (case r of None \<Rightarrow> (s, None) | Some x \<Rightarrow> (Scheduler.Release s, Some x))
     }"

text \<open>One round of \<open>worker\<close>: the run that is started, or the end of the worker.\<close>

datatype worker_round = WorkerStarts TestRun Scheduler | WorkerEnds Scheduler | WorkerWaits Scheduler

definition worker :: "Scheduler \<Rightarrow> worker_round" where
  "worker s = (case Next s of
     NextRun run s' \<Rightarrow> WorkerStarts run s'
   | NextNil s' \<Rightarrow> WorkerEnds s'
   | NextBlocked s' \<Rightarrow> WorkerWaits s')"

text \<open>\<open>Stop\<close> up to the wait for the goroutines: the context is cancelled, the scheduler closed.\<close>

definition Stop :: "Scheduler \<Rightarrow> Scheduler res" where
  "Stop s = Scheduler.Close s"

end
