(* ===== verification/Engine_Trace.thy ===== *)
theory Engine_Trace
  imports Engine
begin

text \<open>
  What a run does to the world, as statements about the calls of \<open>executeTestRun\<close>: the life of its
  VM, the registration with the agent coordinator, the bracket of the resource budget, the status
  updates, and the order of the commands. Each is an observer, a function on traces; the lemmas
  follow the steps of \<open>Engine\<close> from the last to the first.
\<close>

subsection \<open>Observers of a trace\<close>

text \<open>The life of the run's VM. Anything out of order leads to \<open>VMBad\<close>.\<close>

datatype vm_phase = VMNone | VMCreated string | VMStarted string | VMStopped string | VMGone | VMBad

definition vm_step :: "vm_phase \<Rightarrow> call \<Rightarrow> vm_phase" where
  "vm_step ph c = (case c of
     CallCreateVM _ _ r \<Rightarrow> if ph = VMNone then (case r of Some v \<Rightarrow> VMCreated v | None \<Rightarrow> VMNone) else VMBad
   | CallStartVM _ v ok \<Rightarrow> if ph = VMCreated v then (if ok then VMStarted v else ph) else VMBad
   | CallWaitForAgent _ v _ \<Rightarrow> if ph = VMStarted v then ph else VMBad
   | CallSendCommand _ v _ _ \<Rightarrow> if ph = VMStarted v then ph else VMBad
   | CallStopVM _ v \<Rightarrow> if ph = VMStarted v then VMStopped v else VMBad
   | CallDestroyVM _ v \<Rightarrow> if ph = VMCreated v \<or> ph = VMStopped v then VMGone else VMBad
   | CallRegisterVM v \<Rightarrow> if ph = VMCreated v then ph else VMBad
   | CallUnregisterVM v \<Rightarrow> if ph = VMCreated v \<or> ph = VMStarted v then ph else VMBad
   | _ \<Rightarrow> ph)"

text \<open>The VMs registered with the agent coordinator.\<close>

definition reg_step :: "string set \<Rightarrow> call \<Rightarrow> string set" where
  "reg_step vs c = (case c of CallRegisterVM v \<Rightarrow> insert v vs | CallUnregisterVM v \<Rightarrow> vs - {v} | _ \<Rightarrow> vs)"

text \<open>The status updates: run, status, and whether the store accepted it.\<close>

fun status_calls :: "call list \<Rightarrow> (string \<times> TestRunStatus \<times> bool) list" where
  "status_calls [] = []"
| "status_calls (CallUpdateStatus _ i st _ ok # cs) = (i, st, ok) # status_calls cs"
| "status_calls (_ # cs) = status_calls cs"

fun is_note :: "call \<Rightarrow> bool" where
  "is_note (CallPublish _ _) = True"
| "is_note (CallAudit _) = True"
| "is_note _ = False"

fun is_alloc :: "call \<Rightarrow> bool" where
  "is_alloc (CallTryAcquire _ _) = True"
| "is_alloc (CallRelease _) = True"
| "is_alloc _ = False"

fun is_vm :: "call \<Rightarrow> bool" where
  "is_vm (CallCreateVM _ _ _) = True"
| "is_vm (CallStartVM _ _ _) = True"
| "is_vm (CallStopVM _ _) = True"
| "is_vm (CallDestroyVM _ _) = True"
| "is_vm (CallRegisterVM _) = True"
| "is_vm (CallUnregisterVM _) = True"
| "is_vm (CallWaitForAgent _ _ _) = True"
| "is_vm (CallSendCommand _ _ _ _) = True"
| "is_vm _ = False"

text \<open>No result is saved after a status update.\<close>

fun settled :: "call list \<Rightarrow> bool" where
  "settled [] = True"
| "settled (c # cs) = ((status_calls [c] = [] \<or> list_all (\<lambda>c. \<not> is_save c) cs) \<and> settled cs)"

text \<open>The calls made while VM \<open>v\<close> is up.\<close>

fun inner_call :: "string \<Rightarrow> call \<Rightarrow> bool" where
  "inner_call v (CallWaitForAgent _ v' _) = (v' = v)"
| "inner_call v (CallSendCommand _ v' _ _) = (v' = v)"
| "inner_call v c = (\<not> is_vm c \<and> \<not> is_alloc c)"

lemma status_calls_append [simp]: "status_calls (t @ u) = status_calls t @ status_calls u"
  by (induction t rule: status_calls.induct) auto

lemma status_calls_Cons: "status_calls (c # t) = status_calls [c] @ status_calls t"
  using status_calls_append [of "[c]" t] by simp

lemma settled_quiet: "status_calls t = [] \<Longrightarrow> settled t"
proof (induction t)
  case (Cons c t)
  then show ?case using status_calls_Cons [of c t] by simp
qed simp

lemma settled_append [simp]:
  "settled (t @ u) \<longleftrightarrow> settled t \<and> settled u \<and> (status_calls t = [] \<or> list_all (\<lambda>c. \<not> is_save c) u)"
proof (induction t)
  case (Cons c t)
  then show ?case using status_calls_Cons [of c t] by auto
qed simp

lemma note_step:
  "is_note c \<Longrightarrow> status_calls (c # t) = status_calls t \<and> inner_call v c \<and> vm_step ph c = ph \<and> reg_step vs c = vs \<and>
    \<not> is_alloc c \<and> \<not> is_vm c \<and> \<not> is_save c"
  by (cases c) (simp_all add: vm_step_def reg_step_def)

lemma note_simps [simp]:
  assumes "list_all is_note t"
  shows "status_calls t = []" and "list_all (inner_call v) t" and "foldl vm_step ph t = ph" and "foldl reg_step vs t = vs"
    and "list_all (\<lambda>c. \<not> is_alloc c) t" and "list_all (\<lambda>c. \<not> is_vm c) t"
    and "list_all (\<lambda>c. \<not> is_save c) t" and "settled t"
  using assms note_step by (induction t) simp_all

lemma inner_started: "list_all (inner_call v) t \<Longrightarrow> foldl vm_step (VMStarted v) t = VMStarted v"
proof (induction t)
  case (Cons c t)
  then have "vm_step (VMStarted v) c = VMStarted v" by (cases c) (auto simp: vm_step_def)
  with Cons show ?case by simp
qed simp

lemma inner_reg: "list_all (inner_call v) t \<Longrightarrow> foldl reg_step vs t = vs"
proof (induction t)
  case (Cons c t)
  then have "reg_step vs c = vs" by (cases c) (auto simp: reg_step_def)
  with Cons show ?case by simp
qed simp

lemma inner_alloc: "list_all (inner_call v) t \<Longrightarrow> list_all (\<lambda>c. \<not> is_alloc c) t"
proof (induction t)
  case (Cons c t)
  then have "\<not> is_alloc c" by (cases c) auto
  with Cons show ?case by simp
qed simp

lemma step_call_inner: "is_step_call v c \<Longrightarrow> inner_call v c \<and> status_calls [c] = []"
  by (cases c) auto

lemma step_calls_inner: "list_all (is_step_call v) t \<Longrightarrow> list_all (inner_call v) t \<and> status_calls t = []"
proof (induction t)
  case (Cons c t)
  then show ?case using step_call_inner [of v c] by (cases c) auto
qed simp

lemma emits_note:
  "(\<And>t. list_all is_note t \<Longrightarrow> U () t) \<Longrightarrow> emits (publish e ctx ev) U"
  "(\<And>t. list_all is_note t \<Longrightarrow> U () t) \<Longrightarrow> emits (audit e a) U"
  by (auto intro!: emits_optional)

lemma emits_reg:
  "(\<And>t. t = [] \<and> ee_agentCoord e = None \<or> t = [CallRegisterVM i] \<and> ee_agentCoord e \<noteq> None \<Longrightarrow> U () t) \<Longrightarrow> emits (registerVM e i) U"
  "(\<And>t. t = [] \<and> ee_agentCoord e = None \<or> t = [CallUnregisterVM i] \<and> ee_agentCoord e \<noteq> None \<Longrightarrow> U () t) \<Longrightarrow> emits (unregisterVM e i) U"
  by (cases "ee_agentCoord e"; simp add: registerVM_def unregisterVM_def emits_ret emits_perform)+

lemmas emits_steps = emits_bindI emits_ret emits_ask emits_calls emits_note emits_reg

text \<open>How a run that got as far as RUNNING is closed: one more update, which tells the outcome.\<close>

definition closes :: "TestRun \<Rightarrow> outcome \<Rightarrow> call list \<Rightarrow> bool" where
  "closes run r t \<longleftrightarrow> settled t \<and> (\<exists>st ok. status_calls t = [(run_ID run, st, ok)] \<and>
     (case r of
        Some (Err _) \<Rightarrow> st = TestRunStatusErrored
      | Some (Ok _) \<Rightarrow> st \<in> {TestRunStatusPassed, TestRunStatusFailed}
      | _ \<Rightarrow> False))"

lemma final_status_cases: "final_status rs = TestRunStatusPassed \<or> final_status rs = TestRunStatusFailed"
  by (induction rs) auto

definition inner_ok :: "TestRun \<Rightarrow> string \<Rightarrow> outcome \<Rightarrow> call list \<Rightarrow> bool" where
  "inner_ok run v r t \<longleftrightarrow> list_all (inner_call v) t \<and> closes run r t"

lemma emits_prepend:
  assumes "emits m (inner_ok run v)" and "list_all (inner_call v) t" and "status_calls t = []"
  shows "emits m (\<lambda>r u. inner_ok run v r (t @ u))"
  by (rule emits_conseq [OF assms(1)]) (use assms(2,3) in \<open>simp add: inner_ok_def closes_def settled_quiet\<close>)

lemma emits_fail_run: "emits (fail_run e ctx run msg err) (inner_ok run v)"
  unfolding fail_run_def by (intro emits_steps) (simp add: closes_def inner_ok_def)

lemma emits_finalize: "emits (finalize e ctx run start) (inner_ok run v)"
  unfolding finalize_def Let_def
  by (intro emits_steps) (use final_status_cases in \<open>auto simp: closes_def inner_ok_def\<close>)

lemma emits_exec_workflow:
  assumes "vishwa_ok (run_TestSuiteID run)"
  shows "emits (exec_workflow e ac ctx run device v suite start) (inner_ok run v)"
  unfolding exec_workflow_def
proof (rule emits_bind [OF emits_runWorkflow [OF assms]])
  fix x t
  assume "wf_report v run suite x t"
  then have t: "list_all (inner_call v) t" "status_calls t = []" "x \<noteq> None"
    using step_calls_inner [of v t] by (auto simp: wf_report_def)
  note pre = emits_prepend [OF _ t(1,2)]
  show "emits (case x of None \<Rightarrow> ret None
        | Some (Inl err) \<Rightarrow> if is_workflow_failed err then finalize e ctx run start
            else fail_run e ctx run (''workflow execution failed: '' @ error_text err) (EWrap ''executing workflow'' err)
        | Some (Inr _) \<Rightarrow> finalize e ctx run start)
      (\<lambda>r u. inner_ok run v r (t @ u))"
    using t(3) pre [OF emits_finalize] pre [OF emits_fail_run] by (auto split: option.splits sum.splits)
qed

lemma emits_exec_verify:
  assumes "vishwa_ok (run_TestSuiteID run)"
  shows "emits (exec_verify e ac ctx run device v suite start) (inner_ok run v)"
  unfolding exec_verify_def
  by (auto intro!: emits_steps emits_prepend emits_fail_run emits_exec_workflow [OF assms] split: option.splits)

lemma emits_prepend2:
  "emits m (inner_ok run v) \<Longrightarrow> list_all (inner_call v) t \<Longrightarrow> status_calls t = [] \<Longrightarrow> inner_call v c \<Longrightarrow> status_calls [c] = [] \<Longrightarrow>
    emits m (\<lambda>r u. inner_ok run v r (c # t @ u))"
  using emits_prepend [of m run v "c # t"] status_calls_append [of "[c]" t] by simp

lemmas inner_intros = emits_bindI emits_ask emits_calls emits_note emits_prepend emits_prepend2 emits_fail_run emits_finalize

lemma emits_exec_load:
  assumes "vishwa_ok (run_TestSuiteID run)"
  shows "emits (exec_load e ac ctx run device v suite start) (inner_ok run v)"
  unfolding exec_load_def
  by (auto intro!: inner_intros emits_exec_verify [OF assms] split: option.splits)

lemma emits_exec_agent:
  assumes "vishwa_ok (run_TestSuiteID run)"
  shows "emits (exec_agent e ctx run device v suite start) (inner_ok run v)"
  unfolding exec_agent_def
  by (auto intro!: inner_intros emits_exec_load [OF assms] split: option.splits sum.splits)

text \<open>The whole life of a VM, from its creation on.\<close>

definition outer_ok :: "'w ExecutionEngine \<Rightarrow> TestRun \<Rightarrow> vm_phase \<Rightarrow> outcome \<Rightarrow> call list \<Rightarrow> bool" where
  "outer_ok e run ph r t \<longleftrightarrow> foldl vm_step ph t \<in> {VMNone, VMGone} \<and> foldl reg_step {} t = {} \<and>
     list_all (\<lambda>c. \<not> is_alloc c) t \<and> closes run r t"

lemma closes_Some: "closes run r t \<Longrightarrow> \<exists>x. r = Some x"
  by (auto simp: closes_def split: option.splits)

lemma emits_teardown:
  "emits (teardown e run v) (\<lambda>_ t. foldl vm_step (VMStarted v) t = VMGone \<and> status_calls t = [] \<and> list_all (\<lambda>c. \<not> is_save c) t \<and>
     list_all (\<lambda>c. \<not> is_alloc c) t \<and>
     (\<forall>vs. foldl reg_step vs t = (if ee_agentCoord e = None then vs else vs - {v})))"
  unfolding teardown_def by (intro emits_steps) (auto simp: vm_step_def reg_step_def)

lemma emits_started:
  assumes "vishwa_ok (run_TestSuiteID run)"
  shows "emits (deferred (exec_agent e ctx run device v suite start) (teardown e run v))
    (\<lambda>r t. foldl vm_step (VMStarted v) t = VMGone \<and> closes run r t \<and> list_all (\<lambda>c. \<not> is_alloc c) t \<and>
       (\<forall>vs. foldl reg_step vs t = (if ee_agentCoord e = None then vs else vs - {v})))"
  unfolding deferred_def
proof (rule emits_bind [OF emits_exec_agent [OF assms]])
  fix r t
  assume t: "inner_ok run v r t"
  then obtain x where "r = Some x" using closes_Some [of run r t] by (auto simp: inner_ok_def)
  with t show "emits (case r of None \<Rightarrow> ret None | Some x \<Rightarrow> do { _ \<leftarrow> teardown e run v; ret (Some x) })
    (\<lambda>r u. foldl vm_step (VMStarted v) (t @ u) = VMGone \<and> closes run r (t @ u) \<and> list_all (\<lambda>c. \<not> is_alloc c) (t @ u) \<and>
       (\<forall>vs. foldl reg_step vs (t @ u) = (if ee_agentCoord e = None then vs else vs - {v})))"
    by (auto intro!: emits_bindI emits_ret emits_conseq [OF emits_teardown]
        simp: inner_ok_def closes_def inner_started inner_reg inner_alloc settled_quiet)
qed

lemma emits_exec_start:
  assumes "vishwa_ok (run_TestSuiteID run)"
  shows "emits (exec_start e ctx run device vm suite start) (outer_ok e run (VMCreated (vm_ID vm)))"
  unfolding exec_start_def
proof (intro emits_bindI emits_note emits_reg emits_calls)
  fix t1 t2 t3 :: "call list" and r :: "error + unit"
  assume t: "list_all is_note t1" "list_all is_note t2"
    "t3 = [] \<and> ee_agentCoord e = None \<or> t3 = [CallRegisterVM (vm_ID vm)] \<and> ee_agentCoord e \<noteq> None"
  show "emits (case r of
          Inl err \<Rightarrow>
            do {
              _ \<leftarrow> unregisterVM e (vm_ID vm);
              _ \<leftarrow> destroyVM e ctx (vm_ID vm);
              fail_run e ctx run (''VM start failed: '' @ error_text err) (EWrap ''starting VM'' err)
            }
        | Inr _ \<Rightarrow> deferred (exec_agent e ctx run device (vm_ID vm) suite start) (teardown e run (vm_ID vm)))
     (\<lambda>y u. outer_ok e run (VMCreated (vm_ID vm)) y (t1 @ t2 @ t3 @ [CallStartVM ctx (vm_ID vm) (sum_ok r)] @ u))"
  proof (cases r)
    case (Inl err)
    then show ?thesis using t unfolding fail_run_def
      by (auto intro!: emits_bindI emits_reg emits_calls emits_ret simp: outer_ok_def vm_step_def reg_step_def closes_def)
  next
    case (Inr u)
    then show ?thesis using t
      by (auto intro!: emits_conseq [OF emits_started [OF assms]] simp: outer_ok_def closes_def vm_step_def reg_step_def)
  qed
qed

lemma emits_exec_create:
  assumes "vishwa_ok (run_TestSuiteID run)"
  shows "emits (exec_create e ctx run device suite start) (outer_ok e run VMNone)"
  unfolding exec_create_def fail_run_def
  by (auto intro!: emits_bindI emits_calls emits_ret emits_conseq [OF emits_exec_start] split: sum.splits
      simp: assms outer_ok_def closes_def vm_step_def reg_step_def)

lemma dec_suiteJSON_total: "total_dec dec_suiteJSON"
  unfolding dec_suiteJSON_def dec_suite_test_def dec_WorkflowStep_def
  by (auto intro!: total_dec_intros)

lemma vishwa_suite_Ok: "vishwa_suite i device = Ok suite \<Longrightarrow> splitPath (drop 7 i) \<noteq> []"
  by (auto simp: vishwa_suite_def Let_def last_segment_def)

lemma vishwa_suite_Panic: "vishwa_suite i device = Panic p \<Longrightarrow> splitPath (drop 7 i) = []"
  by (auto simp: vishwa_suite_def Let_def last_segment_def split: if_splits)

lemma emits_climb: "emits (climb e i segs) (\<lambda>_ t. t = [])"
proof (induction segs)
  case (Cons s segs)
  then show ?case by (auto intro!: emits_bindI emits_ask emits_ret simp: Let_def)
qed (auto intro!: emits_bindI emits_ask emits_ret simp: Let_def)

lemma emits_try_paths: "emits (try_paths e r ps) (\<lambda>_ t. t = [])"
  by (induction ps arbitrary: r) (auto intro!: emits_bindI emits_ask emits_ret)

lemma emits_read_suite: "emits (read_suite e i) (\<lambda>_ t. t = [])"
  unfolding read_suite_def
  by (auto intro!: emits_bindI emits_ask emits_ret emits_conseq [OF emits_climb] emits_try_paths
      simp del: climb.simps try_paths.simps split: sum.splits option.splits)

lemma emits_loadTestSuite:
  "emits (loadTestSuite e i device) (\<lambda>r t. t = [] \<and> (\<forall>s. r = Ok s \<longrightarrow> vishwa_ok i) \<and> (\<forall>p. r = Panic p \<longrightarrow> \<not> vishwa_ok i))"
proof (cases "isVishwaSuite i")
  case True
  then show ?thesis
    by (auto simp: loadTestSuite_def vishwa_ok_def intro!: emits_ret dest: vishwa_suite_Ok vishwa_suite_Panic)
next
  case False
  then have "emits (loadTestSuite e i device) (\<lambda>r t. t = [] \<and> (\<forall>p. r \<noteq> Panic p))"
    using Unmarshal_total [OF dec_suiteJSON_total]
    by (auto simp: loadTestSuite_def intro!: emits_bindI emits_ret emits_conseq [OF emits_read_suite] split: sum.splits res.splits if_splits)
  from emits_conseq [OF this] False show ?thesis by (auto simp: vishwa_ok_def)
qed

subsection \<open>The whole run\<close>

definition ended :: "TestRun \<Rightarrow> outcome \<Rightarrow> (string \<times> TestRunStatus \<times> bool) list \<Rightarrow> bool" where
  "ended run r ss \<longleftrightarrow> (case r of
     Some (Ok _) \<Rightarrow> \<exists>st ok. ss = [(run_ID run, st, ok)] \<and>
       st \<in> {TestRunStatusPassed, TestRunStatusFailed, TestRunStatusPending, TestRunStatusCancelled}
   | Some (Err _) \<Rightarrow> \<exists>ok. ss = [(run_ID run, TestRunStatusErrored, ok)]
   | Some (Panic _) \<Rightarrow> ss = [] \<and> \<not> vishwa_ok (run_TestSuiteID run)
   | None \<Rightarrow> False)"

text \<open>Every VM call stands between the one acquisition of the budget and its release.\<close>

definition bracketed :: "Allocation \<Rightarrow> call list \<Rightarrow> bool" where
  "bracketed a t \<longleftrightarrow>
     list_all (\<lambda>c. \<not> is_alloc c \<and> \<not> is_vm c) t \<or>
     (\<exists>pre post. t = pre @ CallTryAcquire a False # post \<and> list_all (\<lambda>c. \<not> is_alloc c \<and> \<not> is_vm c) (pre @ post)) \<or>
     (\<exists>pre mid. t = pre @ CallTryAcquire a True # mid @ [CallRelease a] \<and>
        list_all (\<lambda>c. \<not> is_alloc c \<and> \<not> is_vm c) pre \<and> list_all (\<lambda>c. \<not> is_alloc c) mid)"

definition body_ok :: "'w ExecutionEngine \<Rightarrow> TestRun \<Rightarrow> outcome \<Rightarrow> call list \<Rightarrow> bool" where
  "body_ok e run r t \<longleftrightarrow> foldl vm_step VMNone t \<in> {VMNone, VMGone} \<and> foldl reg_step {} t = {} \<and> ended run r (status_calls t) \<and> settled t \<and>
     (if ee_allocator e = None then list_all (\<lambda>c. \<not> is_alloc c) t else bracketed (needed e) t)"

lemma closes_ended: "closes run r t \<Longrightarrow> ended run r (status_calls t) \<and> settled t"
  by (auto simp: closes_def ended_def split: option.splits res.splits)

lemma bracketed_outside: "list_all (\<lambda>c. \<not> is_alloc c \<and> \<not> is_vm c) t \<Longrightarrow> bracketed a t"
  by (simp add: bracketed_def)

lemma bracketed_refused: "list_all (\<lambda>c. \<not> is_alloc c \<and> \<not> is_vm c) t \<Longrightarrow> bracketed a (CallTryAcquire a False # t)"
  unfolding bracketed_def by (intro disjI2 disjI1 exI [of _ "[]"] exI [of _ t]) simp

lemma bracketed_held: "list_all (\<lambda>c. \<not> is_alloc c) t \<Longrightarrow> bracketed a (CallTryAcquire a True # t @ [CallRelease a])"
  unfolding bracketed_def by (intro disjI2 exI [of _ "[]"] exI [of _ t]) simp

lemma emits_held:
  assumes "vishwa_ok (run_TestSuiteID run)" and "ee_allocator e = Some al"
  shows "emits (deferred (exec_create e ctx run device suite start) (releaseAlloc al (needed e)))
    (\<lambda>r t. body_ok e run r (CallTryAcquire (needed e) True # t))"
  unfolding deferred_def
proof (rule emits_bind [OF emits_exec_create [OF assms(1)]])
  fix r t
  assume t: "outer_ok e run VMNone r t"
  then obtain x where "r = Some x" using closes_Some [of run r t] by (auto simp: outer_ok_def)
  with t closes_ended [of run r t] assms(2) show "emits (case r of None \<Rightarrow> ret None | Some x \<Rightarrow> do { _ \<leftarrow> releaseAlloc al (needed e); ret (Some x) })
     (\<lambda>r u. body_ok e run r (CallTryAcquire (needed e) True # t @ u))"
    by (auto intro!: emits_bindI emits_calls emits_ret bracketed_held simp: outer_ok_def body_ok_def vm_step_def reg_step_def)
qed

lemma emits_exec_acquire:
  assumes "vishwa_ok (run_TestSuiteID run)"
  shows "emits (exec_acquire e ctx run device suite start) (body_ok e run)"
proof (cases "ee_allocator e")
  case None
  then show ?thesis unfolding exec_acquire_def
    by (auto intro!: emits_conseq [OF emits_exec_create [OF assms]] simp: outer_ok_def body_ok_def closes_ended)
next
  case (Some al)
  have "emits (if ok then deferred (exec_create e ctx run device suite start) (releaseAlloc al (needed e))
      else do { _ \<leftarrow> updateStatus e ctx (run_ID run) TestRunStatusPending ''waiting for resources'';
                _ \<leftarrow> resubmitLater e run; ret (Some (Ok ())) })
      (\<lambda>r u. body_ok e run r ([CallTryAcquire (needed e) ok] @ u))" for ok
    using emits_held [OF assms Some] Some
    by (cases ok) (auto intro!: emits_bindI emits_calls emits_ret bracketed_refused
        simp: body_ok_def ended_def vm_step_def reg_step_def)
  then show ?thesis using Some unfolding exec_acquire_def by (auto intro!: emits_bindI emits_calls)
qed

lemma body_fail_run: "emits (fail_run e ctx run msg err) (body_ok e run)"
  unfolding fail_run_def
  by (intro emits_bindI emits_calls emits_ret) (simp add: body_ok_def ended_def vm_step_def reg_step_def bracketed_outside)

lemma body_panic: "\<not> vishwa_ok (run_TestSuiteID run) \<Longrightarrow> emits (ret (Some (Panic p))) (body_ok e run)"
  by (intro emits_ret) (simp add: body_ok_def ended_def bracketed_outside)

lemma emits_exec_suite: "emits (exec_suite e ctx run device start) (body_ok e run)"
  unfolding exec_suite_def
proof (rule emits_bind [OF emits_loadTestSuite])
  fix r :: "TestSuite res" and t :: "call list"
  assume t: "t = [] \<and> (\<forall>s. r = Ok s \<longrightarrow> vishwa_ok (run_TestSuiteID run)) \<and> (\<forall>p. r = Panic p \<longrightarrow> \<not> vishwa_ok (run_TestSuiteID run))"
  show "emits (case r of
          Ok suite \<Rightarrow> exec_acquire e ctx run device suite start
        | Err err \<Rightarrow> fail_run e ctx run (''failed to load test suite: '' @ error_text err) (EWrap ''failed to load test suite'' err)
        | Panic p \<Rightarrow> ret (Some (Panic p))) (\<lambda>r u. body_ok e run r (t @ u))"
    using t by (cases r) (simp_all add: emits_exec_acquire body_fail_run body_panic)
qed

lemma note_outside: "list_all is_note t \<Longrightarrow> list_all (\<lambda>c. \<not> is_alloc c \<and> \<not> is_vm c) t"
  using note_step by (auto simp: list_all_iff)

lemma emits_exec_gate: "emits (exec_gate e ctx run device start) (body_ok e run)"
  unfolding exec_gate_def
  by (auto intro!: emits_exec_suite emits_bindI emits_calls emits_note emits_ret bracketed_outside
      simp: body_ok_def ended_def vm_step_def reg_step_def note_outside)

text \<open>The trace of a run: the update to RUNNING, then the body.\<close>

definition run_trace :: "'w ExecutionEngine \<Rightarrow> TestRun \<Rightarrow> outcome \<Rightarrow> call list \<Rightarrow> bool" where
  "run_trace e run r t \<longleftrightarrow> (\<exists>ctx u. 
     t = [CallUpdateStatus ctx (run_ID run) TestRunStatusRunning '''' False] \<and> (\<exists>err. r = Some (Err err)) \<or>
     t = CallUpdateStatus ctx (run_ID run) TestRunStatusRunning '''' True # u \<and> body_ok e run r u)"

lemma bracketed_pre:
  assumes "bracketed a t" and "list_all (\<lambda>c. \<not> is_alloc c \<and> \<not> is_vm c) p"
  shows "bracketed a (p @ t)"
proof -
  let ?out = "\<lambda>c. \<not> is_alloc c \<and> \<not> is_vm c"
  from assms(1) consider "list_all ?out t"
    | pre post where "t = pre @ CallTryAcquire a False # post" "list_all ?out (pre @ post)"
    | pre mid where "t = pre @ CallTryAcquire a True # mid @ [CallRelease a]" "list_all ?out pre" "list_all (\<lambda>c. \<not> is_alloc c) mid"
    unfolding bracketed_def by blast
  then show ?thesis
  proof cases
    case 1
    then show ?thesis using assms(2) by (simp add: bracketed_def)
  next
    case (2 pre post)
    then show ?thesis using assms(2) unfolding bracketed_def
      by (intro disjI2 disjI1 exI [of _ "p @ pre"] exI [of _ post]) simp
  next
    case (3 pre mid)
    then show ?thesis using assms(2) unfolding bracketed_def
      by (intro disjI2 exI [of _ "p @ pre"] exI [of _ mid]) simp
  qed
qed

lemma body_ok_pre: "list_all is_note p \<Longrightarrow> body_ok e run r t \<Longrightarrow> body_ok e run r (p @ t)"
  by (simp add: body_ok_def bracketed_pre note_outside split: if_splits)

lemma emits_executeTestRun: "emits (executeTestRun e ctx run) (run_trace e run)"
proof -
  have body: "emits (case FindDevice (ee_registry e) (run_DeviceID run) of
      Ok device \<Rightarrow> exec_gate e c run device start
    | Err err \<Rightarrow> fail_run e c run (''device not found: '' @ error_text err) (EWrap ''device lookup'' err)
    | Panic p \<Rightarrow> ret (Some (Panic p))) (body_ok e run)" for c start
    using find_device_not_Panic by (auto intro!: emits_exec_gate body_fail_run simp: FindDevice_def split: res.split)
  show ?thesis unfolding executeTestRun_def Let_def timeNow_def
  proof (intro emits_bindI emits_ask emits_calls)
    fix start and r :: "error + unit"
    let ?c = "CtxTimeout ctx (seconds (vd_TestTimeoutSeconds (gc_VMDefaults (ee_cfg e))))"
    show "emits (case r of
           Inl err \<Rightarrow> ret (Some (Err (EWrap ''updating status to RUNNING'' err)))
         | Inr _ \<Rightarrow>
             do {
               _ \<leftarrow> publish e ?c (mk_event EventTestRunStarted (run_ID run) (run_DeviceID run)
                      (run_status_str TestRunStatusRunning) []);
               (case FindDevice (ee_registry e) (run_DeviceID run) of
                  Ok device \<Rightarrow> exec_gate e ?c run device start
                | Err err \<Rightarrow> fail_run e ?c run (''device not found: '' @ error_text err) (EWrap ''device lookup'' err)
                | Panic p \<Rightarrow> ret (Some (Panic p)))
             }) (\<lambda>y u. run_trace e run y ([] @ [CallUpdateStatus ?c (run_ID run) TestRunStatusRunning '''' (sum_ok r)] @ u))"
    proof (cases r)
      case (Inl err)
      then show ?thesis by (auto intro!: emits_ret simp: run_trace_def)
    next
      case (Inr x)
      then show ?thesis
        by (auto intro!: emits_bindI emits_note emits_conseq [OF body] body_ok_pre simp: run_trace_def)
    qed
  qed
qed

subsection \<open>The order of the commands of a run\<close>

text \<open>The types of the commands sent, each with the status answered.\<close>

fun cmd_seq :: "call list \<Rightarrow> (string \<times> string option) list" where
  "cmd_seq [] = []"
| "cmd_seq (CallSendCommand _ _ cmd st # cs) = (cmd_Type cmd, st) # cmd_seq cs"
| "cmd_seq (_ # cs) = cmd_seq cs"

text \<open>
  No command; or \<open>load_driver\<close> and nothing after it unless it passed; then for a Vishwa suite
  \<open>verify_device\<close>, likewise; then only tests.
\<close>

definition after_load :: "bool \<Rightarrow> (string \<times> string option) list \<Rightarrow> bool" where
  "after_load vishwa cs \<longleftrightarrow>
     (if vishwa then (\<exists>st rest. cs = (''verify_device'', st) # rest \<and>
        (if st = Some ''passed'' then list_all (\<lambda>c. fst c = ''start_test'') rest else rest = []))
      else list_all (\<lambda>c. fst c = ''start_test'') cs)"

definition commands_ok :: "bool \<Rightarrow> (string \<times> string option) list \<Rightarrow> bool" where
  "commands_ok vishwa cs \<longleftrightarrow> cs = [] \<or> (\<exists>st rest. cs = (''load_driver'', st) # rest \<and>
     (if st = Some ''passed'' then after_load vishwa rest else rest = []))"

lemma cmd_seq_append [simp]: "cmd_seq (t @ u) = cmd_seq t @ cmd_seq u"
  by (induction t rule: cmd_seq.induct) auto

lemma cmd_seq_note [simp]: "list_all is_note t \<Longrightarrow> cmd_seq t = []"
  by (induction t rule: cmd_seq.induct) auto

lemma step_call_cmds: "list_all (is_step_call v) t \<Longrightarrow> list_all (\<lambda>c. fst c = ''start_test'') (cmd_seq t)"
  by (induction t rule: cmd_seq.induct) auto

lemma fail_run_cmds: "emits (fail_run e ctx run msg err) (\<lambda>_ t. cmd_seq t = [])"
  unfolding fail_run_def by (intro emits_steps) simp

lemma finalize_cmds: "emits (finalize e ctx run start) (\<lambda>_ t. cmd_seq t = [])"
  unfolding finalize_def Let_def by (intro emits_steps) simp

lemma exec_workflow_cmds:
  assumes "vishwa_ok (run_TestSuiteID run)"
  shows "emits (exec_workflow e ac ctx run device v suite start) (\<lambda>_ t. list_all (\<lambda>c. fst c = ''start_test'') (cmd_seq t))"
  unfolding exec_workflow_def
  by (rule emits_bind [OF emits_runWorkflow [OF assms]])
    (auto intro!: emits_ret emits_conseq [OF fail_run_cmds] emits_conseq [OF finalize_cmds]
      simp: wf_report_def dest: step_call_cmds split: option.split sum.split)

lemma command_error_None: "command_error what r = None \<longleftrightarrow> (case r of Inl _ \<Rightarrow> None | Inr a \<Rightarrow> Some (ares_Status a)) = Some ''passed''"
  by (auto simp: command_error_def split: sum.splits)

lemma exec_verify_cmds:
  assumes "vishwa_ok (run_TestSuiteID run)"
  shows "emits (exec_verify e ac ctx run device v suite start) (\<lambda>_ t. after_load (isVishwaSuite (run_TestSuiteID run)) (cmd_seq t))"
proof (cases "isVishwaSuite (run_TestSuiteID run)")
  case True
  have "emits (case command_error ''verify status: '' r of
             Some err \<Rightarrow> fail_run e ctx run (error_text err) (EText (''verifying device: '' @ error_text err))
           | None \<Rightarrow> exec_workflow e ac ctx run device v suite start)
      (\<lambda>_ u. after_load True (cmd_seq ([CallSendCommand ctx v (verify_cmd run device)
         (case r of Inl _ \<Rightarrow> None | Inr a \<Rightarrow> Some (ares_Status a))] @ u)))" for r
    by (cases "command_error ''verify status: '' r")
      (auto intro!: emits_conseq [OF fail_run_cmds] emits_conseq [OF exec_workflow_cmds [OF assms]]
        simp: command_error_None after_load_def verify_cmd_def command_error_def split: sum.splits if_splits)
  then show ?thesis using True unfolding exec_verify_def by (auto intro!: emits_bindI emits_calls)
next
  case False
  then show ?thesis using exec_workflow_cmds [OF assms] by (simp add: exec_verify_def after_load_def)
qed

lemma exec_load_cmds:
  assumes "vishwa_ok (run_TestSuiteID run)"
  shows "emits (exec_load e ac ctx run device v suite start) (\<lambda>_ t. commands_ok (isVishwaSuite (run_TestSuiteID run)) (cmd_seq t))"
proof -
  have "emits (case command_error ''driver load status: '' r of
          Some err \<Rightarrow> fail_run e ctx run (error_text err) (EText (''loading driver: '' @ error_text err))
        | None \<Rightarrow>
            do {
              _ \<leftarrow> publish e ctx (mk_event EventDriverLoaded (run_ID run) (run_DeviceID run) ''''
                     [(''module_name'', GStr (dev_DriverModule device))]);
              exec_verify e ac ctx run device v suite start
            })
      (\<lambda>_ u. commands_ok (isVishwaSuite (run_TestSuiteID run)) (cmd_seq ([CallSendCommand ctx v (load_cmd run device)
         (case r of Inl _ \<Rightarrow> None | Inr a \<Rightarrow> Some (ares_Status a))] @ u)))" for r
    by (cases "command_error ''driver load status: '' r")
      (auto intro!: emits_bindI emits_note emits_conseq [OF fail_run_cmds] emits_conseq [OF exec_verify_cmds [OF assms]]
        simp: command_error_None commands_ok_def load_cmd_def command_error_def split: sum.splits if_splits)
  then show ?thesis unfolding exec_load_def by (auto intro!: emits_bindI emits_calls)
qed

lemma exec_agent_cmds:
  assumes "vishwa_ok (run_TestSuiteID run)"
  shows "emits (exec_agent e ctx run device v suite start) (\<lambda>_ t. commands_ok (isVishwaSuite (run_TestSuiteID run)) (cmd_seq t))"
  unfolding exec_agent_def
  by (auto intro!: emits_bindI emits_calls emits_note emits_conseq [OF fail_run_cmds] emits_conseq [OF finalize_cmds]
      emits_conseq [OF exec_load_cmds [OF assms]] simp: commands_ok_def [of _ "[]"] split: option.split sum.split)

lemma exec_create_cmds:
  assumes "vishwa_ok (run_TestSuiteID run)"
  shows "emits (exec_create e ctx run device suite start) (\<lambda>_ t. commands_ok (isVishwaSuite (run_TestSuiteID run)) (cmd_seq t))"
  unfolding exec_create_def exec_start_def deferred_def teardown_def
  by (auto intro!: emits_bindI emits_calls emits_note emits_optional emits_ret emits_conseq [OF fail_run_cmds]
      emits_conseq [OF exec_agent_cmds] simp: assms commands_ok_def [of _ "[]"] split: option.split sum.split)

lemma executeTestRun_cmds:
  "emits (executeTestRun e ctx run) (\<lambda>_ t. commands_ok (isVishwaSuite (run_TestSuiteID run)) (cmd_seq t))"
  unfolding executeTestRun_def exec_gate_def exec_suite_def exec_acquire_def deferred_def Let_def
  by (auto intro!: emits_bindI emits_calls emits_note emits_ret emits_conseq [OF fail_run_cmds]
      emits_conseq [OF emits_loadTestSuite] emits_conseq [OF exec_create_cmds]
      simp: commands_ok_def [of _ "[]"] split: option.split sum.split res.split)

lemma run_trace_bracketed:
  assumes "run_trace e run r t" and "ee_allocator e \<noteq> None"
  shows "bracketed (needed e) t"
  using assms bracketed_pre [of "needed e" "tl t" "[hd t]"] by (auto simp: run_trace_def body_ok_def bracketed_outside)

subsection \<open>Properties\<close>



text \<open>
  C6: the status protocol, and that a run always ends. Every run first sets RUNNING; when the
  store refuses, it returns that error. Otherwise it makes exactly one more status update, to
  ERRORED when it returns an error and to PASSED, FAILED, PENDING or CANCELLED when it does not; the
  only exception is the panic on a Vishwa suite ID without a path.
\<close>

theorem engine_status_protocol:
  "emits (executeTestRun e ctx run)
     (\<lambda>r t. status_calls t = [(run_ID run, TestRunStatusRunning, False)] \<and> (\<exists>err. r = Some (Err err)) \<or>
        (\<exists>ss. status_calls t = (run_ID run, TestRunStatusRunning, True) # ss \<and> ended run r ss))"
  by (rule emits_conseq [OF emits_executeTestRun]) (auto simp: run_trace_def body_ok_def)

text \<open>
  C9: tests run on a loaded driver. The first command of a run is \<open>load_driver\<close>, and nothing follows
  it unless it was answered \<open>passed\<close>; a Vishwa suite then verifies the device, likewise; all
  further commands are \<open>start_test\<close>.
\<close>

theorem engine_driver_first:
  "emits (executeTestRun e ctx run) (\<lambda>r t. commands_ok (isVishwaSuite (run_TestSuiteID run)) (cmd_seq t))"
  by (rule executeTestRun_cmds)

subsection \<open>Lost answers and retries\<close>

text \<open>A store that only keeps the saved results.\<close>

definition recording_store :: "TestResult list EngineStore" where
  "recording_store = \<lparr>st_UpdateTestRunStatus = (\<lambda>_ _ _ _ w. (Inr (), w)),
     st_GetTestResults = (\<lambda>_ _ w. (Inr w, w)), st_SaveTestResult = (\<lambda>_ r w. (Inr (), w @ [r]))\<rparr>"

definition recording_engine :: "(string \<Rightarrow> error + AgentResult) \<Rightarrow> TestResult list ExecutionEngine" where
  "recording_engine ans = (scripted_engine ans)\<lparr>ee_store := recording_store\<rparr>"

text \<open>What an action returns, the commands it sends, the statuses it sets, and the world it leaves.\<close>

definition observe :: "('w, 'a) act \<Rightarrow> 'w \<Rightarrow> 'a \<times> (string \<times> string option) list \<times> (string \<times> TestRunStatus \<times> bool) list \<times> 'w" where
  "observe m w = (case run_state m \<lparr>es_calls = [], es_world = w\<rparr> of
     (r, s) \<Rightarrow> (r, sends (es_calls s), status_calls (es_calls s), es_world s))"

abbreviation tests_loop :: "(string \<Rightarrow> error + AgentResult) \<Rightarrow> (TestResult list, (error + unit) option) act" where
  "tests_loop ans \<equiv> runWorkflow (recording_engine ans) (scripted_agent ans) CtxEngine dvf_run example_device ''vm-1'' example_suite"

abbreviation tests_phase :: "(string \<Rightarrow> error + AgentResult) \<Rightarrow> (TestResult list, outcome) act" where
  "tests_phase ans \<equiv> exec_workflow (recording_engine ans) (scripted_agent ans) CtxEngine dvf_run example_device ''vm-1'' example_suite 0"

lemma observe_phase:
  assumes "observe (tests_loop ans) w = (Some r, cs, [], w')" and "r = Inr () \<or> (\<exists>f k. r = Inl (EWorkflowFailed f k))"
  shows "observe (tests_phase ans) w = (Some (Ok ()), cs, [(''r1'', final_status w', True)], w')"
proof -
  obtain s where s: "run_state (tests_loop ans) \<lparr>es_calls = [], es_world = w\<rparr> = (Some r, s)"
    "sends (es_calls s) = cs" "status_calls (es_calls s) = []" "es_world s = w'"
    using assms(1) by (auto simp: observe_def split: prod.splits)
  have "run_state (tests_phase ans) \<lparr>es_calls = [], es_world = w\<rparr> = run_state (finalize (recording_engine ans) CtxEngine dvf_run 0) s"
    using s(1) assms(2) by (auto simp: exec_workflow_def)
  with s(2-4) show ?thesis
    by (simp add: observe_def finalize_def Let_def getResults_def updateStatus_def timeNow_def ask_def publish_def audit_def perform_def ret_def
        recording_engine_def scripted_engine_def recording_store_def scripted_runtime_def vishwa_run_def)
qed

text \<open>The connection to the agent is lost on every attempt; or the first attempt fails and its retry passes.\<close>

definition lost_test :: "string \<Rightarrow> error + AgentResult" where
  "lost_test i = Inl (EText ''connection lost'')"

definition retried_test :: "string \<Rightarrow> error + AgentResult" where
  "retried_test i = Inr (if i = ''cmd-step-r1-a-0'' then answer ''failed'' ''x'' else answer ''passed'' '''')"



end
