(* ===== verification/Memory_Store.thy ===== *)
theory Memory_Store
  imports Core_Types
begin

text \<open>
  The in-memory store, \<open>internal/storage/memory.go\<close>. Every operation runs under the store's
  lock, so a concurrent history is a sequence of the operations below. The maps hold pointers to
  copies the store owns and hands out copies, so values suffice. Operations that call
  \<open>time.Now()\<close> take the instant as their first argument; operations that range over a map
  take the visiting order \<open>ks\<close>.

  The locale \<open>run_store\<close> states what the execution engine relies on (\<open>EngineStore\<close> in
  \<open>execution_engine.go\<close>); it is interpreted on this store. The properties cover the
  freshness of generated IDs, create/get and save/get round trips, the time stamps of a status
  change, and what the listing operations return.
\<close>

subsection \<open>State and operations\<close>

record MemoryStore =
  ms_testRuns :: "(string, TestRun) gomap"
  ms_testResults :: "(string, TestResult list) gomap"
  ms_vms :: "(string, VMInstance) gomap"
  ms_counter :: int

definition NewMemoryStore :: MemoryStore where
  "NewMemoryStore = \<lparr>ms_testRuns = [], ms_testResults = [], ms_vms = [], ms_counter = 0\<rparr>"

definition nextID :: "MemoryStore \<Rightarrow> string \<Rightarrow> string \<times> MemoryStore" where
  "nextID m pref =
     (let c = wrap64 (ms_counter m + 1) in (pref @ ''-'' @ itoa c, m\<lparr>ms_counter := c\<rparr>))"

definition CreateTestRun :: "int \<Rightarrow> MemoryStore \<Rightarrow> TestRun \<Rightarrow> TestRun \<times> MemoryStore" where
  "CreateTestRun now m run =
     (let (i, m1) = nextID m ''tr'';
          run1 = run\<lparr>run_ID := i, run_CreatedAt := now,
                     run_Status := (if run_Status run = TestRunStatusUnset then TestRunStatusPending
                                    else run_Status run)\<rparr>
      in (run1, m1\<lparr>ms_testRuns := gput i run1 (ms_testRuns m1)\<rparr>))"

definition GetTestRun :: "MemoryStore \<Rightarrow> string \<Rightarrow> TestRun res" where
  "GetTestRun m i = (case map_of (ms_testRuns m) i of None \<Rightarrow> Err (ERunNotFound i) | Some run \<Rightarrow> Ok run)"

text \<open>The changes \<open>UpdateTestRunStatus\<close> makes to the stored run.\<close>

definition stamp_status :: "int \<Rightarrow> TestRunStatus \<Rightarrow> string \<Rightarrow> TestRun \<Rightarrow> TestRun" where
  "stamp_status now status errMsg run =
     (let run1 = run\<lparr>run_Status := status,
                     run_ErrorMessage := (if errMsg \<noteq> '''' then errMsg else run_ErrorMessage run)\<rparr>
      in if status = TestRunStatusRunning then run1\<lparr>run_StartedAt := Some now\<rparr>
         else if run_terminal status
           then run1\<lparr>run_CompletedAt := Some now,
                     run_DurationMs := (case run_StartedAt run of
                                          None \<Rightarrow> run_DurationMs run
                                        | Some t \<Rightarrow> milliseconds (time_sub now t))\<rparr>
         else run1)"

definition UpdateTestRunStatus :: "int \<Rightarrow> MemoryStore \<Rightarrow> string \<Rightarrow> TestRunStatus \<Rightarrow> string \<Rightarrow> MemoryStore res" where
  "UpdateTestRunStatus now m i status errMsg =
     (case map_of (ms_testRuns m) i of
        None \<Rightarrow> Err (ERunNotFound i)
      | Some run \<Rightarrow> Ok (m\<lparr>ms_testRuns := gput i (stamp_status now status errMsg run) (ms_testRuns m)\<rparr>))"

fun select_runs :: "ListTestRunsRequest \<Rightarrow> (string, TestRun) gomap \<Rightarrow> string list \<Rightarrow> TestRun list" where
  "select_runs req m [] = []"
| "select_runs req m (k # ks) =
     (case map_of m k of
        None \<Rightarrow> select_runs req m ks
      | Some run \<Rightarrow>
          if lr_DeviceID req \<noteq> '''' \<and> run_DeviceID run \<noteq> lr_DeviceID req then select_runs req m ks
          else if lr_Status req \<noteq> TestRunStatusUnset \<and> run_Status run \<noteq> lr_Status req then select_runs req m ks
          else run # select_runs req m ks)"

text \<open>The slicing at the end of \<open>ListTestRuns\<close>.\<close>

definition page :: "int \<Rightarrow> int \<Rightarrow> 'a list \<Rightarrow> 'a list" where
  "page offset limit results =
     (let results1 = (if offset > 0 \<and> offset < int (length results) then drop (nat offset) results else results)
      in if limit > 0 \<and> limit < int (length results1) then take (nat limit) results1 else results1)"

definition ListTestRuns :: "MemoryStore \<Rightarrow> string list \<Rightarrow> ListTestRunsRequest \<Rightarrow> TestRun list" where
  "ListTestRuns m ks req = page (lr_Offset req) (lr_Limit req) (select_runs req (ms_testRuns m) ks)"

definition in_flight :: "TestRunStatus \<Rightarrow> bool" where
  "in_flight st \<longleftrightarrow> st = TestRunStatusRunning \<or> st = TestRunStatusQueued \<or> st = TestRunStatusPending"

fun pick :: "('v \<Rightarrow> bool) \<Rightarrow> (string, 'v) gomap \<Rightarrow> string list \<Rightarrow> 'v list" where
  "pick P m [] = []"
| "pick P m (k # ks) =
     (case map_of m k of None \<Rightarrow> pick P m ks
      | Some v \<Rightarrow> if P v then v # pick P m ks else pick P m ks)"

definition ListRunningTestRuns :: "MemoryStore \<Rightarrow> string list \<Rightarrow> TestRun list" where
  "ListRunningTestRuns m ks = pick (\<lambda>r. in_flight (run_Status r)) (ms_testRuns m) ks"

definition SaveTestResult :: "MemoryStore \<Rightarrow> TestResult \<Rightarrow> TestResult \<times> MemoryStore" where
  "SaveTestResult m result =
     (let (i, m1) = (if tres_ID result = '''' then nextID m ''tres'' else (tres_ID result, m));
          result1 = result\<lparr>tres_ID := i\<rparr>
      in (result1, m1\<lparr>ms_testResults :=
            gput (tres_TestRunID result) (gslice (ms_testResults m1) (tres_TestRunID result) @ [result1])
              (ms_testResults m1)\<rparr>))"

definition GetTestResults :: "MemoryStore \<Rightarrow> string \<Rightarrow> TestResult list" where
  "GetTestResults m runID = gslice (ms_testResults m) runID"

definition SaveVM :: "MemoryStore \<Rightarrow> VMInstance \<Rightarrow> VMInstance \<times> MemoryStore" where
  "SaveVM m vm =
     (let (i, m1) = (if vm_ID vm = '''' then nextID m ''vm'' else (vm_ID vm, m));
          vm1 = vm\<lparr>vm_ID := i\<rparr>
      in (vm1, m1\<lparr>ms_vms := gput i vm1 (ms_vms m1)\<rparr>))"

definition GetVM :: "MemoryStore \<Rightarrow> string \<Rightarrow> VMInstance res" where
  "GetVM m i = (case map_of (ms_vms m) i of None \<Rightarrow> Err (EVMNotFound i) | Some vm \<Rightarrow> Ok vm)"

definition UpdateVMStatus :: "MemoryStore \<Rightarrow> string \<Rightarrow> VMStatus \<Rightarrow> MemoryStore res" where
  "UpdateVMStatus m i status =
     (case map_of (ms_vms m) i of
        None \<Rightarrow> Err (EVMNotFound i)
      | Some vm \<Rightarrow> Ok (m\<lparr>ms_vms := gput i (vm\<lparr>vm_Status := status\<rparr>) (ms_vms m)\<rparr>))"

definition ListVMs :: "MemoryStore \<Rightarrow> string list \<Rightarrow> ListVMsRequest \<Rightarrow> VMInstance list" where
  "ListVMs m ks req =
     pick (\<lambda>vm. (lv_Status req = VMStatusUnset \<or> vm_Status vm = lv_Status req) \<and>
                (lv_DeviceID req = '''' \<or> vm_DeviceID vm = lv_DeviceID req)) (ms_vms m) ks"

definition orphaned :: "VMStatus \<Rightarrow> bool" where
  "orphaned st \<longleftrightarrow> st = VMStatusCreating \<or> st = VMStatusBooting \<or> st = VMStatusRunningTest"

definition ListOrphanedVMs :: "MemoryStore \<Rightarrow> string list \<Rightarrow> VMInstance list" where
  "ListOrphanedVMs m ks = pick (\<lambda>vm. orphaned (vm_Status vm)) (ms_vms m) ks"

definition DeleteVM :: "MemoryStore \<Rightarrow> string \<Rightarrow> MemoryStore res" where
  "DeleteVM m i =
     (if map_of (ms_vms m) i = None then Err (EVMNotFound i) else Ok (m\<lparr>ms_vms := gdel i (ms_vms m)\<rparr>))"

definition Ping :: "MemoryStore \<Rightarrow> unit res" where
  "Ping m = Ok ()"

definition CloseStore :: "MemoryStore \<Rightarrow> unit res" where
  "CloseStore m = Ok ()"

subsection \<open>Invariant and histories\<close>

text \<open>
  Every entry is stored under its own ID; the runs have IDs the counter has passed; results are
  filed under their run and carry an ID.
\<close>

definition runs_ok :: "int \<Rightarrow> (string, TestRun) gomap \<Rightarrow> bool" where
  "runs_ok c runs \<longleftrightarrow> distinct (gkeys runs) \<and>
     (\<forall>(i, run) \<in> set runs. run_ID run = i \<and> run_Status run \<noteq> TestRunStatusUnset \<and>
        (\<exists>n. 0 < n \<and> n \<le> c \<and> i = ''tr-'' @ itoa n))"

definition vms_ok :: "(string, VMInstance) gomap \<Rightarrow> bool" where
  "vms_ok vms \<longleftrightarrow> distinct (gkeys vms) \<and> (\<forall>(i, vm) \<in> set vms. vm_ID vm = i \<and> i \<noteq> '''')"

definition results_ok :: "(string, TestResult list) gomap \<Rightarrow> bool" where
  "results_ok results \<longleftrightarrow>
     (\<forall>i. \<forall>r \<in> set (gslice results i). tres_TestRunID r = i \<and> tres_ID r \<noteq> '''')"

definition ms_inv :: "MemoryStore \<Rightarrow> bool" where
  "ms_inv m \<longleftrightarrow> 0 \<le> ms_counter m \<and> runs_ok (ms_counter m) (ms_testRuns m) \<and> vms_ok (ms_vms m) \<and>
     results_ok (ms_testResults m)"

datatype store_op =
    OpCreateTestRun int TestRun
  | OpUpdateTestRunStatus int string TestRunStatus string
  | OpSaveTestResult TestResult
  | OpSaveVM VMInstance
  | OpUpdateVMStatus string VMStatus
  | OpDeleteVM string

fun op_valid :: "store_op \<Rightarrow> bool" where
  "op_valid (OpUpdateTestRunStatus _ _ st _) = (st \<noteq> TestRunStatusUnset)"
| "op_valid _ = True"

definition res_or :: "'a res \<Rightarrow> 'a \<Rightarrow> 'a" where
  "res_or r x = (case r of Ok y \<Rightarrow> y | _ \<Rightarrow> x)"

fun store_step :: "MemoryStore \<Rightarrow> store_op \<Rightarrow> MemoryStore" where
  "store_step m (OpCreateTestRun now run) = snd (CreateTestRun now m run)"
| "store_step m (OpUpdateTestRunStatus now i st e) = res_or (UpdateTestRunStatus now m i st e) m"
| "store_step m (OpSaveTestResult r) = snd (SaveTestResult m r)"
| "store_step m (OpSaveVM vm) = snd (SaveVM m vm)"
| "store_step m (OpUpdateVMStatus i st) = res_or (UpdateVMStatus m i st) m"
| "store_step m (OpDeleteVM i) = res_or (DeleteVM m i) m"

subsection \<open>The contract with the engine\<close>

text \<open>
  \<open>status_in\<close> and \<open>results_in\<close> observe a store; \<open>upd\<close>, \<open>save\<close> and \<open>get\<close> are the
  three operations of \<open>EngineStore\<close>. The laws: an update of a known run succeeds and changes
  the status of that run only; a saved result is appended to the results of its run; reading the
  results changes nothing.
\<close>

locale run_store =
  fixes status_in :: "'s \<Rightarrow> string \<Rightarrow> TestRunStatus option"
    and results_in :: "'s \<Rightarrow> string \<Rightarrow> TestResult list"
    and upd :: "string \<Rightarrow> TestRunStatus \<Rightarrow> string \<Rightarrow> 's \<Rightarrow> (error + unit) \<times> 's"
    and save :: "TestResult \<Rightarrow> 's \<Rightarrow> (error + unit) \<times> 's"
    and get_results :: "string \<Rightarrow> 's \<Rightarrow> (error + TestResult list) \<times> 's"
  assumes upd_known: "status_in s i \<noteq> None \<Longrightarrow>
      fst (upd i st e s) = Inr () \<and> status_in (snd (upd i st e s)) = (status_in s)(i \<mapsto> st) \<and>
      results_in (snd (upd i st e s)) = results_in s"
    and upd_unknown: "status_in s i = None \<Longrightarrow>
      fst (upd i st e s) \<noteq> Inr () \<and> status_in (snd (upd i st e s)) = status_in s \<and>
      results_in (snd (upd i st e s)) = results_in s"
    and save_law: "fst (save r s) = Inr () \<and> status_in (snd (save r s)) = status_in s \<and>
      map tres_Status (results_in (snd (save r s)) i) =
        map tres_Status (results_in s i @ (if i = tres_TestRunID r then [r] else []))"
    and get_law: "get_results i s = (Inr (results_in s i), s)"
begin

text \<open>Saving a batch of results for one run, whatever the outcomes are used for.\<close>

fun save_all :: "TestResult list \<Rightarrow> 's \<Rightarrow> 's" where
  "save_all [] s = s"
| "save_all (r # rs) s = save_all rs (snd (save r s))"

lemma save_all_status: "status_in (save_all rs s) = status_in s"
  by (induction rs s rule: save_all.induct) (use save_law in auto)

lemma save_all_results:
  "\<forall>r \<in> set rs. tres_TestRunID r = i \<Longrightarrow>
    map tres_Status (results_in (save_all rs s) i) = map tres_Status (results_in s i @ rs)"
  by (induction rs s rule: save_all.induct) (use save_law in auto)

end

subsection \<open>Lemmas\<close>

lemma pick_filter: "pick P m ks = filter P (List.map_filter (map_of m) ks)"
  by (induction ks) (auto simp: List.map_filter_def split: option.splits)

lemma set_pick: "set ks = dom (map_of m) \<Longrightarrow> set (pick P m ks) = {v. \<exists>k. map_of m k = Some v \<and> P v}"
  by (force simp: pick_filter List.map_filter_def dom_def)

definition run_matches :: "ListTestRunsRequest \<Rightarrow> TestRun \<Rightarrow> bool" where
  "run_matches req run \<longleftrightarrow> (lr_DeviceID req = '''' \<or> run_DeviceID run = lr_DeviceID req) \<and>
     (lr_Status req = TestRunStatusUnset \<or> run_Status run = lr_Status req)"

lemma select_runs_pick: "select_runs req m ks = pick (run_matches req) m ks"
  by (induction ks) (auto simp: run_matches_def split: option.splits)

lemma distinct_pick:
  assumes "distinct ks" and "\<And>k v. map_of m k = Some v \<Longrightarrow> key v = k"
  shows "distinct (map key (pick P m ks))"
  using assms(1)
proof (induction ks)
  case (Cons k ks)
  have "key ` set (pick P m ks) \<subseteq> set ks" using assms(2)
    by (induction ks) (auto split: option.splits if_splits)
  with Cons assms(2) [of k] show ?case by (auto split: option.splits)
qed simp

lemma nextID_fresh:
  assumes "0 \<le> ms_counter m" and "ms_counter m < 2 ^ 63 - 1"
  shows "nextID m p = (p @ ''-'' @ itoa (ms_counter m + 1), m\<lparr>ms_counter := ms_counter m + 1\<rparr>)"
  using assms by (simp add: nextID_def in_int64_def Let_def)

lemma stamp_status_fields [simp]:
  "run_ID (stamp_status now st e run) = run_ID run"
  "run_Status (stamp_status now st e run) = st"
  by (auto simp: stamp_status_def Let_def)

lemma UpdateTestRunStatus_Ok: "UpdateTestRunStatus now m i st e = Ok m' \<longleftrightarrow>
  (\<exists>run. map_of (ms_testRuns m) i = Some run \<and>
    m' = m\<lparr>ms_testRuns := gput i (stamp_status now st e run) (ms_testRuns m)\<rparr>)"
  by (auto simp: UpdateTestRunStatus_def split: option.splits)

lemma runs_okD:
  assumes "runs_ok c runs" and "map_of runs i = Some run"
  shows "run_ID run = i" and "run_Status run \<noteq> TestRunStatusUnset"
    and "\<exists>n. 0 < n \<and> n \<le> c \<and> i = ''tr-'' @ itoa n"
  using assms(1) map_of_SomeD [OF assms(2)] unfolding runs_ok_def by blast+

lemma set_gput_cases: "x \<in> set (gput k v m) \<Longrightarrow> x = (k, v) \<or> x \<in> set m"
  by (induction m) (auto split: if_splits)

lemma runs_ok_mono: "runs_ok c runs \<Longrightarrow> c \<le> c' \<Longrightarrow> runs_ok c' runs"
  unfolding runs_ok_def by (fastforce intro: order_trans)

lemma runs_ok_gput:
  assumes "runs_ok c runs" and "run_ID run = i" and "run_Status run \<noteq> TestRunStatusUnset"
    and "\<exists>n. 0 < n \<and> n \<le> c \<and> i = ''tr-'' @ itoa n"
  shows "runs_ok c (gput i run runs)"
  using assms unfolding runs_ok_def by (auto dest!: set_gput_cases)

lemma vms_okD: "vms_ok vms \<Longrightarrow> map_of vms i = Some vm \<Longrightarrow> vm_ID vm = i \<and> i \<noteq> ''''"
  unfolding vms_ok_def using map_of_SomeD by fast

lemma vms_ok_gput: "vms_ok vms \<Longrightarrow> vm_ID vm = i \<Longrightarrow> i \<noteq> '''' \<Longrightarrow> vms_ok (gput i vm vms)"
  unfolding vms_ok_def by (auto dest!: set_gput_cases)

lemma set_delete_subset: "set (gdel k m) \<subseteq> set m"
  by (auto simp: AList.delete_eq)

lemma vms_ok_gdel: "vms_ok vms \<Longrightarrow> vms_ok (gdel i vms)"
  unfolding vms_ok_def using distinct_gdel [of vms i] set_delete_subset [of i vms] by blast

lemma results_ok_append:
  "results_ok results \<Longrightarrow> tres_TestRunID r = i \<Longrightarrow> tres_ID r \<noteq> '''' \<Longrightarrow>
    results_ok (gput i (gslice results i @ [r]) results)"
  by (simp add: results_ok_def)

lemma fresh_run_id:
  assumes "runs_ok c runs"
  shows "map_of runs (''tr-'' @ itoa (c + 1)) = None"
proof (rule ccontr)
  assume "map_of runs (''tr-'' @ itoa (c + 1)) \<noteq> None"
  then obtain n where "n \<le> c" and "''tr-'' @ itoa (c + 1) = ''tr-'' @ itoa n"
    using runs_okD(3) [OF assms] by blast
  then show False by simp
qed

lemma GetTestRun_Ok: "GetTestRun m i = Ok run \<longleftrightarrow> map_of (ms_testRuns m) i = Some run"
  by (auto simp: GetTestRun_def split: option.splits)

lemma ms_inv_new [inv_intros]: "ms_inv NewMemoryStore"
  by (simp add: ms_inv_def NewMemoryStore_def runs_ok_def vms_ok_def results_ok_def)

lemma ms_inv_counter:
  "ms_inv m \<Longrightarrow> ms_inv (m\<lparr>ms_counter := ms_counter m + 1\<rparr>)"
  by (auto simp: ms_inv_def intro: runs_ok_mono)

lemma CreateTestRun_eq:
  assumes "ms_inv m" and "ms_counter m < 2 ^ 63 - 1"
  shows "CreateTestRun now m run =
    (let run1 = run\<lparr>run_ID := ''tr-'' @ itoa (ms_counter m + 1), run_CreatedAt := now,
                    run_Status := (if run_Status run = TestRunStatusUnset then TestRunStatusPending
                                   else run_Status run)\<rparr>
     in (run1, m\<lparr>ms_counter := ms_counter m + 1,
                 ms_testRuns := gput (run_ID run1) run1 (ms_testRuns m)\<rparr>))"
  using assms by (simp add: CreateTestRun_def nextID_fresh ms_inv_def Let_def)

lemma ms_inv_create [inv_intros]:
  assumes "ms_inv m" and "ms_counter m < 2 ^ 63 - 1"
  shows "ms_inv (snd (CreateTestRun now m run))"
proof -
  let ?i = "''tr-'' @ itoa (ms_counter m + 1)"
  let ?run = "run\<lparr>run_ID := ?i, run_CreatedAt := now,
    run_Status := (if run_Status run = TestRunStatusUnset then TestRunStatusPending else run_Status run)\<rparr>"
  have "runs_ok (ms_counter m + 1) (gput ?i ?run (ms_testRuns m))"
  proof (rule runs_ok_gput)
    show "runs_ok (ms_counter m + 1) (ms_testRuns m)"
      using assms(1) by (auto simp: ms_inv_def intro: runs_ok_mono)
    show "\<exists>n. 0 < n \<and> n \<le> ms_counter m + 1 \<and> ?i = ''tr-'' @ itoa n"
      using assms(1) by (intro exI [where x = "ms_counter m + 1"]) (simp add: ms_inv_def)
  qed simp_all
  with assms show ?thesis by (simp add: CreateTestRun_eq Let_def) (simp add: ms_inv_def split: if_splits)
qed

lemma ms_inv_update [inv_intros]:
  assumes "ms_inv m" and "UpdateTestRunStatus now m i st e = Ok m'" and "st \<noteq> TestRunStatusUnset"
  shows "ms_inv m'"
proof -
  from assms(2) obtain run where run: "map_of (ms_testRuns m) i = Some run"
    and m': "m' = m\<lparr>ms_testRuns := gput i (stamp_status now st e run) (ms_testRuns m)\<rparr>"
    by (auto simp: UpdateTestRunStatus_Ok)
  from assms(1) have r: "runs_ok (ms_counter m) (ms_testRuns m)" by (simp add: ms_inv_def)
  have "runs_ok (ms_counter m) (gput i (stamp_status now st e run) (ms_testRuns m))"
    using runs_okD [OF r run] assms(3) by (intro runs_ok_gput [OF r]) simp_all
  with assms(1) show ?thesis unfolding m' by (simp add: ms_inv_def)
qed

lemma ms_inv_save_result [inv_intros]:
  assumes "ms_inv m" and "ms_counter m < 2 ^ 63 - 1"
  shows "ms_inv (snd (SaveTestResult m r))"
proof (cases "tres_ID r = ''''")
  case True
  have "0 \<le> ms_counter m" using assms(1) by (simp add: ms_inv_def)
  with True assms(2) have "snd (SaveTestResult m r) = (m\<lparr>ms_counter := ms_counter m + 1\<rparr>)\<lparr>ms_testResults :=
     gput (tres_TestRunID r) (gslice (ms_testResults m) (tres_TestRunID r) @
       [r\<lparr>tres_ID := ''tres-'' @ itoa (ms_counter m + 1)\<rparr>]) (ms_testResults m)\<rparr>"
    by (simp add: SaveTestResult_def nextID_fresh Let_def)
  with ms_inv_counter [OF assms(1)] show ?thesis by (auto simp: ms_inv_def intro: results_ok_append)
next
  case False
  with assms(1) show ?thesis
    by (auto simp: SaveTestResult_def Let_def ms_inv_def intro: results_ok_append)
qed

lemma ms_inv_save_vm [inv_intros]:
  assumes "ms_inv m" and "ms_counter m < 2 ^ 63 - 1"
  shows "ms_inv (snd (SaveVM m vm))"
proof (cases "vm_ID vm = ''''")
  case True
  have "0 \<le> ms_counter m" using assms(1) by (simp add: ms_inv_def)
  with True assms(2) have "snd (SaveVM m vm) = (m\<lparr>ms_counter := ms_counter m + 1\<rparr>)\<lparr>ms_vms :=
     gput (''vm-'' @ itoa (ms_counter m + 1)) (vm\<lparr>vm_ID := ''vm-'' @ itoa (ms_counter m + 1)\<rparr>) (ms_vms m)\<rparr>"
    by (simp add: SaveVM_def nextID_fresh Let_def)
  with ms_inv_counter [OF assms(1)] show ?thesis by (auto simp: ms_inv_def intro: vms_ok_gput)
next
  case False
  with assms(1) show ?thesis by (auto simp: SaveVM_def Let_def ms_inv_def intro: vms_ok_gput)
qed

lemma ms_inv_vm_status [inv_intros]: "ms_inv m \<Longrightarrow> UpdateVMStatus m i st = Ok m' \<Longrightarrow> ms_inv m'"
  using vms_okD [of "ms_vms m" i]
  by (auto simp: UpdateVMStatus_def ms_inv_def intro!: vms_ok_gput split: option.splits)

lemma ms_inv_delete [inv_intros]: "ms_inv m \<Longrightarrow> DeleteVM m i = Ok m' \<Longrightarrow> ms_inv m'"
  by (auto simp: DeleteVM_def ms_inv_def intro: vms_ok_gdel split: if_splits)

lemma ms_inv_step:
  assumes "ms_inv m" and "ms_counter m < 2 ^ 63 - 1" and "op_valid op"
  shows "ms_inv (store_step m op)"
  using assms by (cases op) (auto simp: res_or_def intro: inv_intros split: res.splits)

lemma store_step_counter:
  assumes "ms_inv m" and "ms_counter m < 2 ^ 63 - 1"
  shows "ms_counter (store_step m op) \<le> ms_counter m + 1"
proof -
  have c: "0 \<le> ms_counter m" using assms(1) by (simp add: ms_inv_def)
  show ?thesis
    using assms c by (cases op) (auto simp: res_or_def CreateTestRun_def SaveTestResult_def SaveVM_def UpdateTestRunStatus_def
      UpdateVMStatus_def DeleteVM_def nextID_fresh Let_def split: option.splits)
qed

lemma ms_inv_steps:
  "ms_inv m \<Longrightarrow> ms_counter m + int (length ops) < 2 ^ 63 \<Longrightarrow> \<forall>op \<in> set ops. op_valid op \<Longrightarrow>
    ms_inv (foldl store_step m ops)"
proof (induction ops arbitrary: m)
  case (Cons op ops)
  then have b: "ms_counter m < 2 ^ 63 - 1" by simp
  from Cons.prems b have "ms_inv (store_step m op)" by (intro ms_inv_step) auto
  moreover have "ms_counter (store_step m op) + int (length ops) < 2 ^ 63"
    using store_step_counter [OF Cons.prems(1) b, of op] Cons.prems(2) by simp
  ultimately show ?case using Cons by simp
qed simp

subsection \<open>The store as an \<open>EngineStore\<close>\<close>

text \<open>The store next to a clock: \<open>time.Now()\<close> reads \<open>t\<close>, and \<open>tick\<close> moves it on.\<close>

definition mem_upd :: "(int \<Rightarrow> int) \<Rightarrow> string \<Rightarrow> TestRunStatus \<Rightarrow> string \<Rightarrow> MemoryStore \<times> int \<Rightarrow> (error + unit) \<times> MemoryStore \<times> int" where
  "mem_upd tick i st e s = (case s of (m, t) \<Rightarrow>
     (let r = UpdateTestRunStatus t m i st e
      in (case to_sum r of Inl x \<Rightarrow> Inl x | Inr _ \<Rightarrow> Inr (), res_or r m, tick t)))"

definition mem_save :: "TestResult \<Rightarrow> MemoryStore \<times> int \<Rightarrow> (error + unit) \<times> MemoryStore \<times> int" where
  "mem_save r s = (case s of (m, t) \<Rightarrow> (Inr (), snd (SaveTestResult m r), t))"

definition mem_get :: "string \<Rightarrow> MemoryStore \<times> int \<Rightarrow> (error + TestResult list) \<times> MemoryStore \<times> int" where
  "mem_get i s = (Inr (GetTestResults (fst s) i), s)"

definition mem_status :: "MemoryStore \<times> int \<Rightarrow> string \<Rightarrow> TestRunStatus option" where
  "mem_status s i = map_option run_Status (map_of (ms_testRuns (fst s)) i)"

definition mem_results :: "MemoryStore \<times> int \<Rightarrow> string \<Rightarrow> TestResult list" where
  "mem_results s i = GetTestResults (fst s) i"

lemma SaveTestResult_results:
  "map tres_Status (GetTestResults (snd (SaveTestResult m r)) i) =
     map tres_Status (GetTestResults m i @ (if i = tres_TestRunID r then [r] else []))"
  by (simp add: SaveTestResult_def GetTestResults_def nextID_def Let_def)

lemma SaveTestResult_runs: "ms_testRuns (snd (SaveTestResult m r)) = ms_testRuns m"
  by (simp add: SaveTestResult_def nextID_def Let_def)

interpretation mem: run_store mem_status mem_results "mem_upd tick" mem_save mem_get for tick
proof
  fix s :: "MemoryStore \<times> int" and i st e
  assume "mem_status s i \<noteq> None"
  then show "fst (mem_upd tick i st e s) = Inr () \<and>
      mem_status (snd (mem_upd tick i st e s)) = (mem_status s)(i \<mapsto> st) \<and>
      mem_results (snd (mem_upd tick i st e s)) = mem_results s"
    by (auto simp: mem_status_def mem_upd_def mem_results_def GetTestResults_def UpdateTestRunStatus_def
        res_or_def Let_def fun_eq_iff split: prod.splits)
next
  fix s :: "MemoryStore \<times> int" and i st e
  assume "mem_status s i = None"
  then show "fst (mem_upd tick i st e s) \<noteq> Inr () \<and>
      mem_status (snd (mem_upd tick i st e s)) = mem_status s \<and>
      mem_results (snd (mem_upd tick i st e s)) = mem_results s"
    by (auto simp: mem_status_def mem_upd_def mem_results_def GetTestResults_def UpdateTestRunStatus_def
        res_or_def Let_def fun_eq_iff split: prod.splits)
next
  fix s :: "MemoryStore \<times> int" and r i
  show "fst (mem_save r s) = Inr () \<and> mem_status (snd (mem_save r s)) = mem_status s \<and>
      map tres_Status (mem_results (snd (mem_save r s)) i) =
        map tres_Status (mem_results s i @ (if i = tres_TestRunID r then [r] else []))"
    by (cases s) (simp add: mem_save_def mem_status_def mem_results_def SaveTestResult_results SaveTestResult_runs fun_eq_iff)
next
  fix s :: "MemoryStore \<times> int" and i
  show "mem_get i s = (Inr (mem_results s i), s)" by (simp add: mem_get_def mem_results_def)
qed

subsection \<open>Pages\<close>

lemma page_set: "set (page ofs lmt xs) \<subseteq> set xs"
  by (auto simp: page_def Let_def dest: in_set_takeD in_set_dropD split: if_splits)

lemma page_distinct: "distinct (map f xs) \<Longrightarrow> distinct (map f (page ofs lmt xs))"
  by (auto simp: page_def Let_def distinct_map dest: in_set_takeD in_set_dropD intro: inj_on_subset)

lemma page_limit: "0 < lmt \<Longrightarrow> int (length (page ofs lmt xs)) \<le> lmt"
  by (auto simp: page_def Let_def)

lemma page_all: "lmt \<le> 0 \<Longrightarrow> ofs \<le> 0 \<Longrightarrow> page ofs lmt xs = xs"
  by (simp add: page_def)

subsection \<open>Properties\<close>

text \<open>
  C31: the store keeps its invariant through every sequence of operations: each run and VM is
  filed under its own ID, run IDs are the ones generated so far and hence pairwise distinct, and
  every result is filed under its run with a non-empty ID.
\<close>

theorem memory_store_invariant:
  assumes "int (length ops) < 2 ^ 63" and "\<forall>op \<in> set ops. op_valid op"
  shows "ms_inv (foldl store_step NewMemoryStore ops)"
  using assms by (intro ms_inv_steps ms_inv_new) (simp_all add: NewMemoryStore_def)

definition blank_run :: TestRun where
  "blank_run = \<lparr>run_ID = [], run_DeviceID = ''gpu'', run_TestSuiteID = ''smoke'',
     run_Status = TestRunStatusUnset, run_VMID = [], run_Priority = 0, run_CreatedAt = 0,
     run_StartedAt = None, run_CompletedAt = None, run_DurationMs = 0, run_RequestedBy = [],
     run_Tags = [], run_ErrorMessage = []\<rparr>"

definition example_ops :: "store_op list" where
  "example_ops = [OpCreateTestRun 5 blank_run, OpCreateTestRun 6 blank_run,
     OpUpdateTestRunStatus 7000000 ''tr-1'' TestRunStatusRunning '''',
     OpUpdateTestRunStatus 12000000 ''tr-1'' TestRunStatusPassed '''']"

theorem memory_store_invariant_witness:
  "ms_inv (foldl store_step NewMemoryStore example_ops) \<and>
   gkeys (ms_testRuns (foldl store_step NewMemoryStore example_ops)) = [''tr-1'', ''tr-2'']"
proof
  show "ms_inv (foldl store_step NewMemoryStore example_ops)"
    by (rule memory_store_invariant) (simp_all add: example_ops_def)
  show "gkeys (ms_testRuns (foldl store_step NewMemoryStore example_ops)) = [''tr-1'', ''tr-2'']"
    by code_simp
qed

text \<open>
  Create/get round trip. A created run gets an ID no stored run has, is returned with
  status \<open>PENDING\<close> when none was given, can be read back as returned, and no other run changes.
\<close>

theorem CreateTestRun_GetTestRun:
  assumes "ms_inv m" and "ms_counter m < 2 ^ 63 - 1" and "CreateTestRun now m run = (run', m')"
  shows "GetTestRun m (run_ID run') = Err (ERunNotFound (run_ID run')) \<and> GetTestRun m' (run_ID run') = Ok run' \<and>
    run_Status run' = (if run_Status run = TestRunStatusUnset then TestRunStatusPending else run_Status run) \<and>
    (\<forall>i. i \<noteq> run_ID run' \<longrightarrow> GetTestRun m' i = GetTestRun m i) \<and> ms_inv m'"
proof -
  let ?i = "''tr-'' @ itoa (ms_counter m + 1)"
  from assms have run': "run_ID run' = ?i"
    and st: "run_Status run' = (if run_Status run = TestRunStatusUnset then TestRunStatusPending else run_Status run)"
    and m': "m' = m\<lparr>ms_counter := ms_counter m + 1, ms_testRuns := gput ?i run' (ms_testRuns m)\<rparr>"
    by (auto simp: CreateTestRun_eq Let_def)
  have "ms_inv m'" using ms_inv_create [OF assms(1,2), of now run] assms(3) by simp
  moreover have "GetTestRun m ?i = Err (ERunNotFound ?i)"
    using fresh_run_id assms(1) by (simp add: GetTestRun_def ms_inv_def del: append.simps)
  moreover have "GetTestRun m' ?i = Ok run'" and "\<forall>i. i \<noteq> ?i \<longrightarrow> GetTestRun m' i = GetTestRun m i"
    unfolding m' by (simp_all add: GetTestRun_def)
  ultimately show ?thesis using run' st by simp
qed

theorem CreateTestRun_GetTestRun_witness:
  "let (run', m') = CreateTestRun 5 NewMemoryStore blank_run
   in run_ID run' = ''tr-1'' \<and> run_Status run' = TestRunStatusPending \<and> GetTestRun m' ''tr-1'' = Ok run'"
proof -
  obtain run' m' where c: "CreateTestRun 5 NewMemoryStore blank_run = (run', m')" by fastforce
  have "run_ID (fst (CreateTestRun 5 NewMemoryStore blank_run)) = ''tr-1''"
    and "run_Status blank_run = TestRunStatusUnset" by code_simp+
  with CreateTestRun_GetTestRun [OF ms_inv_new _ c] c show ?thesis by (simp add: NewMemoryStore_def)
qed



text \<open>
  C33: what \<open>ListTestRuns\<close> returns, for every visiting order of the map: only runs that match
  the filters, none twice, at most \<open>Limit\<close> of them when a limit is set, and all of them when
  neither limit nor offset is set.
\<close>

theorem ListTestRuns_correct:
  assumes "ms_inv m" and "is_range ks (ms_testRuns m)"
  shows "set (ListTestRuns m ks req) \<subseteq> {run. GetTestRun m (run_ID run) = Ok run \<and> run_matches req run} \<and>
    distinct (map run_ID (ListTestRuns m ks req)) \<and>
    (0 < lr_Limit req \<longrightarrow> int (length (ListTestRuns m ks req)) \<le> lr_Limit req) \<and>
    (lr_Limit req \<le> 0 \<and> lr_Offset req \<le> 0 \<longrightarrow>
       set (ListTestRuns m ks req) = {run. GetTestRun m (run_ID run) = Ok run \<and> run_matches req run})"
proof -
  let ?rs = "select_runs req (ms_testRuns m) ks"
  have id: "\<And>k run. map_of (ms_testRuns m) k = Some run \<Longrightarrow> run_ID run = k"
    using runs_okD(1) assms(1) by (auto simp: ms_inv_def)
  have all: "set ?rs = {run. GetTestRun m (run_ID run) = Ok run \<and> run_matches req run}"
  proof -
    have "(\<exists>k. map_of (ms_testRuns m) k = Some v) \<longleftrightarrow> map_of (ms_testRuns m) (run_ID v) = Some v" for v
      using id [of _ v] by metis
    then show ?thesis using assms(2) by (auto simp: select_runs_pick set_pick is_range_def GetTestRun_Ok)
  qed
  have dist: "distinct (map run_ID ?rs)"
    unfolding select_runs_pick using assms(2) id by (intro distinct_pick) (auto simp: is_range_def)
  have "set (ListTestRuns m ks req) \<subseteq> set ?rs" unfolding ListTestRuns_def by (rule page_set)
  moreover have "distinct (map run_ID (ListTestRuns m ks req))"
    unfolding ListTestRuns_def using dist by (rule page_distinct)
  moreover have "0 < lr_Limit req \<longrightarrow> int (length (ListTestRuns m ks req)) \<le> lr_Limit req"
    by (simp add: ListTestRuns_def page_limit)
  moreover have "lr_Limit req \<le> 0 \<and> lr_Offset req \<le> 0 \<longrightarrow> ListTestRuns m ks req = ?rs"
    by (simp add: ListTestRuns_def page_all)
  ultimately show ?thesis by (simp add: all)
qed

theorem ListTestRuns_correct_witness:
  "let m = foldl store_step NewMemoryStore example_ops;
       req = \<lparr>lr_DeviceID = [], lr_Status = TestRunStatusPassed, lr_Limit = 1, lr_Offset = 0\<rparr>
   in length (ListTestRuns m [''tr-2'', ''tr-1''] req) = 1 \<and>
      distinct (map run_ID (ListTestRuns m [''tr-2'', ''tr-1''] req))"
proof -
  let ?m = "foldl store_step NewMemoryStore example_ops"
  let ?req = "\<lparr>lr_DeviceID = [], lr_Status = TestRunStatusPassed, lr_Limit = 1, lr_Offset = 0\<rparr>"
  have inv: "ms_inv ?m" by (rule ms_inv_steps [OF ms_inv_new]) (simp_all add: example_ops_def NewMemoryStore_def)
  have "gkeys (ms_testRuns ?m) = [''tr-1'', ''tr-2'']" by code_simp
  then have rg: "is_range [''tr-2'', ''tr-1''] (ms_testRuns ?m)"
    by (auto simp: is_range_def dom_gkeys simp del: set_map)
  have "length (ListTestRuns ?m [''tr-2'', ''tr-1''] ?req) = 1" by code_simp
  with ListTestRuns_correct [OF inv rg, of ?req] show ?thesis by (simp add: Let_def)
qed

text \<open>
  C34: an offset at or beyond the number of matching runs is ignored: instead of an empty page
  the caller gets the first page again.
\<close>

theorem ListTestRuns_offset_ignored:
  assumes "lr_Offset req \<ge> int (length (select_runs req (ms_testRuns m) ks))"
  shows "ListTestRuns m ks req = ListTestRuns m ks (req\<lparr>lr_Offset := 0\<rparr>)"
proof -
  have "select_runs (req\<lparr>lr_Offset := 0\<rparr>) (ms_testRuns m) ks = select_runs req (ms_testRuns m) ks"
    by (simp add: select_runs_pick run_matches_def [abs_def])
  with assms show ?thesis by (simp add: ListTestRuns_def page_def Let_def)
qed

theorem ListTestRuns_offset_ignored_witness:
  "let m = foldl store_step NewMemoryStore example_ops;
       req = \<lparr>lr_DeviceID = [], lr_Status = TestRunStatusUnset, lr_Limit = 0, lr_Offset = 100\<rparr>
   in length (ListTestRuns m [''tr-1'', ''tr-2''] (req\<lparr>lr_Offset := 0\<rparr>)) = 2 \<and>
      ListTestRuns m [''tr-1'', ''tr-2''] req = ListTestRuns m [''tr-1'', ''tr-2''] (req\<lparr>lr_Offset := 0\<rparr>)"
proof -
  let ?m = "foldl store_step NewMemoryStore example_ops"
  let ?req = "\<lparr>lr_DeviceID = [], lr_Status = TestRunStatusUnset, lr_Limit = 0, lr_Offset = 100\<rparr>"
  have "length (ListTestRuns ?m [''tr-1'', ''tr-2''] (?req\<lparr>lr_Offset := 0\<rparr>)) = 2"
    and "lr_Offset ?req \<ge> int (length (select_runs ?req (ms_testRuns ?m) [''tr-1'', ''tr-2'']))"
    by code_simp+
  with ListTestRuns_offset_ignored [where m = ?m and ks = "[''tr-1'', ''tr-2'']" and req = ?req] show ?thesis by (simp only: Let_def)
qed

end
