(* ===== verification/Engine_System.thy ===== *)
theory Engine_System
  imports Engine_Trace Memory_Store
begin

text \<open>
  The engine together with the components it calls.

  \<open>does\<close> is the transition relation of the engine's world: one rule per interface operation, labelled
  with the call that is logged. The locale \<open>run_traces\<close> shows, once, that a property of such labelled
  steps that is closed under concatenation holds of every execution of \<open>executeTestRun\<close>. The locale
  \<open>engine_store\<close> adds the contract \<open>run_store\<close> of the store, so that what is stored at the end can be
  read off the trace. Both are interpreted on the engine model; \<open>sys_engine\<close> is the engine with the
  model's memory store and allocator, and arbitrary VMs, agents and runtime.
\<close>

subsection \<open>Properties of traces that are closed under concatenation\<close>

text \<open>The calls of a run that concern its own records only.\<close>

fun own_call :: "string \<Rightarrow> call \<Rightarrow> bool" where
  "own_call i (CallUpdateStatus _ j _ _ _) = (j = i)"
| "own_call i (CallGetResults _ j _) = (j = i)"
| "own_call i (CallSaveResult _ r) = (tres_TestRunID r = i)"
| "own_call i (CallResubmit run) = (run_ID run = i)"
| "own_call i _ = True"

fun plain_call :: "call \<Rightarrow> bool" where
  "plain_call (CallUpdateStatus _ _ st _ _) = (st \<notin> {TestRunStatusPassed, TestRunStatusFailed})"
| "plain_call _ = True"

text \<open>One answer of the world, by the call that is logged for it.\<close>

inductive does :: "'w ExecutionEngine \<Rightarrow> 'w \<Rightarrow> call list \<Rightarrow> 'w \<Rightarrow> bool" for e where
  update: "st_UpdateTestRunStatus (ee_store e) ctx j st msg w = (r, w') \<Longrightarrow> does e w [CallUpdateStatus ctx j st msg (sum_ok r)] w'"
| results: "st_GetTestResults (ee_store e) ctx j w = (r, w') \<Longrightarrow>
    does e w [CallGetResults ctx j (case r of Inl _ \<Rightarrow> [] | Inr rs \<Rightarrow> rs)] w'"
| save: "st_SaveTestResult (ee_store e) ctx res w = (r, w') \<Longrightarrow> does e w [CallSaveResult ctx res] w'"
| create: "vmi_CreateVM (ee_vmManager e) ctx dev w = (r, w') \<Longrightarrow>
    does e w [CallCreateVM ctx (dev_ID dev) (case r of Inl _ \<Rightarrow> None | Inr vm \<Rightarrow> Some (vm_ID vm))] w'"
| start: "vmi_StartVM (ee_vmManager e) ctx v w = (r, w') \<Longrightarrow> does e w [CallStartVM ctx v (sum_ok r)] w'"
| stop: "vmi_StopVM (ee_vmManager e) ctx v w = (r, w') \<Longrightarrow> does e w [CallStopVM ctx v] w'"
| destroy: "vmi_DestroyVM (ee_vmManager e) ctx v w = (r, w') \<Longrightarrow> does e w [CallDestroyVM ctx v] w'"
| register: "ee_agentCoord e = Some ac \<Longrightarrow> does e w [CallRegisterVM v] (aci_RegisterVM ac v w)"
| unregister: "ee_agentCoord e = Some ac \<Longrightarrow> does e w [CallUnregisterVM v] (aci_UnregisterVM ac v w)"
| wait: "ee_agentCoord e = Some ac \<Longrightarrow> aci_WaitForAgent ac ctx v w = (r, w') \<Longrightarrow> does e w [CallWaitForAgent ctx v (sum_ok r)] w'"
| send: "ee_agentCoord e = Some ac \<Longrightarrow> aci_SendCommand ac ctx v cmd w = (r, w') \<Longrightarrow>
    does e w [CallSendCommand ctx v cmd (case r of Inl _ \<Rightarrow> None | Inr a \<Rightarrow> Some (ares_Status a))] w'"
| acquire: "ee_allocator e = Some al \<Longrightarrow> alo_TryAcquire al a w = (ok, w') \<Longrightarrow> does e w [CallTryAcquire a ok] w'"
| release: "ee_allocator e = Some al \<Longrightarrow> does e w [CallRelease a] (alo_Release al a w)"
| resubmit: "does e w [CallResubmit run] (rt_Resubmit (ee_runtime e) run w)"
| event: "ee_eventBus e = Some bus \<Longrightarrow> does e w [CallPublish ctx ev] (bus ctx ev w)"
| logged: "ee_audit e = Some lg \<Longrightarrow> does e w [CallAudit rec] (lg rec w)"
| now: "rt_Now (ee_runtime e) w = (n, w') \<Longrightarrow> does e w [] w'"
| select: "rt_Select (ee_runtime e) ctx k w = (c, w') \<Longrightarrow> does e w [] w'"
| range: "rt_Range (ee_runtime e) ids w = (f, w') \<Longrightarrow> does e w [] w'"
| getwd: "rt_Getwd (ee_runtime e) w = (d, w') \<Longrightarrow> does e w [] w'"
| stat: "rt_Stat (ee_runtime e) p w = (b, w') \<Longrightarrow> does e w [] w'"
| read: "rt_ReadFile (ee_runtime e) p w = (x, w') \<Longrightarrow> does e w [] w'"

definition paths :: "('w, 'a) act \<Rightarrow> ('w \<Rightarrow> call list \<Rightarrow> 'w \<Rightarrow> bool) \<Rightarrow> bool" where
  "paths m Q \<longleftrightarrow> (\<forall>s. \<exists>t. es_calls (snd (run_state m s)) = es_calls s @ t \<and> Q (es_world s) t (es_world (snd (run_state m s))))"

lemma paths_perform: "(\<And>w r w'. f w = (r, w') \<Longrightarrow> Q w (c r) w') \<Longrightarrow> paths (perform f c) Q"
  by (auto simp: paths_def perform_def split: prod.splits)

lemma paths_ask: "(\<And>w r w'. f w = (r, w') \<Longrightarrow> Q w [] w') \<Longrightarrow> paths (ask f) Q"
  unfolding ask_def by (rule paths_perform)

lemma paths_bind:
  assumes "paths m P" and "\<And>x w t w'. P w t w' \<Longrightarrow> paths (f x) R" and "\<And>w t w' u w''. P w t w' \<Longrightarrow> R w' u w'' \<Longrightarrow> Q w (t @ u) w''"
  shows "paths (State_Monad.bind m f) Q"
  unfolding paths_def
proof
  fix s
  obtain x s1 where m: "run_state m s = (x, s1)" by fastforce
  from assms(1) obtain t where t: "es_calls s1 = es_calls s @ t" "P (es_world s) t (es_world s1)"
    unfolding paths_def by (metis m snd_conv)
  obtain y s2 where f: "run_state (f x) s1 = (y, s2)" by fastforce
  from assms(2) [OF t(2), of x] obtain u where u: "es_calls s2 = es_calls s1 @ u" "R (es_world s1) u (es_world s2)"
    unfolding paths_def by (metis f snd_conv)
  from assms(3) [OF t(2) u(2)] m f t(1) u(1)
  show "\<exists>t. es_calls (snd (run_state (State_Monad.bind m f) s)) = es_calls s @ t \<and>
      Q (es_world s) t (es_world (snd (run_state (State_Monad.bind m f) s)))" by auto
qed

text \<open>
  \<open>Q\<close> holds of every execution of \<open>executeTestRun\<close> for run \<open>i\<close> when it is closed
  under concatenation, holds of every answer to a call that concerns run \<open>i\<close> and does not
  conclude it, and of the pair of calls that concludes it.
\<close>

locale run_traces =
  fixes e :: "'w ExecutionEngine" and i :: string and Q :: "'w \<Rightarrow> call list \<Rightarrow> 'w \<Rightarrow> bool"
  assumes nil: "Q w [] w"
    and app: "Q w t w' \<Longrightarrow> Q w' u w'' \<Longrightarrow> Q w (t @ u) w''"
    and step: "does e w cs w' \<Longrightarrow> list_all (\<lambda>c. own_call i c \<and> plain_call c) cs \<Longrightarrow> Q w cs w'"
    and conclude: "does e w [CallGetResults ctx i rs] w' \<Longrightarrow> does e w' [CallUpdateStatus ctx i (final_status rs) msg ok] w'' \<Longrightarrow>
      Q w [CallGetResults ctx i rs, CallUpdateStatus ctx i (final_status rs) msg ok] w''"
begin

lemma all_bind: "paths m Q \<Longrightarrow> (\<And>x. paths (f x) Q) \<Longrightarrow> paths (State_Monad.bind m f) Q"
  by (rule paths_bind [where P = Q and R = Q]) (auto intro: app)

lemma all_ret: "paths (ret x) Q"
  by (simp add: paths_def ret_def nil)

lemma all_calls:
  "j = i \<Longrightarrow> st \<notin> {TestRunStatusPassed, TestRunStatusFailed} \<Longrightarrow> paths (updateStatus e ctx j st msg) Q"
  "tres_TestRunID r = i \<Longrightarrow> paths (saveResult e ctx r) Q"
  "paths (createVM e ctx dev) Q" "paths (startVM e ctx v) Q" "paths (stopVM e ctx v) Q" "paths (destroyVM e ctx v) Q"
  "ee_allocator e = Some al \<Longrightarrow> paths (tryAcquire al a) Q" "ee_allocator e = Some al \<Longrightarrow> paths (releaseAlloc al a) Q"
  "run_ID run = i \<Longrightarrow> paths (resubmitLater e run) Q"
  "ee_agentCoord e = Some ac \<Longrightarrow> paths (waitForAgent ac ctx v) Q"
  "ee_agentCoord e = Some ac \<Longrightarrow> paths (sendCommand ac ctx v cmd) Q"
  by (auto simp: updateStatus_def saveResult_def createVM_def startVM_def stopVM_def destroyVM_def tryAcquire_def
      releaseAlloc_def resubmitLater_def waitForAgent_def sendCommand_def intro!: paths_perform step intro: does.intros)

lemma all_optional:
  "paths (registerVM e v) Q" "paths (unregisterVM e v) Q" "paths (publish e ctx ev) Q" "paths (audit e rec) Q"
  by (auto simp: registerVM_def unregisterVM_def publish_def audit_def split: option.split
      intro!: all_ret paths_perform step intro: does.intros)

lemma all_ask:
  "paths (timeNow e) Q" "paths (ask (rt_Select (ee_runtime e) ctx k)) Q" "paths (ask (rt_Range (ee_runtime e) ids)) Q"
  "paths (ask (rt_Getwd (ee_runtime e))) Q" "paths (ask (rt_Stat (ee_runtime e) p)) Q" "paths (ask (rt_ReadFile (ee_runtime e) p)) Q"
  by (auto simp: timeNow_def intro!: paths_ask step intro: does.intros)

lemmas all_intros = all_bind all_ret all_ask all_calls all_optional

lemma all_save_items: "run_ID run = i \<Longrightarrow> paths (save_items e ctx run ar raws) Q"
  by (induction raws) (auto intro!: all_intros simp: raw_result_def)

lemma all_process: "run_ID run = i \<Longrightarrow> paths (process_output e ctx run name ar) Q"
  unfolding process_output_def
  by (auto intro!: all_intros all_save_items simp: single_result_def split: option.splits)

lemma all_attempt: "run_ID run = i \<Longrightarrow> ee_agentCoord e = Some ac \<Longrightarrow> paths (run_attempt e ac ctx run device v d a) Q"
  unfolding run_attempt_def processResultsForStep_def
  by (auto intro!: all_intros all_process split: res.splits sum.splits)

lemma all_select: "run_ID run = i \<Longrightarrow> ee_agentCoord e = Some ac \<Longrightarrow> paths (wf_select n e ac ctx run device v w gs) Q"
proof (induction n arbitrary: w gs)
  case (Suc n)
  then show ?case
    by (auto intro!: all_intros all_attempt simp: Let_def split: sum.split prod.split attempt_outcome.split)
qed (simp add: all_ret)

lemma all_runWorkflow: "run_ID run = i \<Longrightarrow> ee_agentCoord e = Some ac \<Longrightarrow> paths (runWorkflow e ac ctx run device v suite) Q"
  unfolding runWorkflow_def by (auto intro!: all_intros all_select split: res.split sum.split)

text \<open>Reading the results and updating the status, as one action.\<close>

lemma all_conclude:
  "paths (do {
       r \<leftarrow> getResults e ctx i;
       _ \<leftarrow> updateStatus e ctx i (final_status (case r of Inl _ \<Rightarrow> [] | Inr results \<Rightarrow> results)) msg;
       ret r }) Q"
proof -
  have "Q w [CallGetResults ctx i (case r of Inl _ \<Rightarrow> [] | Inr rs \<Rightarrow> rs),
      CallUpdateStatus ctx i (final_status (case r of Inl _ \<Rightarrow> [] | Inr rs \<Rightarrow> rs)) msg (sum_ok q)] w''"
    if "st_GetTestResults (ee_store e) ctx i w = (r, w')"
      and "st_UpdateTestRunStatus (ee_store e) ctx i (final_status (case r of Inl _ \<Rightarrow> [] | Inr rs \<Rightarrow> rs)) msg w' = (q, w'')"
    for w w' w'' r q
    by (rule conclude [OF does.results [OF that(1)] does.update [OF that(2)]])
  then show ?thesis
    by (auto simp: paths_def getResults_def updateStatus_def perform_def ret_def split: prod.splits)
qed

lemma all_finalize: "run_ID run = i \<Longrightarrow> paths (finalize e ctx run start) Q"
proof -
  assume i: "run_ID run = i"
  let ?pair = "do {
       r \<leftarrow> getResults e ctx i;
       _ \<leftarrow> updateStatus e ctx i (final_status (case r of Inl _ \<Rightarrow> [] | Inr results \<Rightarrow> results)) '''';
       ret r }"
  have "finalize e ctx run start = do {
       r \<leftarrow> ?pair;
       let finalStatus = final_status (case r of Inl _ \<Rightarrow> [] | Inr results \<Rightarrow> results);
       now \<leftarrow> timeNow e;
       let durationMs = milliseconds (time_sub now start);
       _ \<leftarrow> publish e ctx (mk_event EventTestRunCompleted i (run_DeviceID run) (run_status_str finalStatus)
              [(''duration_ms'', GInt durationMs)]);
       _ \<leftarrow> audit e (LogComplete i (run_status_str finalStatus) durationMs);
       ret (Some (Ok ()))
     }" unfolding finalize_def Let_def i ret_def by simp
  then show ?thesis unfolding Let_def by (auto intro!: all_intros all_conclude simp del: bind_assoc)
qed

lemma all_fail: "run_ID run = i \<Longrightarrow> paths (fail_run e ctx run msg err) Q"
  unfolding fail_run_def by (auto intro!: all_intros)

lemma all_tests: "run_ID run = i \<Longrightarrow> paths (exec_agent e ctx run device v suite start) Q"
  unfolding exec_agent_def exec_load_def exec_verify_def exec_workflow_def
  by (auto intro!: all_intros all_fail all_finalize all_runWorkflow split: option.split sum.split)

lemma all_exec_create: "run_ID run = i \<Longrightarrow> paths (exec_create e ctx run device suite start) Q"
  unfolding exec_create_def exec_start_def deferred_def teardown_def
  by (auto intro!: all_intros all_fail all_tests split: option.split sum.split)

lemma all_climb: "paths (climb e s segs) Q"
proof (induction segs)
  case (Cons x segs)
  then show ?case by (auto intro!: all_intros simp: Let_def)
qed (auto intro!: all_intros simp: Let_def)

lemma all_try: "paths (try_paths e r ps) Q"
  by (induction ps arbitrary: r) (auto intro!: all_intros)

lemma all_suite: "paths (loadTestSuite e s device) Q"
  unfolding loadTestSuite_def read_suite_def
  by (auto intro!: all_intros all_climb all_try simp del: climb.simps try_paths.simps split: sum.split option.split)

lemma all_executeTestRun: "run_ID run = i \<Longrightarrow> paths (executeTestRun e ctx run) Q"
  unfolding executeTestRun_def exec_gate_def exec_suite_def exec_acquire_def deferred_def Let_def
  by (auto intro!: all_intros all_fail all_suite all_exec_create split: option.split sum.split res.split)

end

text \<open>A status of PASSED or FAILED is computed from the results that were read just before.\<close>

fun backed :: "call option \<Rightarrow> call list \<Rightarrow> bool" where
  "backed p [] = True"
| "backed p (c # cs) =
     ((case c of
         CallUpdateStatus _ i st _ _ \<Rightarrow> st \<in> {TestRunStatusPassed, TestRunStatusFailed} \<longrightarrow>
           (case p of Some (CallGetResults _ j rs) \<Rightarrow> j = i \<and> st = final_status rs | _ \<Rightarrow> False)
       | _ \<Rightarrow> True) \<and> backed (Some c) cs)"

lemma backed_app: "backed p t \<Longrightarrow> (\<And>q. backed q u) \<Longrightarrow> backed p (t @ u)"
  by (induction p t rule: backed.induct) auto

interpretation bk: run_traces e i "\<lambda>_ t _. (\<forall>p. backed p t)" for e i
proof
  fix w cs w'
  assume "does e w cs w'" and "list_all (\<lambda>c. own_call i c \<and> plain_call c) cs"
  then show "\<forall>p. backed p cs" by (cases rule: does.cases) auto
qed (auto intro: backed_app)

interpretation own: run_traces e i "\<lambda>_ t _. list_all (own_call i) t" for e i
  by unfold_locales (auto simp: list_all_iff)

lemma paths_emits: "paths m (\<lambda>_ t _. P t) \<Longrightarrow> emits m (\<lambda>_ t. P t)"
  by (simp add: paths_def emits_def)

subsection \<open>An engine on a store\<close>

text \<open>
  \<open>engine_store\<close>: the store part \<open>proj\<close> of the world changes only through the store's
  operations, and the engine sees their answers. What the engine writes can then be read off its trace.
\<close>

fun is_store :: "call \<Rightarrow> bool" where
  "is_store (CallUpdateStatus _ _ _ _ _) = True"
| "is_store (CallGetResults _ _ _) = True"
| "is_store (CallSaveResult _ _) = True"
| "is_store _ = False"

locale engine_store = run_store status_in results_in upd save get_results
  for status_in :: "'s \<Rightarrow> string \<Rightarrow> TestRunStatus option"
    and results_in :: "'s \<Rightarrow> string \<Rightarrow> TestResult list"
    and upd :: "string \<Rightarrow> TestRunStatus \<Rightarrow> string \<Rightarrow> 's \<Rightarrow> (error + unit) \<times> 's"
    and save :: "TestResult \<Rightarrow> 's \<Rightarrow> (error + unit) \<times> 's"
    and get_results :: "string \<Rightarrow> 's \<Rightarrow> (error + TestResult list) \<times> 's" +
  fixes e :: "'w ExecutionEngine" and proj :: "'w \<Rightarrow> 's"
  assumes does_update: "does e w [CallUpdateStatus ctx j st msg ok] w' \<Longrightarrow>
      proj w' = snd (upd j st msg (proj w)) \<and> ok = (fst (upd j st msg (proj w)) = Inr ())"
    and does_results: "does e w [CallGetResults ctx j rs] w' \<Longrightarrow> proj w' = proj w \<and> rs = results_in (proj w) j"
    and does_save: "does e w [CallSaveResult ctx res] w' \<Longrightarrow> proj w' = snd (save res (proj w))"
    and does_other: "does e w cs w' \<Longrightarrow> list_all (\<lambda>c. \<not> is_store c) cs \<Longrightarrow> proj w' = proj w"
begin

fun replay_call :: "'s \<Rightarrow> call \<Rightarrow> 's" where
  "replay_call s (CallUpdateStatus _ j st msg _) = snd (upd j st msg s)"
| "replay_call s (CallSaveResult _ r) = snd (save r s)"
| "replay_call s _ = s"

fun truthful_call :: "'s \<Rightarrow> call \<Rightarrow> bool" where
  "truthful_call s (CallUpdateStatus _ j st msg ok) = (ok = (fst (upd j st msg s) = Inr ()))"
| "truthful_call s (CallGetResults _ j rs) = (rs = results_in s j)"
| "truthful_call s _ = True"

fun truthful :: "'s \<Rightarrow> call list \<Rightarrow> bool" where
  "truthful s [] = True"
| "truthful s (c # cs) = (truthful_call s c \<and> truthful (replay_call s c) cs)"

lemma truthful_append: "truthful s (t @ u) \<longleftrightarrow> truthful s t \<and> truthful (foldl replay_call s t) u"
  by (induction t arbitrary: s) auto

lemma does_replay: "does e w cs w' \<Longrightarrow> proj w' = foldl replay_call (proj w) cs \<and> truthful (proj w) cs"
proof (cases "list_all (\<lambda>c. \<not> is_store c) cs")
  case True
  assume d: "does e w cs w'"
  have "foldl replay_call s cs = s \<and> truthful s cs" for s
    using True
  proof (induction cs)
    case (Cons c cs)
    then show ?case by (cases c) auto
  qed simp
  with does_other [OF d True] show ?thesis by simp
next
  case False
  assume d: "does e w cs w'"
  from d False show ?thesis
    by cases (use does_update does_results does_save d in auto)
qed

end

sublocale engine_store \<subseteq> rp: run_traces e i "\<lambda>w t w'. proj w' = foldl replay_call (proj w) t \<and> truthful (proj w) t" for i
  by unfold_locales (auto simp: truthful_append dest: does_replay dest!: does_update does_results)

text \<open>The part of a trace after the concluding update leaves the store alone.\<close>

lemma backed_mid: "backed p (t @ c # u) \<Longrightarrow> backed (Some c) u"
  by (induction t arbitrary: p) auto

lemma backed_split:
  assumes "backed p t" and "status_calls t = [(i, st, ok)]" and "st \<in> {TestRunStatusPassed, TestRunStatusFailed}"
    and "settled t" and "\<And>ctx j rs. p \<noteq> Some (CallGetResults ctx j rs)"
  shows "\<exists>pre ctx rs ctx' msg post. t = pre @ CallGetResults ctx i rs # CallUpdateStatus ctx' i st msg ok # post \<and>
    st = final_status rs \<and> status_calls post = [] \<and> list_all (\<lambda>c. \<not> is_save c) post"
proof -
  have "\<exists>pre ctx' msg post. t = pre @ CallUpdateStatus ctx' i st msg ok # post \<and> status_calls pre = [] \<and> status_calls post = []"
    using assms(2)
  proof (induction t)
    case (Cons c t)
    show ?case
    proof (cases "status_calls [c] = []")
      case True
      with Cons obtain pre ctx' msg post where "t = pre @ CallUpdateStatus ctx' i st msg ok # post \<and>
        status_calls pre = [] \<and> status_calls post = []" using status_calls_Cons [of c t] by auto
      then show ?thesis using True status_calls_Cons [of c pre]
        by (intro exI [of _ "c # pre"] exI [of _ ctx'] exI [of _ msg] exI [of _ post]) simp
    next
      case False
      with Cons.prems obtain ctx' msg where "c = CallUpdateStatus ctx' i st msg ok" and "status_calls t = []"
        by (cases c) auto
      then show ?thesis by (intro exI [of _ "[]"] exI [of _ ctx'] exI [of _ msg] exI [of _ t]) simp
    qed
  qed simp
  then obtain pre ctx' msg post where t: "t = pre @ CallUpdateStatus ctx' i st msg ok # post"
    "status_calls pre = []" "status_calls post = []" by blast
  have nosave: "list_all (\<lambda>c. \<not> is_save c) post" using assms(4) t by simp
  have "pre \<noteq> [] \<and> (\<exists>ctx rs. last pre = CallGetResults ctx i rs \<and> st = final_status rs)"
    using assms(1,3,5) unfolding t(1)
  proof (induction pre arbitrary: p rule: rev_induct)
    case Nil
    then show ?case by (cases p) (auto split: call.splits)
  next
    case (snoc c pre)
    have "backed p (pre @ c # CallUpdateStatus ctx' i st msg ok # post)" using snoc.prems(1) by simp
    from backed_mid [OF this] snoc.prems show ?case by (auto split: call.splits)
  qed
  then obtain ctx rs where "pre = butlast pre @ [CallGetResults ctx i rs]" "st = final_status rs"
    by (metis append_butlast_last_id)
  then have "t = butlast pre @ CallGetResults ctx i rs # CallUpdateStatus ctx' i st msg ok # post" and "st = final_status rs"
    using t(1) by (metis append.assoc append_Cons append_Nil)+
  with nosave t(3) show ?thesis by blast
qed

context engine_store
begin

lemma replay_quiet:
  "status_calls t = [] \<Longrightarrow> list_all (\<lambda>c. \<not> is_save c) t \<Longrightarrow> foldl replay_call s t = s"
proof (induction t arbitrary: s)
  case (Cons c t)
  then show ?case using status_calls_Cons [of c t] by (cases c) auto
qed simp

lemma replay_known: "status_in s i \<noteq> None \<Longrightarrow> status_in (foldl replay_call s t) i \<noteq> None"
proof (induction t arbitrary: s)
  case (Cons c t)
  have "status_in (replay_call s c) i \<noteq> None"
  proof (cases c)
    case (CallUpdateStatus ctx j st msg ok)
    then show ?thesis using Cons.prems upd_known [of s j st msg] upd_unknown [of s j st msg]
      by (cases "status_in s j") (auto simp: fun_upd_def)
  qed (use Cons.prems save_law in auto)
  with Cons.IH show ?case by simp
qed simp

lemma concluded:
  assumes tr: "truthful s t" and known: "status_in s i \<noteq> None" and p: "\<And>ctx j rs. p \<noteq> Some (CallGetResults ctx j rs)"
    and t: "backed p t" "status_calls t = [(i, st, ok)]" "st \<in> {TestRunStatusPassed, TestRunStatusFailed}" "settled t"
  shows "status_in (foldl replay_call s t) i = Some (final_status (results_in (foldl replay_call s t) i))"
proof -
  obtain pre ctx rs ctx' msg post where sp: "t = pre @ CallGetResults ctx i rs # CallUpdateStatus ctx' i st msg ok # post"
    and st: "st = final_status rs" and post: "status_calls post = []" "list_all (\<lambda>c. \<not> is_save c) post"
    using backed_split [OF t p] by blast
  let ?s = "foldl replay_call s pre"
  have rs: "rs = results_in ?s i" using tr unfolding sp by (simp add: truthful_append)
  have "foldl replay_call s t = snd (upd i st msg ?s)" unfolding sp by (simp add: replay_quiet [OF post])
  with upd_known [OF replay_known [OF known, of pre], of st msg] rs st show ?thesis by simp
qed

text \<open>The status of a run is the last one that was set; the records of other runs are untouched.\<close>

lemma replay_status:
  assumes "status_in s i \<noteq> None" and "list_all (own_call i) t"
  shows "status_in (foldl replay_call s t) i =
    (if status_calls t = [] then status_in s i else Some (fst (snd (last (status_calls t)))))"
  using assms
proof (induction t arbitrary: s)
  case (Cons c t)
  have k: "status_in (replay_call s c) i \<noteq> None" using replay_known [OF Cons.prems(1), of "[c]"] by simp
  have "status_in (replay_call s c) i = (if status_calls [c] = [] then status_in s i else Some (fst (snd (last (status_calls [c])))))"
    using Cons.prems upd_known [of s i] save_law by (cases c) auto
  with Cons.IH [OF k] Cons.prems(2) status_calls_Cons [of c t] show ?case by auto
qed simp

lemma replay_other:
  assumes "list_all (own_call i) t" and "j \<noteq> i"
  shows "status_in (foldl replay_call s t) j = status_in s j \<and>
    map tres_Status (results_in (foldl replay_call s t) j) = map tres_Status (results_in s j)"
  using assms
proof (induction t arbitrary: s)
  case (Cons c t)
  have "status_in (replay_call s c) j = status_in s j \<and>
      map tres_Status (results_in (replay_call s c) j) = map tres_Status (results_in s j)"
  proof (cases c)
    case (CallUpdateStatus ctx k st msg ok)
    then show ?thesis using Cons.prems upd_known [of s k st msg] upd_unknown [of s k st msg]
      by (cases "status_in s k") auto
  qed (use Cons.prems save_law in auto)
  with Cons show ?case by simp
qed simp

end

subsection \<open>The engine with the memory store and the allocator\<close>

text \<open>The world: the store with its clock, the budget, and everything else.\<close>

record 'v sys =
  sys_store :: "MemoryStore \<times> int"
  sys_budget :: ResourceBudget
  sys_env :: 'v

definition on_env :: "('v \<Rightarrow> 'a \<times> 'v) \<Rightarrow> 'v sys \<Rightarrow> 'a \<times> 'v sys" where
  "on_env f s = (case f (sys_env s) of (r, v) \<Rightarrow> (r, s\<lparr>sys_env := v\<rparr>))"

definition on_env_unit :: "('v \<Rightarrow> 'v) \<Rightarrow> 'v sys \<Rightarrow> 'v sys" where
  "on_env_unit f s = s\<lparr>sys_env := f (sys_env s)\<rparr>"

definition on_store :: "(MemoryStore \<times> int \<Rightarrow> 'a \<times> MemoryStore \<times> int) \<Rightarrow> 'v sys \<Rightarrow> 'a \<times> 'v sys" where
  "on_store f s = (case f (sys_store s) of (r, m) \<Rightarrow> (r, s\<lparr>sys_store := m\<rparr>))"

definition sys_store_ops :: "(int \<Rightarrow> int) \<Rightarrow> 'v sys EngineStore" where
  "sys_store_ops tick = \<lparr>st_UpdateTestRunStatus = (\<lambda>_ i st msg. on_store (mem_upd tick i st msg)),
     st_GetTestResults = (\<lambda>_ i. on_store (mem_get i)), st_SaveTestResult = (\<lambda>_ r. on_store (mem_save r))\<rparr>"

definition sys_alloc_ops :: "'v sys AllocatorOps" where
  "sys_alloc_ops = \<lparr>alo_TryAcquire = (\<lambda>a s. case TryAcquire (sys_budget s) a of (ok, b) \<Rightarrow> (ok, s\<lparr>sys_budget := b\<rparr>)),
     alo_Release = (\<lambda>a s. s\<lparr>sys_budget := Allocator.Release (sys_budget s) a\<rparr>)\<rparr>"

definition env_vms :: "'v VMManagerInterface \<Rightarrow> 'v sys VMManagerInterface" where
  "env_vms m = \<lparr>vmi_CreateVM = (\<lambda>c d. on_env (vmi_CreateVM m c d)), vmi_StartVM = (\<lambda>c v. on_env (vmi_StartVM m c v)),
     vmi_StopVM = (\<lambda>c v. on_env (vmi_StopVM m c v)), vmi_DestroyVM = (\<lambda>c v. on_env (vmi_DestroyVM m c v))\<rparr>"

definition env_agent :: "'v AgentCoordinatorInterface \<Rightarrow> 'v sys AgentCoordinatorInterface" where
  "env_agent a = \<lparr>aci_RegisterVM = (\<lambda>v. on_env_unit (aci_RegisterVM a v)), aci_UnregisterVM = (\<lambda>v. on_env_unit (aci_UnregisterVM a v)),
     aci_WaitForAgent = (\<lambda>c v. on_env (aci_WaitForAgent a c v)), aci_SendCommand = (\<lambda>c v cmd. on_env (aci_SendCommand a c v cmd))\<rparr>"

definition env_runtime :: "'v Runtime \<Rightarrow> 'v sys Runtime" where
  "env_runtime r = \<lparr>rt_Now = on_env (rt_Now r), rt_Select = (\<lambda>c n. on_env (rt_Select r c n)), rt_Resubmit = (\<lambda>run. on_env_unit (rt_Resubmit r run)),
     rt_Range = (\<lambda>ids. on_env (rt_Range r ids)), rt_Getwd = on_env (rt_Getwd r), rt_Stat = (\<lambda>p. on_env (rt_Stat r p)),
     rt_ReadFile = (\<lambda>p. on_env (rt_ReadFile r p))\<rparr>"

text \<open>The engine \<open>x\<close> with its store and allocator replaced.\<close>

definition sys_engine :: "(int \<Rightarrow> int) \<Rightarrow> 'v ExecutionEngine \<Rightarrow> 'v sys ExecutionEngine" where
  "sys_engine tick x = \<lparr>ee_store = sys_store_ops tick, ee_registry = ee_registry x, ee_vmManager = env_vms (ee_vmManager x),
     ee_agentCoord = map_option env_agent (ee_agentCoord x), ee_allocator = Some sys_alloc_ops, ee_cfg = ee_cfg x,
     ee_eventBus = map_option (\<lambda>f c ev. on_env_unit (f c ev)) (ee_eventBus x),
     ee_audit = map_option (\<lambda>f r. on_env_unit (f r)) (ee_audit x), ee_runtime = env_runtime (ee_runtime x)\<rparr>"

lemmas sys_defs = sys_engine_def sys_store_ops_def sys_alloc_ops_def env_vms_def env_agent_def env_runtime_def
  on_env_def on_env_unit_def on_store_def

text \<open>Which part of the world a step changes.\<close>

lemma sum_ok_unit: "sum_ok r \<longleftrightarrow> r = Inr ()"
  by (cases r) auto

inductive_cases does_updateE: "does e w [CallUpdateStatus ctx j st msg ok] w'"
inductive_cases does_resultsE: "does e w [CallGetResults ctx j rs] w'"
inductive_cases does_saveE: "does e w [CallSaveResult ctx res] w'"

lemma does_sys:
  assumes "does (sys_engine tick x) w cs w'"
  shows "(list_all (\<lambda>c. \<not> is_store c) cs \<longrightarrow> sys_store w' = sys_store w) \<and>
    (list_all (\<lambda>c. \<not> is_alloc c) cs \<longrightarrow> sys_budget w' = sys_budget w)"
  using assms by cases (auto simp: sys_defs split: prod.splits)

lemma does_sys_update:
  assumes "does (sys_engine tick x) w [CallUpdateStatus ctx j st msg ok] w'"
  shows "sys_store w' = snd (mem_upd tick j st msg (sys_store w)) \<and> ok = (fst (mem_upd tick j st msg (sys_store w)) = Inr ())"
  using assms by (auto elim!: does_updateE simp: sys_defs sum_ok_unit split: prod.splits)

interpretation se: engine_store mem_status mem_results "mem_upd tick" mem_save mem_get "sys_engine tick x" sys_store for tick x
proof
  fix w w' :: "'a sys" and ctx j rs
  assume "does (sys_engine tick x) w [CallGetResults ctx j rs] w'"
  then show "sys_store w' = sys_store w \<and> rs = mem_results (sys_store w) j"
    by (auto elim!: does_resultsE simp: sys_defs mem_get_def mem_results_def split: prod.splits)
next
  fix w w' :: "'a sys" and ctx res
  assume "does (sys_engine tick x) w [CallSaveResult ctx res] w'"
  then show "sys_store w' = snd (mem_save res (sys_store w))"
    by (auto elim!: does_saveE simp: sys_defs split: prod.splits)
qed (auto dest: does_sys does_sys_update)

text \<open>The same for the budget.\<close>

fun budget_call :: "ResourceBudget \<Rightarrow> call \<Rightarrow> ResourceBudget" where
  "budget_call b (CallTryAcquire a _) = snd (TryAcquire b a)"
| "budget_call b (CallRelease a) = Allocator.Release b a"
| "budget_call b _ = b"

fun budget_true :: "ResourceBudget \<Rightarrow> call list \<Rightarrow> bool" where
  "budget_true b [] = True"
| "budget_true b (c # cs) = ((case c of CallTryAcquire a ok \<Rightarrow> ok = fst (TryAcquire b a) | _ \<Rightarrow> True) \<and> budget_true (budget_call b c) cs)"

lemma budget_true_append: "budget_true b (t @ u) \<longleftrightarrow> budget_true b t \<and> budget_true (foldl budget_call b t) u"
  by (induction t arbitrary: b) auto

lemma does_budget:
  assumes "does (sys_engine tick x) w cs w'"
  shows "sys_budget w' = foldl budget_call (sys_budget w) cs \<and> budget_true (sys_budget w) cs"
  using assms by cases (auto simp: sys_defs split: prod.splits)

interpretation sb: run_traces "sys_engine tick x" i "\<lambda>w t w'. sys_budget w' = foldl budget_call (sys_budget w) t \<and> budget_true (sys_budget w) t"
  for tick x i
proof
  fix w w' w'' :: "'a sys" and ctx rs msg ok
  assume "does (sys_engine tick x) w [CallGetResults ctx i rs] w'"
    and "does (sys_engine tick x) w' [CallUpdateStatus ctx i (final_status rs) msg ok] w''"
  then show "sys_budget w'' = foldl budget_call (sys_budget w) [CallGetResults ctx i rs, CallUpdateStatus ctx i (final_status rs) msg ok] \<and>
    budget_true (sys_budget w) [CallGetResults ctx i rs, CallUpdateStatus ctx i (final_status rs) msg ok]"
    by (auto dest!: does_budget)
qed (auto simp: budget_true_append dest: does_budget)

lemma pathsD:
  "paths m Q \<Longrightarrow> run_state m \<lparr>es_calls = [], es_world = w\<rparr> = (r, s) \<Longrightarrow> Q w (es_calls s) (es_world s)"
  unfolding paths_def by (metis append_Nil est.select_convs fst_conv snd_conv)

lemma system_trace:
  assumes "run_state (executeTestRun (sys_engine tick x) ctx run) \<lparr>es_calls = [], es_world = w\<rparr> = (r, s)"
  shows "run_trace (sys_engine tick x) run r (es_calls s)" and "list_all (own_call (run_ID run)) (es_calls s)"
    and "backed None (es_calls s)"
    and "sys_store (es_world s) = foldl (se.replay_call tick) (sys_store w) (es_calls s)" and "se.truthful tick (sys_store w) (es_calls s)"
    and "sys_budget (es_world s) = foldl budget_call (sys_budget w) (es_calls s)" and "budget_true (sys_budget w) (es_calls s)"
  using emitsD [OF emits_executeTestRun assms] pathsD [OF own.all_executeTestRun [OF refl] assms]
    pathsD [OF bk.all_executeTestRun [OF refl] assms] pathsD [OF se.rp.all_executeTestRun [OF refl] assms]
    pathsD [OF sb.all_executeTestRun [OF refl] assms] by auto



lemma budget_quiet: "list_all (\<lambda>c. \<not> is_alloc c) t \<Longrightarrow> foldl budget_call b t = b"
proof (induction t)
  case (Cons c t)
  then show ?case by (cases c) auto
qed simp

lemma bracket_restores:
  assumes "bracketed a t" and "alloc_wf b" and "small a" and "budget_true b t"
  shows "foldl budget_call b t = b"
proof -
  let ?out = "\<lambda>c. \<not> is_alloc c \<and> \<not> is_vm c"
  have out: "list_all ?out u \<Longrightarrow> foldl budget_call c u = c" for u c
    by (rule budget_quiet) (simp add: list_all_iff)
  from assms(1) consider "list_all ?out t"
    | pre post where "t = pre @ CallTryAcquire a False # post" "list_all ?out pre" "list_all ?out post"
    | pre mid where "t = pre @ CallTryAcquire a True # mid @ [CallRelease a]" "list_all ?out pre" "list_all (\<lambda>c. \<not> is_alloc c) mid"
    unfolding bracketed_def by auto
  then show ?thesis
  proof cases
    case 1
    then show ?thesis by (rule out)
  next
    case (2 pre post)
    then have "fst (TryAcquire b a) = False" using assms(4) out by (simp add: budget_true_append)
    then have "snd (TryAcquire b a) = b" using TryAcquire_fail [of b a] by (metis prod.collapse)
    with 2 show ?thesis by (simp add: out)
  next
    case (3 pre mid)
    then have "fst (TryAcquire b a) = True" using assms(4) out by (simp add: budget_true_append)
    then have "Allocator.Release (snd (TryAcquire b a)) a = b"
      using TryAcquire_Release [OF assms(2,3)] by (metis prod.collapse)
    with 3 show ?thesis by (simp add: out budget_quiet)
  qed
qed

text \<open>
  C3: a run gives back what it took. Whatever happens during it, after a run the allocator's budget is what it was
  before.
\<close>

theorem system_budget_restored:
  assumes "alloc_wf (sys_budget w)" and "small (needed (sys_engine tick x))"
    and "run_state (executeTestRun (sys_engine tick x) ctx run) \<lparr>es_calls = [], es_world = w\<rparr> = (r, s)"
  shows "sys_budget (es_world s) = sys_budget w"
proof -
  let ?a = "needed (sys_engine tick x)" and ?b = "sys_budget w"
  note tr = system_trace [OF assms(3)]
  have "bracketed ?a (es_calls s)"
    by (rule run_trace_bracketed [OF tr(1)]) (simp add: sys_engine_def)
  from bracket_restores [OF this assms(1,2) tr(7)] tr(6) show ?thesis by simp
qed

subsection \<open>Witnesses\<close>

text \<open>A store that holds one run of a Vishwa suite, and an idle budget; every command is answered \<open>passed\<close>.\<close>

definition demo_run :: TestRun where
  "demo_run = vishwa_run\<lparr>run_ID := ''tr-1''\<rparr>"

definition demo_sys :: "unit sys" where
  "demo_sys = \<lparr>sys_store = (snd (CreateTestRun 5 NewMemoryStore vishwa_run), 7),
     sys_budget = \<lparr>TotalCPUs = 4, TotalMemMB = 1024, UsedCPUs = 0, UsedMemMB = 0\<rparr>, sys_env = ()\<rparr>"

definition demo_engine :: "unit sys ExecutionEngine" where
  "demo_engine = sys_engine (\<lambda>t. t + 1) (scripted_engine (\<lambda>_. Inr (answer ''passed'' '''')))"

definition demo :: "outcome \<times> unit sys est" where
  "demo = run_state (executeTestRun demo_engine CtxEngine demo_run) \<lparr>es_calls = [], es_world = demo_sys\<rparr>"

lemma demo_exec:
  "run_state (executeTestRun (sys_engine (\<lambda>t. t + 1) (scripted_engine (\<lambda>_. Inr (answer ''passed'' '''')))) CtxEngine demo_run)
     \<lparr>es_calls = [], es_world = demo_sys\<rparr> = (fst demo, snd demo)"
  by (simp add: demo_def demo_engine_def)



theorem system_budget_restored_witness:
  "alloc_wf (sys_budget demo_sys) \<and> small (needed demo_engine) \<and> sys_budget (es_world (snd demo)) = sys_budget demo_sys"
proof -
  have a: "alloc_wf (sys_budget demo_sys)" by (simp add: demo_sys_def alloc_wf_def)
  have b: "small (needed (sys_engine (\<lambda>t. t + 1) (scripted_engine (\<lambda>_. Inr (answer ''passed'' '''')))))"
    by (simp add: small_def needed_def sys_engine_def scripted_engine_def example_config_def)
  from system_budget_restored [OF a b demo_exec] a b show ?thesis by (simp add: demo_engine_def)
qed

end
