(* ===== verification/Cluster.thy ===== *)
theory Cluster
  imports Core_Types
begin

text \<open>
  The node registry of the cluster: \<open>internal/cluster/node.go\<close> and \<open>registry.go\<close>. Every
  operation runs under the registry's mutex. Instants are nanoseconds; \<open>time.Now()\<close> is an argument
  of the operations that read the clock, and an operation that ranges over the map takes the order of its visits.

  The abstract view of the registry keeps, per node, the time of its last sign of life and whether it
  was declared offline. \<open>abs_registry\<close> is the abstraction; the lemmas show that every operation
  commutes with it and that the queries read only it.
\<close>

subsection \<open>Data\<close>

datatype NodeStatus = NodeStatusUnset | NodeStatusHealthy | NodeStatusDegraded | NodeStatusOffline

record Node =
  nd_ID :: string
  nd_Hostname :: string
  nd_GRPCAddr :: string
  nd_Role :: string
  nd_TotalCPUs :: int
  nd_TotalMemMB :: int
  nd_UsedCPUs :: int
  nd_UsedMemMB :: int
  nd_LastSeen :: int
  nd_Status :: NodeStatus
  nd_Version :: string

record HeartbeatRequest =
  hb_NodeID :: string
  hb_Hostname :: string
  hb_GRPCAddr :: string
  hb_Role :: string
  hb_TotalCPUs :: int
  hb_TotalMemMB :: int
  hb_UsedCPUs :: int
  hb_UsedMemMB :: int
  hb_Version :: string

record NodeRegistry =
  nr_nodes :: "(string, Node) gomap"
  nr_heartbeatTTL :: int

definition zero_Node :: Node where
  "zero_Node = \<lparr>nd_ID = '''', nd_Hostname = '''', nd_GRPCAddr = '''', nd_Role = '''', nd_TotalCPUs = 0, nd_TotalMemMB = 0,
     nd_UsedCPUs = 0, nd_UsedMemMB = 0, nd_LastSeen = 0, nd_Status = NodeStatusUnset, nd_Version = ''''\<rparr>"

subsection \<open>Operations\<close>

definition NewNodeRegistry :: "int \<Rightarrow> NodeRegistry" where
  "NewNodeRegistry heartbeatTTL =
     \<lparr>nr_nodes = [], nr_heartbeatTTL = (if heartbeatTTL \<le> 0 then 30 * 1000000000 else heartbeatTTL)\<rparr>"

definition fill_node :: "int \<Rightarrow> HeartbeatRequest \<Rightarrow> Node \<Rightarrow> Node" where
  "fill_node now req n =
     n\<lparr>nd_Hostname := hb_Hostname req, nd_GRPCAddr := hb_GRPCAddr req, nd_Role := hb_Role req,
       nd_TotalCPUs := hb_TotalCPUs req, nd_TotalMemMB := hb_TotalMemMB req, nd_UsedCPUs := hb_UsedCPUs req,
       nd_UsedMemMB := hb_UsedMemMB req, nd_Version := hb_Version req, nd_LastSeen := now,
       nd_Status := NodeStatusHealthy\<rparr>"

definition Register :: "int \<Rightarrow> HeartbeatRequest \<Rightarrow> NodeRegistry \<Rightarrow> NodeRegistry" where
  "Register now req r =
     (let existing = (case map_of (nr_nodes r) (hb_NodeID req) of
                        Some n \<Rightarrow> n | None \<Rightarrow> zero_Node\<lparr>nd_ID := hb_NodeID req\<rparr>)
      in r\<lparr>nr_nodes := gput (hb_NodeID req) (fill_node now req existing) (nr_nodes r)\<rparr>)"

definition Heartbeat :: "int \<Rightarrow> string \<Rightarrow> NodeRegistry \<Rightarrow> bool \<times> NodeRegistry" where
  "Heartbeat now nodeID r =
     (case map_of (nr_nodes r) nodeID of
        None \<Rightarrow> (False, r)
      | Some n \<Rightarrow> (True, r\<lparr>nr_nodes := gput nodeID (n\<lparr>nd_LastSeen := now, nd_Status := NodeStatusHealthy\<rparr>) (nr_nodes r)\<rparr>))"

fun visit :: "(Node \<Rightarrow> bool) \<Rightarrow> (string, Node) gomap \<Rightarrow> string list \<Rightarrow> Node list" where
  "visit P m [] = []"
| "visit P m (k # ks) = (case map_of m k of None \<Rightarrow> visit P m ks
     | Some n \<Rightarrow> if P n then n # visit P m ks else visit P m ks)"

definition List :: "string list \<Rightarrow> NodeRegistry \<Rightarrow> Node list" where
  "List ks r = visit (\<lambda>_. True) (nr_nodes r) ks"

definition ListHealthy :: "string list \<Rightarrow> NodeRegistry \<Rightarrow> Node list" where
  "ListHealthy ks r = visit (\<lambda>n. nd_Status n \<noteq> NodeStatusOffline) (nr_nodes r) ks"

definition Get :: "string \<Rightarrow> NodeRegistry \<Rightarrow> Node \<times> bool" where
  "Get nodeID r = (case map_of (nr_nodes r) nodeID of None \<Rightarrow> (zero_Node, False) | Some n \<Rightarrow> (n, True))"

definition stale :: "int \<Rightarrow> int \<Rightarrow> Node \<Rightarrow> bool" where
  "stale ttl now n \<longleftrightarrow> nd_Status n \<noteq> NodeStatusOffline \<and> time_sub now (nd_LastSeen n) > ttl"

fun evict_from :: "int \<Rightarrow> int \<Rightarrow> string list \<Rightarrow> int \<times> (string, Node) gomap \<Rightarrow> int \<times> (string, Node) gomap" where
  "evict_from ttl now [] s = s"
| "evict_from ttl now (k # ks) (evicted, m) =
     (case map_of m k of
        None \<Rightarrow> evict_from ttl now ks (evicted, m)
      | Some n \<Rightarrow>
          if stale ttl now n
          then evict_from ttl now ks (evicted + 1, gput k (n\<lparr>nd_Status := NodeStatusOffline\<rparr>) m)
          else evict_from ttl now ks (evicted, m))"

definition Evict :: "int \<Rightarrow> string list \<Rightarrow> NodeRegistry \<Rightarrow> int \<times> NodeRegistry" where
  "Evict now ks r =
     (case evict_from (nr_heartbeatTTL r) now ks (0, nr_nodes r) of (n, m) \<Rightarrow> (n, r\<lparr>nr_nodes := m\<rparr>))"

text \<open>
  \<open>RunEviction\<close> until its context is done: the ticks that arrive, each with the time and the order of the visits.
  \<open>time.NewTicker\<close> panics on a period that is not positive.
\<close>

definition RunEviction :: "(int \<times> string list) list \<Rightarrow> NodeRegistry \<Rightarrow> NodeRegistry res" where
  "RunEviction ticks r =
     (if nr_heartbeatTTL r sdiv 2 \<le> 0 then Panic ''non-positive interval for NewTicker''
      else Ok (foldl (\<lambda>r (now, ks). snd (Evict now ks r)) r ticks))"

fun count_from :: "Node list \<Rightarrow> int \<times> int \<times> int \<Rightarrow> int \<times> int \<times> int" where
  "count_from [] acc = acc"
| "count_from (n # ns) (h, d, f) =
     count_from ns (case nd_Status n of
         NodeStatusHealthy \<Rightarrow> (h + 1, d, f)
       | NodeStatusDegraded \<Rightarrow> (h, d + 1, f)
       | NodeStatusOffline \<Rightarrow> (h, d, f + 1)
       | NodeStatusUnset \<Rightarrow> (h, d, f))"

definition Count :: "string list \<Rightarrow> NodeRegistry \<Rightarrow> int \<times> int \<times> int" where
  "Count ks r = count_from (visit (\<lambda>_. True) (nr_nodes r) ks) (0, 0, 0)"

subsection \<open>Histories, invariant and abstraction\<close>

datatype cl_op = CRegister int HeartbeatRequest | CHeartbeat int string | CEvict int "string list"

fun cl_step :: "NodeRegistry \<Rightarrow> cl_op \<Rightarrow> NodeRegistry" where
  "cl_step r (CRegister now req) = Register now req r"
| "cl_step r (CHeartbeat now k) = snd (Heartbeat now k r)"
| "cl_step r (CEvict now ks) = snd (Evict now ks r)"

text \<open>Sweeps range over the map, so they visit every node once.\<close>

fun cl_ok :: "NodeRegistry \<Rightarrow> cl_op \<Rightarrow> bool" where
  "cl_ok r (CEvict _ ks) = is_range ks (nr_nodes r)"
| "cl_ok r _ = True"

fun cl_run :: "NodeRegistry \<Rightarrow> cl_op list \<Rightarrow> NodeRegistry option" where
  "cl_run r [] = Some r"
| "cl_run r (op # ops) = (if cl_ok r op then cl_run (cl_step r op) ops else None)"

definition reg_inv :: "NodeRegistry \<Rightarrow> bool" where
  "reg_inv r \<longleftrightarrow> 0 < nr_heartbeatTTL r \<and> distinct (gkeys (nr_nodes r)) \<and>
     (\<forall>(k, n) \<in> set (nr_nodes r). nd_ID n = k \<and> (nd_Status n = NodeStatusHealthy \<or> nd_Status n = NodeStatusOffline))"

type_synonym abs_cluster = "string \<rightharpoonup> int \<times> bool"

definition abs_node :: "Node \<Rightarrow> int \<times> bool" where
  "abs_node n = (nd_LastSeen n, nd_Status n = NodeStatusOffline)"

definition abs_registry :: "NodeRegistry \<Rightarrow> abs_cluster" where
  "abs_registry r = (\<lambda>k. map_option abs_node (map_of (nr_nodes r) k))"

fun abs_step :: "int \<Rightarrow> abs_cluster \<Rightarrow> cl_op \<Rightarrow> abs_cluster" where
  "abs_step ttl A (CRegister now req) = A(hb_NodeID req \<mapsto> (now, False))"
| "abs_step ttl A (CHeartbeat now k) = (if k \<in> dom A then A(k \<mapsto> (now, False)) else A)"
| "abs_step ttl A (CEvict now ks) = (\<lambda>k. map_option (\<lambda>(t, off). (t, off \<or> time_sub now t > ttl)) (A k))"

subsection \<open>Lemmas\<close>

lemma evict_from_lookup:
  "distinct ks \<Longrightarrow> map_of (snd (evict_from ttl now ks (c, m))) k =
    (if k \<in> set ks then map_option (\<lambda>n. if stale ttl now n then n\<lparr>nd_Status := NodeStatusOffline\<rparr> else n) (map_of m k)
     else map_of m k)"
  by (induction ks arbitrary: c m) (auto split: option.split)

lemma evict_from_keys: "gkeys (snd (evict_from ttl now ks (c, m))) = gkeys m"
  by (induction ks arbitrary: c m) (auto simp: gkeys_gput_old split: option.split)

lemma evict_from_count:
  "distinct ks \<Longrightarrow> fst (evict_from ttl now ks (c, m)) = c + int (length (visit (stale ttl now) m ks))"
proof (induction ks arbitrary: c m)
  case (Cons k ks)
  have "visit P (gput k n m) ks = visit P m ks" if "k \<notin> set ks" for P n
    using that by (induction ks) (auto split: option.split)
  with Cons show ?case by (auto split: option.split)
qed simp

lemma Evict_lookup:
  "is_range ks (nr_nodes r) \<Longrightarrow> map_of (nr_nodes (snd (Evict now ks r))) k =
    map_option (\<lambda>n. if stale (nr_heartbeatTTL r) now n then n\<lparr>nd_Status := NodeStatusOffline\<rparr> else n) (map_of (nr_nodes r) k)"
  using evict_from_lookup [of ks "nr_heartbeatTTL r" now 0 "nr_nodes r" k]
  by (cases "map_of (nr_nodes r) k") (auto simp: Evict_def is_range_def split: prod.splits)

lemma cl_step_ttl [simp]: "nr_heartbeatTTL (cl_step r op) = nr_heartbeatTTL r"
  by (cases op) (auto simp: Register_def Heartbeat_def Evict_def Let_def split: option.split prod.split)

lemma reg_inv_iff:
  "reg_inv r \<longleftrightarrow> 0 < nr_heartbeatTTL r \<and> distinct (gkeys (nr_nodes r)) \<and>
     (\<forall>k n. map_of (nr_nodes r) k = Some n \<longrightarrow> nd_ID n = k \<and> (nd_Status n = NodeStatusHealthy \<or> nd_Status n = NodeStatusOffline))"
proof (cases "distinct (gkeys (nr_nodes r))")
  case True
  then show ?thesis by (simp only: reg_inv_def ball_gomap)
qed (simp add: reg_inv_def)

lemma reg_inv_new: "reg_inv (NewNodeRegistry ttl)"
  by (simp add: reg_inv_def NewNodeRegistry_def)

lemma cl_step_keys: "distinct (gkeys (nr_nodes r)) \<Longrightarrow> distinct (gkeys (nr_nodes (cl_step r op)))"
proof (cases op)
  case (CEvict now ks)
  assume "distinct (gkeys (nr_nodes r))"
  then show ?thesis using evict_from_keys [of "nr_heartbeatTTL r" now ks 0 "nr_nodes r"] CEvict
    by (auto simp: Evict_def split: prod.split simp del: gkeys_gput)
qed (auto simp: Register_def Heartbeat_def Let_def split: option.split)

lemma cl_step_nodes:
  assumes "\<And>k n. map_of (nr_nodes r) k = Some n \<Longrightarrow> nd_ID n = k \<and> (nd_Status n = NodeStatusHealthy \<or> nd_Status n = NodeStatusOffline)"
    and "cl_ok r op" and "map_of (nr_nodes (cl_step r op)) k = Some n"
  shows "nd_ID n = k \<and> (nd_Status n = NodeStatusHealthy \<or> nd_Status n = NodeStatusOffline)"
proof (cases op)
  case (CRegister now req)
  then show ?thesis using assms
    by (auto simp: Register_def fill_node_def zero_Node_def Let_def split: option.splits if_splits)
next
  case (CHeartbeat now j)
  then show ?thesis using assms by (auto simp: Heartbeat_def split: option.splits if_splits)
next
  case (CEvict now ks)
  then show ?thesis using assms by (auto simp: Evict_lookup split: if_splits)
qed

lemma reg_inv_step [inv_intros]:
  assumes "reg_inv r" and "cl_ok r op"
  shows "reg_inv (cl_step r op)"
proof -
  from assms(1) have r: "0 < nr_heartbeatTTL r" "distinct (gkeys (nr_nodes r))"
    and n: "\<And>k n. map_of (nr_nodes r) k = Some n \<Longrightarrow> nd_ID n = k \<and> (nd_Status n = NodeStatusHealthy \<or> nd_Status n = NodeStatusOffline)"
    unfolding reg_inv_iff by blast+
  show ?thesis unfolding reg_inv_iff using r cl_step_keys [OF r(2)] cl_step_nodes [OF n assms(2)] by (intro conjI allI impI) simp_all
qed

lemma cl_run_inv: "reg_inv r \<Longrightarrow> cl_run r ops = Some r' \<Longrightarrow> reg_inv r' \<and> nr_heartbeatTTL r' = nr_heartbeatTTL r"
proof (induction ops arbitrary: r)
  case (Cons op ops)
  then have "reg_inv (cl_step r op)" and "cl_run (cl_step r op) ops = Some r'"
    by (auto simp: reg_inv_step split: if_splits)
  from Cons.IH [OF this] show ?case by simp
qed simp

lemma abs_step_correct:
  assumes "cl_ok r op"
  shows "abs_registry (cl_step r op) = abs_step (nr_heartbeatTTL r) (abs_registry r) op"
proof (cases op)
  case (CRegister now req)
  then show ?thesis
    by (auto simp: abs_registry_def abs_node_def Register_def fill_node_def Let_def fun_eq_iff)
next
  case (CHeartbeat now k)
  then show ?thesis
    by (auto simp: abs_registry_def abs_node_def Heartbeat_def fun_eq_iff dom_def split: option.split)
next
  case (CEvict now ks)
  then have "map_of (nr_nodes (snd (Evict now ks r))) k =
    map_option (\<lambda>n. if stale (nr_heartbeatTTL r) now n then n\<lparr>nd_Status := NodeStatusOffline\<rparr> else n) (map_of (nr_nodes r) k)" for k
    using assms Evict_lookup by simp
  with CEvict show ?thesis
    by (auto simp: abs_registry_def abs_node_def stale_def fun_eq_iff option.map_comp intro!: option.map_cong)
qed

lemma visit_filter: "set ks \<subseteq> dom (map_of m) \<Longrightarrow> visit P m ks = filter P (map (\<lambda>k. the (map_of m k)) ks)"
  by (induction ks) auto

lemma count_from_counts:
  "count_from ns (h, d, f) =
     (h + int (length (filter (\<lambda>n. nd_Status n = NodeStatusHealthy) ns)),
      d + int (length (filter (\<lambda>n. nd_Status n = NodeStatusDegraded) ns)),
      f + int (length (filter (\<lambda>n. nd_Status n = NodeStatusOffline) ns)))"
  by (induction ns arbitrary: h d f) (auto split: NodeStatus.split)

lemma cl_run_abs:
  "cl_run r ops = Some r' \<Longrightarrow> abs_registry r' = foldl (abs_step (nr_heartbeatTTL r)) (abs_registry r) ops"
proof (induction ops arbitrary: r)
  case (Cons op ops)
  then have "cl_ok r op" and "cl_run (cl_step r op) ops = Some r'" by (auto split: if_splits)
  with Cons.IH [of "cl_step r op"] abs_step_correct [of r op] show ?case by simp
qed simp

text \<open>A node's own view of a history: only signs of life of \<open>k\<close> and sweeps matter.\<close>

fun beats :: "string \<Rightarrow> cl_op \<Rightarrow> bool" where
  "beats k (CRegister _ req) = (hb_NodeID req = k)"
| "beats k (CHeartbeat _ j) = (j = k)"
| "beats k (CEvict _ _) = False"

lemma abs_silent:
  "list_all (\<lambda>op. \<not> beats k op) ops \<Longrightarrow> A k = Some (t, off) \<Longrightarrow>
    foldl (abs_step ttl) A ops k = Some (t, off \<or> (\<exists>t' ks. CEvict t' ks \<in> set ops \<and> time_sub t' t > ttl))"
proof (induction ops arbitrary: A off)
  case (Cons op ops)
  show ?case
  proof (cases op)
    case (CRegister now req)
    then have "abs_step ttl A op k = Some (t, off)" using Cons.prems by auto
    from Cons.IH [of "abs_step ttl A op", OF _ this] Cons.prems(1) CRegister show ?thesis by (auto simp del: abs_step.simps)
  next
    case (CHeartbeat now j)
    then have "abs_step ttl A op k = Some (t, off)" using Cons.prems by auto
    from Cons.IH [of "abs_step ttl A op", OF _ this] Cons.prems(1) CHeartbeat show ?thesis by (auto simp del: abs_step.simps)
  next
    case (CEvict now ks)
    then have "abs_step ttl A op k = Some (t, off \<or> time_sub now t > ttl)" using Cons.prems by simp
    from Cons.IH [of "abs_step ttl A op", OF _ this] Cons.prems(1) CEvict show ?thesis by (auto simp del: abs_step.simps)
  qed
qed simp

lemma offline_abs: "(\<exists>n. map_of (nr_nodes r) k = Some n \<and> nd_Status n = NodeStatusOffline) \<longleftrightarrow> (\<exists>t. abs_registry r k = Some (t, True))"
  by (auto simp: abs_registry_def abs_node_def)

lemma visit_ids:
  assumes "reg_inv r" and "is_range ks (nr_nodes r)"
  shows "nd_ID ` set (visit P (nr_nodes r) ks) = {k. \<exists>n. map_of (nr_nodes r) k = Some n \<and> P n}"
proof -
  have "set (visit P (nr_nodes r) ks) = {n. \<exists>k. map_of (nr_nodes r) k = Some n \<and> P n}"
    using assms(2) by (subst visit_filter) (force simp: is_range_def)+
  moreover have "nd_ID n = k" if "map_of (nr_nodes r) k = Some n" for k n using assms(1) that unfolding reg_inv_iff by blast
  ultimately show ?thesis by auto
qed

lemma count_split:
  assumes "reg_inv r" and "is_range ks (nr_nodes r)"
  shows "Count ks r = (int (length (ListHealthy ks r)), 0, int (length ks) - int (length (ListHealthy ks r)))"
proof -
  let ?ns = "map (\<lambda>k. the (map_of (nr_nodes r) k)) ks"
  have dom: "set ks \<subseteq> dom (map_of (nr_nodes r))" using assms(2) by (simp add: is_range_def)
  have st: "nd_Status n = NodeStatusHealthy \<or> nd_Status n = NodeStatusOffline" if "n \<in> set ?ns" for n
    using assms(1) dom that unfolding reg_inv_iff by force
  have h: "filter (\<lambda>n. nd_Status n = NodeStatusHealthy) ?ns = filter (\<lambda>n. nd_Status n \<noteq> NodeStatusOffline) ?ns"
    using st by (intro filter_cong) force+
  have d: "filter (\<lambda>n. nd_Status n = NodeStatusDegraded) ?ns = []"
    using st by (force simp: filter_empty_conv)
  have "length (filter (\<lambda>n. nd_Status n = NodeStatusOffline) ?ns) + length (filter (\<lambda>n. nd_Status n \<noteq> NodeStatusOffline) ?ns) = length ks"
    using sum_length_filter_compl [of "\<lambda>n. nd_Status n = NodeStatusOffline" ?ns] by simp
  then show ?thesis
    unfolding Count_def ListHealthy_def visit_filter [OF dom] count_from_counts filter_True [OF ballI [OF TrueI]] h d by simp
qed

subsection \<open>Properties\<close>

text \<open>
  C21: the registry implements its abstract view. After every sequence of registrations, heartbeats
  and sweeps, the registry shows exactly the last sign of life and the offline mark that the abstract
  cluster computes; \<open>ListHealthy\<close> lists the nodes that are not marked, and \<open>Count\<close> splits all
  nodes into these and the offline ones.
\<close>

theorem cluster_refinement:
  assumes "cl_run (NewNodeRegistry ttl) ops = Some r" and "is_range ks (nr_nodes r)"
  shows "abs_registry r = foldl (abs_step (nr_heartbeatTTL r)) Map.empty ops \<and>
    nd_ID ` set (ListHealthy ks r) = {k. \<exists>t. abs_registry r k = Some (t, False)} \<and>
    Count ks r = (int (length (ListHealthy ks r)), 0, int (length ks) - int (length (ListHealthy ks r)))"
proof -
  note inv = cl_run_inv [OF reg_inv_new assms(1)]
  have "abs_registry (NewNodeRegistry ttl) = Map.empty" by (simp add: abs_registry_def NewNodeRegistry_def)
  then have "abs_registry r = foldl (abs_step (nr_heartbeatTTL r)) Map.empty ops" using cl_run_abs [OF assms(1)] inv by simp
  moreover have "nd_ID ` set (ListHealthy ks r) = {k. \<exists>t. abs_registry r k = Some (t, False)}"
    unfolding ListHealthy_def visit_ids [OF conjunct1 [OF inv] assms(2)] by (auto simp: abs_registry_def abs_node_def)
  ultimately show ?thesis using count_split [OF conjunct1 [OF inv] assms(2)] by blast
qed

definition example_beat :: "string \<Rightarrow> HeartbeatRequest" where
  "example_beat k = \<lparr>hb_NodeID = k, hb_Hostname = ''h'', hb_GRPCAddr = '''', hb_Role = ''worker'', hb_TotalCPUs = 8,
     hb_TotalMemMB = 16, hb_UsedCPUs = 0, hb_UsedMemMB = 0, hb_Version = ''''\<rparr>"

definition example_cluster :: "cl_op list" where
  "example_cluster = [CRegister 1 (example_beat ''a''), CRegister 2 (example_beat ''b''), CEvict 6 [''b'', ''a''],
     CHeartbeat 8 ''b'', CEvict 12 [''a'', ''b'']]"

theorem cluster_refinement_witness:
  "let r = the (cl_run (NewNodeRegistry 5) example_cluster)
   in cl_run (NewNodeRegistry 5) example_cluster = Some r \<and> is_range [''a'', ''b''] (nr_nodes r) \<and>
      map nd_ID (ListHealthy [''a'', ''b''] r) = [''b''] \<and> Count [''a'', ''b''] r = (1, 0, 1) \<and>
      nd_ID ` set (ListHealthy [''a'', ''b''] r) = {k. \<exists>t. abs_registry r k = Some (t, False)}"
proof -
  let ?r = "the (cl_run (NewNodeRegistry 5) example_cluster)"
  have "cl_run (NewNodeRegistry 5) example_cluster \<noteq> None" by code_simp
  then have a: "cl_run (NewNodeRegistry 5) example_cluster = Some ?r" by auto
  have b: "is_range [''a'', ''b''] (nr_nodes ?r)" by code_simp
  have "map nd_ID (ListHealthy [''a'', ''b''] ?r) = [''b'']" and "Count [''a'', ''b''] ?r = (1, 0, 1)" by code_simp+
  with a b cluster_refinement [OF a b] show ?thesis by (simp add: Let_def)
qed

text \<open>
  When a node is offline. A node whose last sign of life was its registration at time \<open>t\<close> is offline
  exactly when some later sweep ran more than the TTL after \<open>t\<close>; what other nodes do does not matter.
\<close>

theorem cluster_offline_iff:
  assumes "cl_run (NewNodeRegistry ttl) (pre @ CRegister t req # post) = Some r"
    and "\<forall>op \<in> set post. \<not> beats (hb_NodeID req) op"
  shows "nd_Status (fst (Get (hb_NodeID req) r)) = NodeStatusOffline \<longleftrightarrow>
    (\<exists>t' ks. CEvict t' ks \<in> set post \<and> time_sub t' t > nr_heartbeatTTL r)"
proof -
  let ?k = "hb_NodeID req" and ?ttl = "nr_heartbeatTTL r"
  have ttl: "nr_heartbeatTTL (NewNodeRegistry ttl) = ?ttl" using cl_run_inv [OF reg_inv_new assms(1)] by simp
  have "abs_registry r = foldl (abs_step ?ttl) ((foldl (abs_step ?ttl) (abs_registry (NewNodeRegistry ttl)) pre)(?k \<mapsto> (t, False))) post"
    using cl_run_abs [OF assms(1)] unfolding ttl by simp
  then have a: "abs_registry r ?k = Some (t, \<exists>t' ks. CEvict t' ks \<in> set post \<and> time_sub t' t > ?ttl)"
    using abs_silent [of ?k post "(foldl (abs_step ?ttl) (abs_registry (NewNodeRegistry ttl)) pre)(?k \<mapsto> (t, False))" t False ?ttl]
      assms(2) by (simp add: list_all_iff)
  then obtain n where "map_of (nr_nodes r) ?k = Some n" "abs_node n = (t, \<exists>t' ks. CEvict t' ks \<in> set post \<and> time_sub t' t > ?ttl)"
    by (auto simp: abs_registry_def)
  then show ?thesis by (simp add: Get_def abs_node_def)
qed

theorem cluster_offline_iff_witness:
  "let r = the (cl_run (NewNodeRegistry 5) (CRegister 1 (example_beat ''a'') # tl example_cluster))
   in nd_Status (fst (Get ''a'' r)) = NodeStatusOffline \<and>
      (\<exists>t' ks. CEvict t' ks \<in> set (tl example_cluster) \<and> time_sub t' 1 > nr_heartbeatTTL r)"
proof -
  let ?ops = "[] @ CRegister 1 (example_beat ''a'') # tl example_cluster"
  let ?r = "the (cl_run (NewNodeRegistry 5) ?ops)"
  have "cl_run (NewNodeRegistry 5) ?ops \<noteq> None" by code_simp
  then have a: "cl_run (NewNodeRegistry 5) ?ops = Some ?r" by auto
  have b: "\<forall>op \<in> set (tl example_cluster). \<not> beats (hb_NodeID (example_beat ''a'')) op" by code_simp
  have "nd_Status (fst (Get ''a'' ?r)) = NodeStatusOffline" by code_simp
  with cluster_offline_iff [OF a b] show ?thesis by (simp add: example_beat_def Let_def)
qed

end
