(* ===== verification/Recovery.thy ===== *)
theory Recovery
  imports Memory_Store Scheduler
begin

text \<open>
  Crash recovery, \<open>internal/core/state_manager.go\<close>. The store is a record of the operations of
  \<open>RecoveryStore\<close> on a world \<open>'w\<close>; \<open>kill\<close> is \<open>os.FindProcess\<close> followed by
  the signal, whose errors are only logged. \<open>RecoverState\<close> returns the world, the scheduler and the
  result; a panic of \<open>Enqueue\<close> ends it.
\<close>

subsection \<open>Operations\<close>

record 'w RecoveryStore =
  rs_ListRunningTestRuns :: "'w \<Rightarrow> (error + TestRun list) \<times> 'w"
  rs_UpdateTestRunStatus :: "string \<Rightarrow> TestRunStatus \<Rightarrow> string \<Rightarrow> 'w \<Rightarrow> (error + unit) \<times> 'w"
  rs_ListOrphanedVMs :: "'w \<Rightarrow> (error + VMInstance list) \<times> 'w"
  rs_UpdateVMStatus :: "string \<Rightarrow> VMStatus \<Rightarrow> 'w \<Rightarrow> (error + unit) \<times> 'w"

definition restart_msg :: string where
  "restart_msg = ''orchestrator restarted '' @ map char_of [226, 128, 148 :: nat] @ '' re-queued for retry''"

fun recover_runs :: "'w RecoveryStore \<Rightarrow> TestRun list \<Rightarrow> 'w \<Rightarrow> Scheduler \<Rightarrow> 'w \<times> Scheduler \<times> unit res" where
  "recover_runs rs [] w s = (w, s, Ok ())"
| "recover_runs rs (run # runs) w s =
     (case run_Status run of
        TestRunStatusPending \<Rightarrow>
          (case Enqueue s run of (s', Ok _) \<Rightarrow> recover_runs rs runs w s' | (s', r) \<Rightarrow> (w, s', r))
      | st \<Rightarrow>
          if st = TestRunStatusRunning \<or> st = TestRunStatusQueued
          then (case rs_UpdateTestRunStatus rs (run_ID run) TestRunStatusErrored restart_msg w of
                  (Inl _, w') \<Rightarrow> recover_runs rs runs w' s
                | (Inr _, w') \<Rightarrow>
                    (case Enqueue s (run\<lparr>run_Status := TestRunStatusPending, run_VMID := ''''\<rparr>) of
                       (s', Ok _) \<Rightarrow> recover_runs rs runs w' s'
                     | (s', r) \<Rightarrow> (w', s', r)))
          else recover_runs rs runs w s)"

fun recover_vms :: "'w RecoveryStore \<Rightarrow> (int \<Rightarrow> 'w \<Rightarrow> 'w) \<Rightarrow> VMInstance list \<Rightarrow> 'w \<Rightarrow> 'w" where
  "recover_vms rs kill [] w = w"
| "recover_vms rs kill (vm # vms) w =
     (let w1 = (if vm_PID vm > 0 then kill (vm_PID vm) w else w)
      in recover_vms rs kill vms (snd (rs_UpdateVMStatus rs (vm_ID vm) VMStatusError w1)))"

definition RecoverState :: "'w RecoveryStore \<Rightarrow> (int \<Rightarrow> 'w \<Rightarrow> 'w) \<Rightarrow> 'w \<Rightarrow> Scheduler \<Rightarrow> 'w \<times> Scheduler \<times> unit res" where
  "RecoverState rs kill w s =
     (case rs_ListRunningTestRuns rs w of
        (Inl err, w1) \<Rightarrow> (w1, s, Err (EWrap ''listing running test runs for recovery'' err))
      | (Inr runs, w1) \<Rightarrow>
          (case recover_runs rs runs w1 s of
             (w2, s2, Ok _) \<Rightarrow>
               (case rs_ListOrphanedVMs rs w2 of
                  (Inl err, w3) \<Rightarrow> (w3, s2, Err (EWrap ''listing orphaned VMs for recovery'' err))
                | (Inr orphans, w3) \<Rightarrow> (recover_vms rs kill orphans w3, s2, Ok ()))
           | (w2, s2, r) \<Rightarrow> (w2, s2, r)))"

subsection \<open>Recovery on the memory store\<close>

text \<open>
  The world: the store, its clock, the process IDs that were killed, and the order in which the store's maps are
  ranged over.
\<close>

record rec_world =
  rw_store :: MemoryStore
  rw_now :: int
  rw_killed :: "int list"
  rw_runs :: "string list"
  rw_vms :: "string list"

definition mem_recovery :: "rec_world RecoveryStore" where
  "mem_recovery = \<lparr>
     rs_ListRunningTestRuns = (\<lambda>w. (Inr (ListRunningTestRuns (rw_store w) (rw_runs w)), w)),
     rs_UpdateTestRunStatus = (\<lambda>i st msg w. case UpdateTestRunStatus (rw_now w) (rw_store w) i st msg of
        Ok m \<Rightarrow> (Inr (), w\<lparr>rw_store := m\<rparr>) | Err e \<Rightarrow> (Inl e, w) | Panic p \<Rightarrow> (Inl (EText p), w)),
     rs_ListOrphanedVMs = (\<lambda>w. (Inr (ListOrphanedVMs (rw_store w) (rw_vms w)), w)),
     rs_UpdateVMStatus = (\<lambda>i st w. case UpdateVMStatus (rw_store w) i st of
        Ok m \<Rightarrow> (Inr (), w\<lparr>rw_store := m\<rparr>) | Err e \<Rightarrow> (Inl e, w) | Panic p \<Rightarrow> (Inl (EText p), w))\<rparr>"

definition mem_kill :: "int \<Rightarrow> rec_world \<Rightarrow> rec_world" where
  "mem_kill pid w = w\<lparr>rw_killed := rw_killed w @ [pid]\<rparr>"

text \<open>What is put into the queue for a run that was in flight.\<close>

definition requeued :: "TestRun \<Rightarrow> TestRun" where
  "requeued run = (if run_Status run = TestRunStatusPending then run
     else run\<lparr>run_Status := TestRunStatusPending, run_VMID := ''''\<rparr>)"

definition crashed :: "TestRunStatus \<Rightarrow> bool" where
  "crashed st \<longleftrightarrow> st = TestRunStatusRunning \<or> st = TestRunStatusQueued"

subsection \<open>Lemmas\<close>

lemma Enqueue_open: "\<not> sch_closed s \<Longrightarrow> Enqueue s run = (s\<lparr>sch_queue := sch_queue s @ [run], sch_token := True\<rparr>, Ok ())"
  by (simp add: Enqueue_def enqueue_cs_def signal_def)

lemma mem_update_known:
  "map_of (ms_testRuns (rw_store w)) i = Some run \<Longrightarrow>
   rs_UpdateTestRunStatus mem_recovery i st msg w =
     (Inr (), w\<lparr>rw_store := (rw_store w)\<lparr>ms_testRuns := gput i (stamp_status (rw_now w) st msg run) (ms_testRuns (rw_store w))\<rparr>\<rparr>)"
  by (simp add: mem_recovery_def UpdateTestRunStatus_def)

text \<open>The stored runs after the first loop.\<close>

definition mark_crashed :: "int \<Rightarrow> TestRun \<Rightarrow> (string, TestRun) gomap \<Rightarrow> (string, TestRun) gomap" where
  "mark_crashed now run m =
     (if crashed (run_Status run) then gput (run_ID run) (stamp_status now TestRunStatusErrored restart_msg run) m else m)"

lemma mark_crashed_other: "i \<noteq> run_ID run \<Longrightarrow> map_of (mark_crashed now run m) i = map_of m i"
  by (simp add: mark_crashed_def)

lemma recover_runs_mem:
  assumes "distinct (map run_ID runs)" and "\<not> sch_closed s"
    and "\<forall>r \<in> set runs. map_of (ms_testRuns (rw_store w)) (run_ID r) = Some r \<and> in_flight (run_Status r)"
  shows "recover_runs mem_recovery runs w s =
    (w\<lparr>rw_store := (rw_store w)\<lparr>ms_testRuns := fold (mark_crashed (rw_now w)) runs (ms_testRuns (rw_store w))\<rparr>\<rparr>,
     s\<lparr>sch_queue := sch_queue s @ map requeued runs, sch_token := sch_token s \<or> runs \<noteq> []\<rparr>, Ok ())"
  using assms
proof (induction runs arbitrary: w s)
  case (Cons run runs)
  let ?w = "w\<lparr>rw_store := (rw_store w)\<lparr>ms_testRuns := mark_crashed (rw_now w) run (ms_testRuns (rw_store w))\<rparr>\<rparr>"
  let ?s = "s\<lparr>sch_queue := sch_queue s @ [requeued run], sch_token := True\<rparr>"
  have st: "in_flight (run_Status run)" and m: "map_of (ms_testRuns (rw_store w)) (run_ID run) = Some run"
    using Cons.prems(3) by auto
  have rest: "\<forall>r \<in> set runs. map_of (ms_testRuns (rw_store ?w)) (run_ID r) = Some r \<and> in_flight (run_Status r)"
  proof
    fix r
    assume r: "r \<in> set runs"
    then have "run_ID r \<noteq> run_ID run" using Cons.prems(1) by (auto simp: image_iff)
    then show "map_of (ms_testRuns (rw_store ?w)) (run_ID r) = Some r \<and> in_flight (run_Status r)"
      using Cons.prems(3) r by (simp add: mark_crashed_other)
  qed
  have "recover_runs mem_recovery (run # runs) w s = recover_runs mem_recovery runs ?w ?s"
    using st m Cons.prems(2)
    by (cases "run_Status run")
      (auto simp: in_flight_def crashed_def requeued_def mark_crashed_def Enqueue_open mem_update_known)
  also have "\<dots> = (?w\<lparr>rw_store := (rw_store ?w)\<lparr>ms_testRuns := fold (mark_crashed (rw_now ?w)) runs (ms_testRuns (rw_store ?w))\<rparr>\<rparr>,
     ?s\<lparr>sch_queue := sch_queue ?s @ map requeued runs, sch_token := sch_token ?s \<or> runs \<noteq> []\<rparr>, Ok ())"
    using Cons.IH [OF _ _ rest, of ?s] Cons.prems by simp
  finally show ?case by simp
qed simp

lemma mark_crashed_lookup:
  "distinct (map run_ID runs) \<Longrightarrow> map_of (fold (mark_crashed now) runs m) i =
     (case find (\<lambda>r. run_ID r = i) runs of
        None \<Rightarrow> map_of m i
      | Some r \<Rightarrow> if crashed (run_Status r) then Some (stamp_status now TestRunStatusErrored restart_msg r) else map_of m i)"
proof (induction runs arbitrary: m)
  case (Cons run runs)
  have "find (\<lambda>r. run_ID r = i) runs = None" if "run_ID run = i"
    using Cons.prems that by (auto simp: find_None_iff image_iff)
  with Cons show ?case by (auto simp: mark_crashed_def split: option.split)
qed simp

text \<open>The second loop.\<close>

fun mark_error :: "VMInstance \<Rightarrow> (string, VMInstance) gomap \<Rightarrow> (string, VMInstance) gomap" where
  "mark_error vm m = gmodify (vm_ID vm) (\<lambda>v. v\<lparr>vm_Status := VMStatusError\<rparr>) m"

lemma update_vm_mem:
  "snd (rs_UpdateVMStatus mem_recovery i VMStatusError w) =
     w\<lparr>rw_store := (rw_store w)\<lparr>ms_vms := gmodify i (\<lambda>v. v\<lparr>vm_Status := VMStatusError\<rparr>) (ms_vms (rw_store w))\<rparr>\<rparr>"
  by (auto simp: mem_recovery_def UpdateVMStatus_def gmodify_def split: option.split)

lemma recover_vms_mem:
  "recover_vms mem_recovery mem_kill vms w =
    w\<lparr>rw_store := (rw_store w)\<lparr>ms_vms := fold mark_error vms (ms_vms (rw_store w))\<rparr>,
      rw_killed := rw_killed w @ filter (\<lambda>p. p > 0) (map vm_PID vms)\<rparr>"
  by (induction vms arbitrary: w) (auto simp: update_vm_mem mem_kill_def Let_def)

lemma mark_error_lookup:
  "map_of (fold mark_error vms m) i =
    map_option (\<lambda>v. if i \<in> vm_ID ` set vms then v\<lparr>vm_Status := VMStatusError\<rparr> else v) (map_of m i)"
  by (induction vms arbitrary: m) (auto simp: option.map_comp comp_def option.map_ident intro!: option.map_cong)

text \<open>What the store lists as in flight: every such run once, as it is stored.\<close>

lemma ListRunning_facts:
  assumes "ms_inv m" and "is_range ks (ms_testRuns m)"
  shows "distinct (map run_ID (ListRunningTestRuns m ks))"
    and "r \<in> set (ListRunningTestRuns m ks) \<longleftrightarrow> map_of (ms_testRuns m) (run_ID r) = Some r \<and> in_flight (run_Status r)"
proof -
  have ids: "run_ID r = i" if "map_of (ms_testRuns m) i = Some r" for i r
    using assms(1) that runs_okD [of "ms_counter m" "ms_testRuns m"] by (auto simp: ms_inv_def)
  show "r \<in> set (ListRunningTestRuns m ks) \<longleftrightarrow> map_of (ms_testRuns m) (run_ID r) = Some r \<and> in_flight (run_Status r)"
    using assms(2) ids set_pick [of ks "ms_testRuns m" "\<lambda>r. in_flight (run_Status r)"]
    by (auto simp: ListRunningTestRuns_def is_range_def)
  show "distinct (map run_ID (ListRunningTestRuns m ks))"
    unfolding ListRunningTestRuns_def using assms(2) ids by (intro distinct_pick) (auto simp: is_range_def)
qed

text \<open>Recovery in one equation.\<close>

lemma RecoverState_mem:
  assumes "distinct (map run_ID (ListRunningTestRuns (rw_store w) (rw_runs w)))" and "\<not> sch_closed s"
    and "\<forall>r \<in> set (ListRunningTestRuns (rw_store w) (rw_runs w)).
      map_of (ms_testRuns (rw_store w)) (run_ID r) = Some r \<and> in_flight (run_Status r)"
  shows "RecoverState mem_recovery mem_kill w s =
    (let runs = ListRunningTestRuns (rw_store w) (rw_runs w);
         vms = ListOrphanedVMs (rw_store w) (rw_vms w)
     in (w\<lparr>rw_store := (rw_store w)
            \<lparr>ms_testRuns := fold (mark_crashed (rw_now w)) runs (ms_testRuns (rw_store w)),
             ms_vms := fold mark_error vms (ms_vms (rw_store w))\<rparr>,
            rw_killed := rw_killed w @ filter (\<lambda>p. p > 0) (map vm_PID vms)\<rparr>,
         s\<lparr>sch_queue := sch_queue s @ map requeued runs, sch_token := sch_token s \<or> runs \<noteq> []\<rparr>, Ok ()))"
proof -
  have list: "rs_ListRunningTestRuns mem_recovery v = (Inr (ListRunningTestRuns (rw_store v) (rw_runs v)), v)"
    and vms: "rs_ListOrphanedVMs mem_recovery v = (Inr (ListOrphanedVMs (rw_store v) (rw_vms v)), v)" for v
    by (simp_all add: mem_recovery_def)
  have runs: "recover_runs mem_recovery (ListRunningTestRuns (rw_store w) (rw_runs w)) w s =
    (w\<lparr>rw_store := (rw_store w)\<lparr>ms_testRuns := fold (mark_crashed (rw_now w))
        (ListRunningTestRuns (rw_store w) (rw_runs w)) (ms_testRuns (rw_store w))\<rparr>\<rparr>,
     s\<lparr>sch_queue := sch_queue s @ map requeued (ListRunningTestRuns (rw_store w) (rw_runs w)),
       sch_token := sch_token s \<or> ListRunningTestRuns (rw_store w) (rw_runs w) \<noteq> []\<rparr>, Ok ())"
    using assms by (intro recover_runs_mem)
  show ?thesis
    unfolding RecoverState_def list prod.case sum.case runs res.case vms recover_vms_mem Let_def
    by (simp add: ListOrphanedVMs_def)
qed

lemma marked_runs:
  assumes "ms_inv m" and "is_range ks (ms_testRuns m)"
  shows "map_of (fold (mark_crashed now) (ListRunningTestRuns m ks) (ms_testRuns m)) i =
    map_option (\<lambda>r. if crashed (run_Status r) then stamp_status now TestRunStatusErrored restart_msg r else r)
      (map_of (ms_testRuns m) i)"
proof (cases "find (\<lambda>r. run_ID r = i) (ListRunningTestRuns m ks)")
  case None
  have "\<not> crashed (run_Status r)" if r: "map_of (ms_testRuns m) i = Some r" for r
  proof
    assume "crashed (run_Status r)"
    moreover have "run_ID r = i" using assms(1) runs_okD(1) [OF _ r] by (auto simp: ms_inv_def)
    ultimately have "r \<in> set (ListRunningTestRuns m ks)"
      using ListRunning_facts(2) [OF assms, of r] r by (auto simp: crashed_def in_flight_def)
    then show False using None \<open>run_ID r = i\<close> by (auto simp: find_None_iff)
  qed
  then show ?thesis using None ListRunning_facts(1) [OF assms]
    by (cases "map_of (ms_testRuns m) i") (simp_all add: mark_crashed_lookup)
next
  case (Some r)
  then have "r \<in> set (ListRunningTestRuns m ks)" and "run_ID r = i" by (auto simp: find_Some_iff)
  then have "map_of (ms_testRuns m) i = Some r" using ListRunning_facts(2) [OF assms] by simp
  then show ?thesis using Some ListRunning_facts(1) [OF assms] by (simp add: mark_crashed_lookup)
qed

lemma pick_none: "\<forall>k \<in> set ks. \<forall>v. map_of m k = Some v \<longrightarrow> \<not> P v \<Longrightarrow> pick P m ks = []"
  by (induction ks) (auto split: option.split)

lemma orphans_cleared:
  assumes "ms_inv m" and "is_range ks (ms_vms m)"
  shows "pick (\<lambda>vm. orphaned (vm_Status vm)) (fold mark_error (ListOrphanedVMs m ks) (ms_vms m)) ks = []"
proof (intro pick_none ballI allI impI notI)
  fix i vm
  assume "map_of (fold mark_error (ListOrphanedVMs m ks) (ms_vms m)) i = Some vm" and o: "orphaned (vm_Status vm)"
  then obtain v where v: "map_of (ms_vms m) i = Some v"
    and vm: "vm = (if i \<in> vm_ID ` set (ListOrphanedVMs m ks) then v\<lparr>vm_Status := VMStatusError\<rparr> else v)"
    by (auto simp: mark_error_lookup)
  have id: "vm_ID v = i" using vms_okD [OF _ v] assms(1) by (simp add: ms_inv_def)
  have "set (ListOrphanedVMs m ks) = {v. \<exists>k. map_of (ms_vms m) k = Some v \<and> orphaned (vm_Status v)}"
    unfolding ListOrphanedVMs_def using assms(2) by (intro set_pick) (simp add: is_range_def)
  then have "orphaned (vm_Status v) \<Longrightarrow> i \<in> vm_ID ` set (ListOrphanedVMs m ks)" using v id by blast
  with o vm show False by (auto simp: orphaned_def split: if_splits)
qed

lemma pick_map_option:
  "(\<And>i. map_of m' i = map_option f (map_of m i)) \<Longrightarrow> (\<And>v. P (f v) \<Longrightarrow> f v = v) \<Longrightarrow>
   pick P m' ks = pick (\<lambda>v. P (f v)) m ks"
  by (induction ks) (auto split: option.split)

lemma pick_sub: "(\<And>v. Q v \<Longrightarrow> P v) \<Longrightarrow> pick Q m ks = filter Q (pick P m ks)"
  by (induction ks) (auto split: option.split)

lemma listed_again:
  assumes "ms_inv m" and "is_range ks (ms_testRuns m)"
  shows "pick (\<lambda>r. in_flight (run_Status r)) (fold (mark_crashed now) (ListRunningTestRuns m ks) (ms_testRuns m)) ks =
    filter (\<lambda>r. run_Status r = TestRunStatusPending) (ListRunningTestRuns m ks)"
proof -
  let ?f = "\<lambda>r. if crashed (run_Status r) then stamp_status now TestRunStatusErrored restart_msg r else r"
  have p: "in_flight (run_Status (?f r)) \<longleftrightarrow> run_Status r = TestRunStatusPending" for r
    by (auto simp: in_flight_def crashed_def)
  have "pick (\<lambda>r. in_flight (run_Status r)) (fold (mark_crashed now) (ListRunningTestRuns m ks) (ms_testRuns m)) ks =
    pick (\<lambda>r. in_flight (run_Status (?f r))) (ms_testRuns m) ks"
    by (rule pick_map_option [OF marked_runs [OF assms]]) (auto simp: in_flight_def split: if_splits)
  also have "\<dots> = pick (\<lambda>r. run_Status r = TestRunStatusPending) (ms_testRuns m) ks" unfolding p ..
  also have "\<dots> = filter (\<lambda>r. run_Status r = TestRunStatusPending) (ListRunningTestRuns m ks)"
    unfolding ListRunningTestRuns_def by (rule pick_sub) (simp add: in_flight_def)
  finally show ?thesis .
qed

subsection \<open>Properties\<close>

text \<open>A crash with one run pending, one running and the VM of the second still booting.\<close>

definition crash_ops :: "store_op list" where
  "crash_ops = take 3 example_ops @
     [OpSaveVM \<lparr>vm_ID = ''vm-1'', vm_Status = VMStatusBooting, vm_DeviceID = ''gpu'', vm_QEMUDeviceName = [],
        vm_QMPSocketPath = [], vm_SerialPorts = [], vm_PID = 42, vm_AllocatedCPUs = 2, vm_AllocatedMemMB = 512,
        vm_ImagePath = [], vm_OverlayPath = [], vm_CreatedAt = 0, vm_AgentStatus = AgentStatusUnknown,
        vm_LastHeartbeat = None, vm_CurrentTestRunID = []\<rparr>]"

definition crash_world :: rec_world where
  "crash_world = \<lparr>rw_store = foldl store_step NewMemoryStore crash_ops, rw_now = 12000000, rw_killed = [],
     rw_runs = [''tr-2'', ''tr-1''], rw_vms = [''vm-1'']\<rparr>"

lemma crash_world_ok:
  "ms_inv (rw_store crash_world)" "is_range (rw_runs crash_world) (ms_testRuns (rw_store crash_world))"
  "is_range (rw_vms crash_world) (ms_vms (rw_store crash_world))"
proof -
  show "ms_inv (rw_store crash_world)"
    unfolding crash_world_def rec_world.simps
    by (rule ms_inv_steps [OF ms_inv_new]) (simp_all add: crash_ops_def example_ops_def NewMemoryStore_def)
  show "is_range (rw_runs crash_world) (ms_testRuns (rw_store crash_world))"
    "is_range (rw_vms crash_world) (ms_vms (rw_store crash_world))" by code_simp+
qed



text \<open>
  C35: recovery is not idempotent, although its comment says that it may be called again. A second call puts every
  run that was pending into the queue once more, so that it is executed twice; a run that the first call found
  queued or running is not listed any more, so a second crash before it is dispatched loses it.
\<close>

theorem recover_state_again:
  assumes "ms_inv (rw_store w)" and "\<not> sch_closed s" and "is_range (rw_runs w) (ms_testRuns (rw_store w))"
  shows "let runs = ListRunningTestRuns (rw_store w) (rw_runs w);
             (w1, s1, r1) = RecoverState mem_recovery mem_kill w s;
             (w2, s2, r2) = RecoverState mem_recovery mem_kill w1 s1
         in sch_queue s2 = sch_queue s @ map requeued runs @ filter (\<lambda>r. run_Status r = TestRunStatusPending) runs"
proof -
  let ?runs = "ListRunningTestRuns (rw_store w) (rw_runs w)" and ?pend = "\<lambda>r. run_Status r = TestRunStatusPending"
  note facts = ListRunning_facts [OF assms(1,3)]
  obtain w1 s1 where one: "RecoverState mem_recovery mem_kill w s = (w1, s1, Ok ())"
      "sch_queue s1 = sch_queue s @ map requeued ?runs" "\<not> sch_closed s1" "rw_runs w1 = rw_runs w"
      "ms_testRuns (rw_store w1) = fold (mark_crashed (rw_now w)) ?runs (ms_testRuns (rw_store w))"
    using RecoverState_mem [OF facts(1) assms(2)] facts(2) assms(2) by (simp add: Let_def)
  have listed: "ListRunningTestRuns (rw_store w1) (rw_runs w1) = filter ?pend ?runs"
    using listed_again [OF assms(1,3)] one(4,5) by (simp add: ListRunningTestRuns_def)
  have stored: "\<forall>r \<in> set (ListRunningTestRuns (rw_store w1) (rw_runs w1)).
      map_of (ms_testRuns (rw_store w1)) (run_ID r) = Some r \<and> in_flight (run_Status r)"
    unfolding listed one(5) using facts(2) marked_runs [OF assms(1,3)] by (simp add: crashed_def in_flight_def)
  have "map requeued (filter ?pend rs) = filter ?pend rs" for rs
    by (induction rs) (auto simp: requeued_def)
  moreover have "distinct (map run_ID (ListRunningTestRuns (rw_store w1) (rw_runs w1)))"
    unfolding listed using facts(1) by (rule distinct_map_filter)
  ultimately show ?thesis
    using RecoverState_mem [OF _ one(3) stored] one(1,2) by (simp add: listed Let_def)
qed

theorem recover_state_again_witness:
  "let (w1, s1, r1) = RecoverState mem_recovery mem_kill crash_world (NewScheduler 2);
       (w2, s2, r2) = RecoverState mem_recovery mem_kill w1 s1
   in map run_ID (sch_queue s2) = [''tr-2'', ''tr-1'', ''tr-2'']"
proof -
  let ?runs = "ListRunningTestRuns (rw_store crash_world) (rw_runs crash_world)"
  have "map run_ID (map requeued ?runs @ filter (\<lambda>r. run_Status r = TestRunStatusPending) ?runs) =
      [''tr-2'', ''tr-1'', ''tr-2'']" and "\<not> sch_closed (NewScheduler 2)" and "sch_queue (NewScheduler 2) = []"
    by code_simp+
  with recover_state_again [OF crash_world_ok(1) _ crash_world_ok(2), of "NewScheduler 2"]
  show ?thesis by (simp add: Let_def split_beta)
qed

end
