(* ===== verification/Agent_Coordinator.thy ===== *)
theory Agent_Coordinator
  imports Core_Types
begin

text \<open>
  The agent coordinator, \<open>internal/core/agent_state.go\<close>: a command queue per VM and one result channel
  per command in flight. The code runs in several goroutines at once, so the state of a VM and the channels are
  objects in a store, which a goroutine keeps using after the VM was unregistered, and an operation
  that takes locks or blocks is a sequence of atomic steps between which other goroutines run. The program counter
  of a call says how far it got; a step that has to wait is \<open>None\<close>. When several cases of a
  \<open>select\<close> can proceed, Go picks one at random: the argument \<open>fire\<close> is the error of the context, or
  the expiry of the timer, when that case is picked.
\<close>

subsection \<open>State\<close>

record agentState =
  as_vmID :: string
  as_agentID :: string
  as_ready :: bool
  as_commands :: "AgentCommand list"
  as_closed :: bool
  as_resultWaiters :: "(string, nat) gomap"

text \<open>\<open>ac_agents\<close> maps a VM to the index of its state; a result channel is the list of what it holds.\<close>

record AgentCoordinator =
  ac_agents :: "(string, nat) gomap"
  ac_states :: "agentState list"
  ac_chans :: "AgentResult list list"

definition NewAgentCoordinator :: AgentCoordinator where
  "NewAgentCoordinator = \<lparr>ac_agents = [], ac_states = [], ac_chans = []\<rparr>"

definition upd_state :: "nat \<Rightarrow> (agentState \<Rightarrow> agentState) \<Rightarrow> AgentCoordinator \<Rightarrow> AgentCoordinator" where
  "upd_state a f ac = ac\<lparr>ac_states := (ac_states ac)[a := f (ac_states ac ! a)]\<rparr>"

subsection \<open>Operations\<close>

definition command_buffer :: nat where
  "command_buffer = 16"

definition new_agentState :: "string \<Rightarrow> agentState" where
  "new_agentState vmID = \<lparr>as_vmID = vmID, as_agentID = '''', as_ready = False, as_commands = [], as_closed = False,
     as_resultWaiters = []\<rparr>"

definition RegisterVM :: "string \<Rightarrow> AgentCoordinator \<Rightarrow> AgentCoordinator" where
  "RegisterVM vmID ac = ac\<lparr>ac_agents := gput vmID (length (ac_states ac)) (ac_agents ac),
     ac_states := ac_states ac @ [new_agentState vmID]\<rparr>"

definition UnregisterVM :: "string \<Rightarrow> AgentCoordinator \<Rightarrow> AgentCoordinator" where
  "UnregisterVM vmID ac =
     (case map_of (ac_agents ac) vmID of
        Some a \<Rightarrow> (upd_state a (\<lambda>st. st\<lparr>as_closed := True\<rparr>) ac)\<lparr>ac_agents := gdel vmID (ac_agents ac)\<rparr>
      | None \<Rightarrow> ac)"

datatype notify_pc = NEnter | NReady nat | NReturn "unit res"

fun NotifyAgentReady :: "string \<Rightarrow> string \<Rightarrow> notify_pc \<Rightarrow> AgentCoordinator \<Rightarrow> (notify_pc \<times> AgentCoordinator) option" where
  "NotifyAgentReady vmID agentID NEnter ac =
     (case map_of (ac_agents ac) vmID of
        None \<Rightarrow> Some (NReturn (Err (ENoAgentState vmID)), ac)
      | Some a \<Rightarrow> Some (NReady a, ac))"
| "NotifyAgentReady vmID agentID (NReady a) ac =
     Some (NReturn (Ok ()), upd_state a (\<lambda>st. st\<lparr>as_agentID := agentID, as_ready := True\<rparr>) ac)"
| "NotifyAgentReady vmID agentID (NReturn r) ac = None"

datatype wait_pc = WEnter | WSelect nat | WReturn "unit res"

fun WaitForAgent :: "error option \<Rightarrow> string \<Rightarrow> wait_pc \<Rightarrow> AgentCoordinator \<Rightarrow> (wait_pc \<times> AgentCoordinator) option" where
  "WaitForAgent fire vmID WEnter ac =
     (case map_of (ac_agents ac) vmID of
        None \<Rightarrow> Some (WReturn (Err (ENoAgentState vmID)), ac)
      | Some a \<Rightarrow> Some (WSelect a, ac))"
| "WaitForAgent fire vmID (WSelect a) ac =
     (case fire of
        Some err \<Rightarrow> Some (WReturn (Err (EWrap (''waiting for agent in VM '' @ vmID) err)), ac)
      | None \<Rightarrow> if as_ready (ac_states ac ! a) then Some (WReturn (Ok ()), ac) else None)"
| "WaitForAgent fire vmID (WReturn r) ac = None"

text \<open>
  \<open>SendCommand\<close>: look up the state; make the result channel and register it; send the command to the queue; wait
  for the result; the deferred function removes the waiter on every exit, also on a panic.
\<close>

datatype send_pc =
    SEnter | SRegister nat | SEnqueue nat nat | SAwait nat nat | SDefer nat "AgentResult res" | SReturn "AgentResult res"

fun SendCommand :: "error option \<Rightarrow> string \<Rightarrow> AgentCommand \<Rightarrow> send_pc \<Rightarrow> AgentCoordinator \<Rightarrow> (send_pc \<times> AgentCoordinator) option" where
  "SendCommand fire vmID cmd SEnter ac =
     (case map_of (ac_agents ac) vmID of
        None \<Rightarrow> Some (SReturn (Err (ENoAgentState vmID)), ac)
      | Some a \<Rightarrow> Some (SRegister a, ac))"
| "SendCommand fire vmID cmd (SRegister a) ac =
     (let resultCh = length (ac_chans ac)
      in Some (SEnqueue a resultCh,
           (upd_state a (\<lambda>st. st\<lparr>as_resultWaiters := gput (cmd_ID cmd) resultCh (as_resultWaiters st)\<rparr>) ac)
             \<lparr>ac_chans := ac_chans ac @ [[]]\<rparr>))"
| "SendCommand fire vmID cmd (SEnqueue a resultCh) ac =
     (let st = ac_states ac ! a
      in case fire of
           Some err \<Rightarrow> Some (SDefer a (Err err), ac)
         | None \<Rightarrow>
             if as_closed st then Some (SDefer a (Panic ''send on closed channel''), ac)
             else if length (as_commands st) < command_buffer
             then Some (SAwait a resultCh, upd_state a (\<lambda>st. st\<lparr>as_commands := as_commands st @ [cmd]\<rparr>) ac)
             else None)"
| "SendCommand fire vmID cmd (SAwait a resultCh) ac =
     (case fire of
        Some err \<Rightarrow> Some (SDefer a (Err err), ac)
      | None \<Rightarrow>
          (case ac_chans ac ! resultCh of
             [] \<Rightarrow> None
           | result # rest \<Rightarrow> Some (SDefer a (Ok result), ac\<lparr>ac_chans := (ac_chans ac)[resultCh := rest]\<rparr>)))"
| "SendCommand fire vmID cmd (SDefer a r) ac =
     Some (SReturn r, upd_state a (\<lambda>st. st\<lparr>as_resultWaiters := gdel (cmd_ID cmd) (as_resultWaiters st)\<rparr>) ac)"
| "SendCommand fire vmID cmd (SReturn r) ac = None"

datatype next_pc = GEnter | GSelect nat | GReturn "AgentCommand res"

fun GetNextCommand :: "error option \<Rightarrow> string \<Rightarrow> next_pc \<Rightarrow> AgentCoordinator \<Rightarrow> (next_pc \<times> AgentCoordinator) option" where
  "GetNextCommand fire vmID GEnter ac =
     (case map_of (ac_agents ac) vmID of
        None \<Rightarrow> Some (GReturn (Err (ENoAgentState vmID)), ac)
      | Some a \<Rightarrow> Some (GSelect a, ac))"
| "GetNextCommand fire vmID (GSelect a) ac =
     (let st = ac_states ac ! a
      in case fire of
           Some err \<Rightarrow> Some (GReturn (Err err), ac)
         | None \<Rightarrow>
             (case as_commands st of
                cmd # rest \<Rightarrow> Some (GReturn (Ok cmd), upd_state a (\<lambda>st. st\<lparr>as_commands := rest\<rparr>) ac)
              | [] \<Rightarrow> if as_closed st then Some (GReturn (Err (ECommandsClosed vmID)), ac) else None))"
| "GetNextCommand fire vmID (GReturn r) ac = None"

datatype deliver_pc = DEnter | DWaiter nat | DSelect nat | DReturn "unit res"

fun DeliverResult :: "error option \<Rightarrow> string \<Rightarrow> AgentResult \<Rightarrow> deliver_pc \<Rightarrow> AgentCoordinator \<Rightarrow> (deliver_pc \<times> AgentCoordinator) option" where
  "DeliverResult fire vmID result DEnter ac =
     (case map_of (ac_agents ac) vmID of
        None \<Rightarrow> Some (DReturn (Err (ENoAgentState vmID)), ac)
      | Some a \<Rightarrow> Some (DWaiter a, ac))"
| "DeliverResult fire vmID result (DWaiter a) ac =
     (case map_of (as_resultWaiters (ac_states ac ! a)) (ares_CommandID result) of
        None \<Rightarrow> Some (DReturn (Err (ENoWaiter (ares_CommandID result) vmID)), ac)
      | Some waiter \<Rightarrow> Some (DSelect waiter, ac))"
| "DeliverResult fire vmID result (DSelect waiter) ac =
     (case fire of
        Some _ \<Rightarrow> Some (DReturn (Err (EDeliverTimeout (ares_CommandID result))), ac)
      | None \<Rightarrow>
          if ac_chans ac ! waiter = []
          then Some (DReturn (Ok ()), ac\<lparr>ac_chans := (ac_chans ac)[waiter := [result]]\<rparr>)
          else None)"
| "DeliverResult fire vmID result (DReturn r) ac = None"

subsection \<open>Goroutines\<close>

text \<open>
  The calls in progress and what they did: a command put into the queue of a state, a command taken from
  it, a result put into a channel and taken from it.
\<close>

datatype call =
    NotifyCall string string notify_pc
  | WaitCall string wait_pc
  | SendCall string AgentCommand send_pc
  | NextCall string next_pc
  | DeliverCall string AgentResult deliver_pc

datatype event =
    Queued nat AgentCommand
  | Fetched nat AgentCommand
  | Delivered string nat AgentResult
  | Received nat AgentResult

fun advance :: "error option \<Rightarrow> call \<Rightarrow> AgentCoordinator \<Rightarrow> (call \<times> AgentCoordinator) option" where
  "advance fire (NotifyCall v i p) ac = map_option (\<lambda>(p, ac). (NotifyCall v i p, ac)) (NotifyAgentReady v i p ac)"
| "advance fire (WaitCall v p) ac = map_option (\<lambda>(p, ac). (WaitCall v p, ac)) (WaitForAgent fire v p ac)"
| "advance fire (SendCall v c p) ac = map_option (\<lambda>(p, ac). (SendCall v c p, ac)) (SendCommand fire v c p ac)"
| "advance fire (NextCall v p) ac = map_option (\<lambda>(p, ac). (NextCall v p, ac)) (GetNextCommand fire v p ac)"
| "advance fire (DeliverCall v r p) ac = map_option (\<lambda>(p, ac). (DeliverCall v r p, ac)) (DeliverResult fire v r p ac)"

fun send_events :: "AgentCommand \<Rightarrow> send_pc \<Rightarrow> send_pc \<Rightarrow> event list" where
  "send_events c (SEnqueue a ch) p = (case p of SAwait _ _ \<Rightarrow> [Queued a c] | _ \<Rightarrow> [])"
| "send_events c (SAwait a ch) p = (case p of SDefer _ (Ok r) \<Rightarrow> [Received ch r] | _ \<Rightarrow> [])"
| "send_events c _ p = []"

fun events :: "call \<Rightarrow> call \<Rightarrow> event list" where
  "events (SendCall v c p) d = (case d of SendCall _ _ p' \<Rightarrow> send_events c p p' | _ \<Rightarrow> [])"
| "events (NextCall v p) d = (case (p, d) of (GSelect a, NextCall _ (GReturn (Ok c))) \<Rightarrow> [Fetched a c] | _ \<Rightarrow> [])"
| "events (DeliverCall v r p) d = (case (p, d) of (DSelect ch, DeliverCall _ _ (DReturn (Ok _))) \<Rightarrow> [Delivered v ch r] | _ \<Rightarrow> [])"
| "events (NotifyCall v i p) d = []"
| "events (WaitCall v p) d = []"

fun initial_call :: "call \<Rightarrow> bool" where
  "initial_call (NotifyCall v i p) = (p = NEnter)"
| "initial_call (WaitCall v p) = (p = WEnter)"
| "initial_call (SendCall v c p) = (p = SEnter)"
| "initial_call (NextCall v p) = (p = GEnter)"
| "initial_call (DeliverCall v r p) = (p = DEnter)"

text \<open>A schedule is a list of moves; one that is not possible in a state has no successor.\<close>

datatype move = MRegister string | MUnregister string | MCall call | MRun nat "error option"

record co_sys =
  co_ac :: AgentCoordinator
  co_calls :: "call list"
  co_log :: "event list"

fun co_step :: "co_sys \<Rightarrow> move \<Rightarrow> co_sys option" where
  "co_step s (MRegister v) = Some (s\<lparr>co_ac := RegisterVM v (co_ac s)\<rparr>)"
| "co_step s (MUnregister v) = Some (s\<lparr>co_ac := UnregisterVM v (co_ac s)\<rparr>)"
| "co_step s (MCall c) = (if initial_call c then Some (s\<lparr>co_calls := co_calls s @ [c]\<rparr>) else None)"
| "co_step s (MRun i fire) =
     (if i < length (co_calls s)
      then (case advance fire (co_calls s ! i) (co_ac s) of
              None \<Rightarrow> None
            | Some (c, ac) \<Rightarrow> Some \<lparr>co_ac = ac, co_calls = (co_calls s)[i := c], co_log = co_log s @ events (co_calls s ! i) c\<rparr>)
      else None)"

fun co_run :: "co_sys \<Rightarrow> move list \<Rightarrow> co_sys option" where
  "co_run s [] = Some s"
| "co_run s (m # ms) = (case co_step s m of None \<Rightarrow> None | Some s' \<Rightarrow> co_run s' ms)"

definition co_start :: co_sys where
  "co_start = \<lparr>co_ac = NewAgentCoordinator, co_calls = [], co_log = []\<rparr>"

lemma co_run_invariant:
  "co_run s ms = Some s' \<Longrightarrow> P s \<Longrightarrow> (\<And>s m s'. P s \<Longrightarrow> co_step s m = Some s' \<Longrightarrow> P s') \<Longrightarrow> P s'"
  by (induction s ms rule: co_run.induct) (auto split: option.splits)

subsection \<open>Invariant\<close>

text \<open>
  \<open>own\<close> gives each result channel the VM and the command it was made for. Every reference to a state or a
  channel is valid and used for its owner only.
\<close>

definition at_state :: "AgentCoordinator \<Rightarrow> string \<Rightarrow> nat \<Rightarrow> bool" where
  "at_state ac v a \<longleftrightarrow> a < length (ac_states ac) \<and> as_vmID (ac_states ac ! a) = v"

definition at_chan :: "(nat \<Rightarrow> string \<times> string) \<Rightarrow> AgentCoordinator \<Rightarrow> string \<Rightarrow> string \<Rightarrow> nat \<Rightarrow> bool" where
  "at_chan own ac v i ch \<longleftrightarrow> ch < length (ac_chans ac) \<and> own ch = (v, i)"

text \<open>A result that a call may return: it was delivered for this VM and names the command.\<close>

definition answered :: "event list \<Rightarrow> string \<Rightarrow> string \<Rightarrow> AgentResult \<Rightarrow> bool" where
  "answered lg v i r \<longleftrightarrow> ares_CommandID r = i \<and> (\<exists>ch. Delivered v ch r \<in> set lg)"

fun res_answered :: "event list \<Rightarrow> string \<Rightarrow> string \<Rightarrow> AgentResult res \<Rightarrow> bool" where
  "res_answered lg v i (Ok r) = answered lg v i r"
| "res_answered lg v i _ = True"

fun send_ok :: "(nat \<Rightarrow> string \<times> string) \<Rightarrow> event list \<Rightarrow> AgentCoordinator \<Rightarrow> string \<Rightarrow> string \<Rightarrow> send_pc \<Rightarrow> bool" where
  "send_ok own lg ac v i SEnter = True"
| "send_ok own lg ac v i (SRegister a) = at_state ac v a"
| "send_ok own lg ac v i (SEnqueue a ch) = (at_state ac v a \<and> at_chan own ac v i ch)"
| "send_ok own lg ac v i (SAwait a ch) = (at_state ac v a \<and> at_chan own ac v i ch)"
| "send_ok own lg ac v i (SDefer a r) = (at_state ac v a \<and> res_answered lg v i r)"
| "send_ok own lg ac v i (SReturn r) = res_answered lg v i r"

fun call_ok :: "(nat \<Rightarrow> string \<times> string) \<Rightarrow> event list \<Rightarrow> AgentCoordinator \<Rightarrow> call \<Rightarrow> bool" where
  "call_ok own lg ac (NotifyCall v i p) = (case p of NReady a \<Rightarrow> at_state ac v a | _ \<Rightarrow> True)"
| "call_ok own lg ac (WaitCall v p) = (case p of WSelect a \<Rightarrow> at_state ac v a | _ \<Rightarrow> True)"
| "call_ok own lg ac (SendCall v c p) = send_ok own lg ac v (cmd_ID c) p"
| "call_ok own lg ac (NextCall v p) = (case p of GSelect a \<Rightarrow> at_state ac v a | _ \<Rightarrow> True)"
| "call_ok own lg ac (DeliverCall v r p) =
     (case p of DWaiter a \<Rightarrow> at_state ac v a | DSelect ch \<Rightarrow> at_chan own ac v (ares_CommandID r) ch | _ \<Rightarrow> True)"

definition state_ok :: "(nat \<Rightarrow> string \<times> string) \<Rightarrow> AgentCoordinator \<Rightarrow> agentState \<Rightarrow> bool" where
  "state_ok own ac st \<longleftrightarrow> length (as_commands st) \<le> command_buffer \<and>
     (\<forall>i ch. map_of (as_resultWaiters st) i = Some ch \<longrightarrow> at_chan own ac (as_vmID st) i ch)"

definition chan_ok :: "(nat \<Rightarrow> string \<times> string) \<Rightarrow> event list \<Rightarrow> nat \<Rightarrow> AgentResult list \<Rightarrow> bool" where
  "chan_ok own lg ch rs \<longleftrightarrow> length rs \<le> 1 \<and> (\<forall>r \<in> set rs. answered lg (fst (own ch)) (snd (own ch)) r)"

definition co_ok :: "(nat \<Rightarrow> string \<times> string) \<Rightarrow> event list \<Rightarrow> AgentCoordinator \<Rightarrow> bool" where
  "co_ok own lg ac \<longleftrightarrow>
     (\<forall>v a. map_of (ac_agents ac) v = Some a \<longrightarrow> at_state ac v a \<and> \<not> as_closed (ac_states ac ! a)) \<and>
     (\<forall>a < length (ac_states ac). state_ok own ac (ac_states ac ! a)) \<and>
     (\<forall>ch < length (ac_chans ac). chan_ok own lg ch (ac_chans ac ! ch))"

definition co_inv :: "co_sys \<Rightarrow> bool" where
  "co_inv s \<longleftrightarrow> (\<exists>own. co_ok own (co_log s) (co_ac s) \<and> list_all (call_ok own (co_log s) (co_ac s)) (co_calls s))"

text \<open>What a step leaves alone.\<close>

definition grows :: "(nat \<Rightarrow> string \<times> string) \<Rightarrow> AgentCoordinator \<Rightarrow> (nat \<Rightarrow> string \<times> string) \<Rightarrow> AgentCoordinator \<Rightarrow> bool" where
  "grows own ac own' ac' \<longleftrightarrow> (\<forall>v a. at_state ac v a \<longrightarrow> at_state ac' v a) \<and>
     (\<forall>v i ch. at_chan own ac v i ch \<longrightarrow> at_chan own' ac' v i ch)"

lemma answered_mono: "answered lg v i r \<Longrightarrow> answered (lg @ es) v i r"
  by (auto simp: answered_def)

lemma res_answered_mono: "res_answered lg v i r \<Longrightarrow> res_answered (lg @ es) v i r"
  by (cases r) (auto simp: answered_mono)

lemma call_ok_mono: "call_ok own lg ac c \<Longrightarrow> grows own ac own' ac' \<Longrightarrow> call_ok own' (lg @ es) ac' c"
proof (cases c)
  case (SendCall v d p)
  then show "call_ok own lg ac c \<Longrightarrow> grows own ac own' ac' \<Longrightarrow> call_ok own' (lg @ es) ac' c"
    by (cases p) (auto simp: grows_def res_answered_mono)
qed (auto simp: grows_def split: notify_pc.splits wait_pc.splits next_pc.splits deliver_pc.splits)

lemma nth_upd: "xs[i := x] ! j = (if i = j \<and> i < length xs then x else xs ! j)"
  by (cases "i < length xs") (auto simp: nth_list_update list_update_beyond)

lemma at_state_upd [simp]:
  "(\<And>st. as_vmID (f st) = as_vmID st) \<Longrightarrow> at_state (upd_state b f ac) v a = at_state ac v a"
  by (auto simp: at_state_def upd_state_def nth_upd)

lemma at_chan_upd [simp]: "at_chan own (upd_state b f ac) v i ch = at_chan own ac v i ch"
  by (simp add: at_chan_def upd_state_def)

lemma at_state_chans [simp]: "at_state (ac\<lparr>ac_chans := cs\<rparr>) v a = at_state ac v a"
  by (simp add: at_state_def)

lemma at_chan_chans [simp]: "length cs = length (ac_chans ac) \<Longrightarrow> at_chan own (ac\<lparr>ac_chans := cs\<rparr>) v i ch = at_chan own ac v i ch"
  by (simp add: at_chan_def)

lemma grows_refl [simp]: "grows own ac own ac"
  by (simp add: grows_def)

lemma state_ok_grows: "state_ok own ac st \<Longrightarrow> grows own ac own' ac' \<Longrightarrow> state_ok own' ac' st"
  by (auto simp: state_ok_def grows_def)

lemma chan_ok_mono: "chan_ok own lg ch rs \<Longrightarrow> chan_ok own (lg @ es) ch rs"
  by (auto simp: chan_ok_def answered_mono)

lemma co_ok_mono: "co_ok own lg ac \<Longrightarrow> co_ok own (lg @ es) ac"
  by (auto simp: co_ok_def chan_ok_mono)

text \<open>Changing one state.\<close>

lemma co_ok_upd:
  assumes "co_ok own lg ac" and "\<And>st. as_vmID (f st) = as_vmID st"
    and "a < length (ac_states ac) \<Longrightarrow> state_ok own ac (f (ac_states ac ! a))"
    and "\<And>st. as_closed (f st) = as_closed st"
  shows "co_ok own lg (upd_state a f ac)"
proof -
  have g: "grows own ac own (upd_state a f ac)" using assms(2) by (simp add: grows_def)
  show ?thesis
    unfolding co_ok_def
  proof (intro conjI allI impI)
    fix v b assume "map_of (ac_agents (upd_state a f ac)) v = Some b"
    then have *: "at_state ac v b" "\<not> as_closed (ac_states ac ! b)" using assms(1) by (auto simp: co_ok_def upd_state_def)
    then show "at_state (upd_state a f ac) v b" using assms(2) by simp
    show "\<not> as_closed (ac_states (upd_state a f ac) ! b)"
      using * assms(4) by (auto simp: upd_state_def at_state_def nth_upd)
  next
    fix b assume b: "b < length (ac_states (upd_state a f ac))"
    then have "state_ok own ac (ac_states (upd_state a f ac) ! b)"
      using assms(1,3) by (auto simp: upd_state_def nth_upd co_ok_def)
    then show "state_ok own (upd_state a f ac) (ac_states (upd_state a f ac) ! b)" using state_ok_grows g by blast
  next
    fix ch assume "ch < length (ac_chans (upd_state a f ac))"
    then show "chan_ok own lg ch (ac_chans (upd_state a f ac) ! ch)" using assms(1) by (auto simp: co_ok_def upd_state_def)
  qed
qed

lemma co_ok_chan:
  assumes "co_ok own lg ac" and "chan_ok own lg ch rs"
  shows "co_ok own lg (ac\<lparr>ac_chans := (ac_chans ac)[ch := rs]\<rparr>)"
  using assms by (auto simp: co_ok_def state_ok_def nth_upd)

lemma co_ok_state: "co_ok own lg ac \<Longrightarrow> a < length (ac_states ac) \<Longrightarrow> state_ok own ac (ac_states ac ! a)"
  and co_ok_agent: "co_ok own lg ac \<Longrightarrow> map_of (ac_agents ac) v = Some a \<Longrightarrow> at_state ac v a"
  by (simp_all add: co_ok_def)


lemma at_stateD: "at_state ac v a \<Longrightarrow> a < length (ac_states ac)"
  by (simp add: at_state_def)

lemma grows_upd: "(\<And>st. as_vmID (f st) = as_vmID st) \<Longrightarrow> grows own ac own (upd_state a f ac)"
  by (simp add: grows_def)

lemma grows_chans: "length cs = length (ac_chans ac) \<Longrightarrow> grows own ac own (ac\<lparr>ac_chans := cs\<rparr>)"
  by (simp add: grows_def)

text \<open>A new channel.\<close>

lemma new_chan:
  assumes "co_ok own lg ac"
  shows "grows own ac (own(length (ac_chans ac) := o')) (ac\<lparr>ac_chans := ac_chans ac @ [[]]\<rparr>)"
    and "co_ok (own(length (ac_chans ac) := o')) lg (ac\<lparr>ac_chans := ac_chans ac @ [[]]\<rparr>)"
proof -
  let ?own = "own(length (ac_chans ac) := o')" and ?ac = "ac\<lparr>ac_chans := ac_chans ac @ [[]]\<rparr>"
  show g: "grows own ac ?own ?ac" by (auto simp: grows_def at_chan_def)
  have "chan_ok ?own lg ch (ac_chans ?ac ! ch)" if "ch < length (ac_chans ?ac)" for ch
    using assms that by (cases "ch = length (ac_chans ac)") (auto simp: chan_ok_def co_ok_def nth_append)
  then show "co_ok ?own lg ?ac" using assms state_ok_grows [OF _ g] by (auto simp: co_ok_def)
qed

text \<open>One step of each operation.\<close>

definition step_ok :: "(nat \<Rightarrow> string \<times> string) \<Rightarrow> event list \<Rightarrow> AgentCoordinator \<Rightarrow> event list \<Rightarrow> call \<Rightarrow> AgentCoordinator \<Rightarrow> bool" where
  "step_ok own lg ac es c ac' \<longleftrightarrow>
     (\<exists>own'. co_ok own' (lg @ es) ac' \<and> grows own ac own' ac' \<and> call_ok own' (lg @ es) ac' c)"

lemma step_ok_same: "co_ok own lg ac \<Longrightarrow> call_ok own (lg @ es) ac c \<Longrightarrow> step_ok own lg ac es c ac"
  unfolding step_ok_def using co_ok_mono grows_refl by blast

lemma step_ok_upd:
  assumes "co_ok own lg ac" and "\<And>st. as_vmID (f st) = as_vmID st" and "\<And>st. as_closed (f st) = as_closed st"
    and "a < length (ac_states ac) \<Longrightarrow> state_ok own ac (f (ac_states ac ! a))"
    and "call_ok own (lg @ es) (upd_state a f ac) c"
  shows "step_ok own lg ac es c (upd_state a f ac)"
  unfolding step_ok_def using co_ok_mono [OF co_ok_upd [OF assms(1,2,4,3)]] grows_upd [OF assms(2)] assms(5) by blast

lemma step_ok_chan:
  assumes "co_ok own lg ac" and "chan_ok own (lg @ es) ch rs"
    and "call_ok own (lg @ es) (ac\<lparr>ac_chans := (ac_chans ac)[ch := rs]\<rparr>) c"
  shows "step_ok own lg ac es c (ac\<lparr>ac_chans := (ac_chans ac)[ch := rs]\<rparr>)"
  unfolding step_ok_def
  using co_ok_chan [OF co_ok_mono [OF assms(1)] assms(2)] grows_chans [of "(ac_chans ac)[ch := rs]" ac] assms(3)
  by (metis length_list_update)

lemma step_notify:
  assumes "co_ok own lg ac" and "call_ok own lg ac (NotifyCall v i p)" and "NotifyAgentReady v i p ac = Some (p', ac')"
  shows "step_ok own lg ac es (NotifyCall v i p') ac'"
proof (cases p)
  case (NReady a)
  then show ?thesis using assms co_ok_state [OF assms(1)]
    by (auto intro!: step_ok_upd simp: state_ok_def)
qed (use assms co_ok_agent [OF assms(1)] in \<open>auto intro!: step_ok_same split: option.splits\<close>)

lemma step_wait:
  assumes "co_ok own lg ac" and "call_ok own lg ac (WaitCall v p)" and "WaitForAgent fire v p ac = Some (p', ac')"
  shows "step_ok own lg ac es (WaitCall v p') ac'"
  using assms co_ok_agent [OF assms(1)]
  by (cases p) (auto intro!: step_ok_same split: option.splits if_splits)

lemma step_next:
  assumes "co_ok own lg ac" and "call_ok own lg ac (NextCall v p)" and "GetNextCommand fire v p ac = Some (p', ac')"
  shows "step_ok own lg ac es (NextCall v p') ac'"
proof (cases p)
  case (GSelect a)
  then have "state_ok own ac (ac_states ac ! a)" using assms(1,2) co_ok_state at_stateD by auto
  with GSelect show ?thesis using assms
    by (auto simp: Let_def state_ok_def intro!: step_ok_upd step_ok_same split: option.splits list.splits if_splits)
qed (use assms co_ok_agent [OF assms(1)] in \<open>auto intro!: step_ok_same split: option.splits\<close>)

lemma step_deliver:
  assumes "co_ok own lg ac" and "call_ok own lg ac (DeliverCall v r p)" and "DeliverResult fire v r p ac = Some (p', ac')"
  shows "step_ok own lg ac (events (DeliverCall v r p) (DeliverCall v r p')) (DeliverCall v r p') ac'"
proof (cases p)
  case DEnter
  then show ?thesis using assms co_ok_agent [OF assms(1)] by (auto intro!: step_ok_same split: option.splits)
next
  case (DWaiter a)
  then have "state_ok own ac (ac_states ac ! a)" and "at_state ac v a" using assms(1,2) co_ok_state at_stateD by auto
  with DWaiter show ?thesis using assms
    by (auto intro!: step_ok_same simp: state_ok_def at_state_def split: option.splits)
next
  case (DSelect ch)
  then show ?thesis using assms
    by (auto intro!: step_ok_same step_ok_chan simp: chan_ok_def answered_def at_chan_def split: option.splits if_splits)
next
  case (DReturn x)
  then show ?thesis using assms by simp
qed

lemma step_send_register:
  assumes "co_ok own lg ac" and "at_state ac v a"
  shows "step_ok own lg ac es (SendCall v c (SEnqueue a (length (ac_chans ac))))
    ((upd_state a (\<lambda>st. st\<lparr>as_resultWaiters := gput (cmd_ID c) (length (ac_chans ac)) (as_resultWaiters st)\<rparr>) ac)
      \<lparr>ac_chans := ac_chans ac @ [[]]\<rparr>)"
proof -
  let ?ch = "length (ac_chans ac)" and ?ac = "ac\<lparr>ac_chans := ac_chans ac @ [[]]\<rparr>"
  let ?f = "\<lambda>st. st\<lparr>as_resultWaiters := gput (cmd_ID c) (length (ac_chans ac)) (as_resultWaiters st)\<rparr>"
  let ?own = "own(?ch := (v, cmd_ID c))"
  have eq: "(upd_state a ?f ac)\<lparr>ac_chans := ac_chans ac @ [[]]\<rparr> = upd_state a ?f ?ac" by (simp add: upd_state_def)
  note n = new_chan [OF assms(1), of "(v, cmd_ID c)"]
  have ch: "at_chan ?own ?ac v (cmd_ID c) ?ch" by (simp add: at_chan_def)
  have "state_ok ?own ?ac (ac_states ac ! a)"
    using co_ok_state [OF n(2), of a] assms(2) by (simp add: at_state_def)
  then have st: "state_ok ?own ?ac (?f (ac_states ac ! a))"
    using ch assms(2) by (auto simp: state_ok_def at_state_def)
  have "co_ok ?own lg (upd_state a ?f ?ac)" by (rule co_ok_upd [OF n(2)]) (use st in simp_all)
  moreover have "grows own ac ?own (upd_state a ?f ?ac)"
    using n(1) grows_upd [of ?f ?own ?ac a] by (auto simp: grows_def)
  moreover have "call_ok ?own (lg @ es) (upd_state a ?f ?ac) (SendCall v c (SEnqueue a ?ch))" using assms(2) ch by simp
  ultimately show ?thesis unfolding step_ok_def eq using co_ok_mono by blast
qed

lemma step_send:
  assumes "co_ok own lg ac" and "call_ok own lg ac (SendCall v c p)" and "SendCommand fire v c p ac = Some (p', ac')"
  shows "step_ok own lg ac (events (SendCall v c p) (SendCall v c p')) (SendCall v c p') ac'"
proof (cases p)
  case SEnter
  then show ?thesis using assms co_ok_agent [OF assms(1)] by (auto intro!: step_ok_same split: option.splits)
next
  case (SRegister a)
  then show ?thesis using assms step_send_register [OF assms(1)] by (auto simp: Let_def)
next
  case (SEnqueue a ch)
  then have "state_ok own ac (ac_states ac ! a)" using assms(1,2) co_ok_state at_stateD by auto
  with SEnqueue show ?thesis using assms
    by (auto intro!: step_ok_same step_ok_upd simp: Let_def state_ok_def split: option.splits if_splits)
next
  case (SAwait a ch)
  then have "chan_ok own lg ch (ac_chans ac ! ch)" using assms(1,2) by (auto simp: co_ok_def at_chan_def)
  with SAwait show ?thesis using assms
    by (auto intro!: step_ok_same step_ok_chan simp: chan_ok_def at_chan_def intro: answered_mono split: option.splits list.splits)
next
  case (SDefer a r)
  then have "state_ok own ac (ac_states ac ! a)" using assms(1,2) co_ok_state at_stateD by auto
  with SDefer show ?thesis using assms
    by (auto intro!: step_ok_upd simp: state_ok_def res_answered_mono)
next
  case (SReturn r)
  then show ?thesis using assms by simp
qed

lemma step_advance:
  assumes "co_ok own lg ac" and "call_ok own lg ac c" and "advance fire c ac = Some (c', ac')"
  shows "step_ok own lg ac (events c c') c' ac'"
  using assms step_notify step_wait step_send step_next step_deliver by (cases c) (auto simp del: events.simps)

lemma grows_list_all: "list_all (call_ok own lg ac) cs \<Longrightarrow> grows own ac own' ac' \<Longrightarrow> list_all (call_ok own' (lg @ es) ac') cs"
  unfolding list_all_iff using call_ok_mono by blast

lemma RegisterVM_ok:
  assumes "co_ok own lg ac"
  shows "co_ok own lg (RegisterVM v ac)" and "grows own ac own (RegisterVM v ac)"
proof -
  show g: "grows own ac own (RegisterVM v ac)" by (auto simp: grows_def at_state_def at_chan_def RegisterVM_def nth_append)
  have "state_ok own (RegisterVM v ac) (ac_states (RegisterVM v ac) ! a)" if "a < length (ac_states (RegisterVM v ac))" for a
  proof (cases "a < length (ac_states ac)")
    case True
    then show ?thesis using co_ok_state [OF assms True] state_ok_grows [OF _ g] by (simp add: RegisterVM_def nth_append)
  next
    case False
    with that show ?thesis by (simp add: RegisterVM_def nth_append state_ok_def new_agentState_def)
  qed
  moreover have "at_state (RegisterVM v ac) w a \<and> \<not> as_closed (ac_states (RegisterVM v ac) ! a)"
    if "map_of (ac_agents (RegisterVM v ac)) w = Some a" for w a
  proof (cases "w = v")
    case True
    with that show ?thesis by (auto simp: at_state_def RegisterVM_def new_agentState_def)
  next
    case False
    then have "at_state ac w a \<and> \<not> as_closed (ac_states ac ! a)" using assms that by (simp add: co_ok_def RegisterVM_def)
    then show ?thesis by (simp add: at_state_def RegisterVM_def nth_append)
  qed
  moreover have "ac_chans (RegisterVM v ac) = ac_chans ac" by (simp add: RegisterVM_def)
  ultimately show "co_ok own lg (RegisterVM v ac)" using assms by (simp add: co_ok_def)
qed

lemma UnregisterVM_ok:
  assumes "co_ok own lg ac"
  shows "co_ok own lg (UnregisterVM v ac)" and "grows own ac own (UnregisterVM v ac)"
proof -
  show g: "grows own ac own (UnregisterVM v ac)"
    by (auto simp: grows_def at_state_def at_chan_def UnregisterVM_def upd_state_def nth_upd split: option.splits)
  show "co_ok own lg (UnregisterVM v ac)"
  proof (cases "map_of (ac_agents ac) v")
    case (Some a)
    let ?ac = "UnregisterVM v ac"
    have ag: "at_state ?ac w b \<and> \<not> as_closed (ac_states ?ac ! b)" if "map_of (ac_agents ?ac) w = Some b" for w b
    proof -
      have w: "w \<noteq> v" "map_of (ac_agents ac) w = Some b" using that Some by (auto simp: UnregisterVM_def split: if_splits)
      then have "b \<noteq> a" using co_ok_agent [OF assms w(2)] co_ok_agent [OF assms Some] by (auto simp: at_state_def)
      then show ?thesis using assms w g by (auto simp: co_ok_def grows_def UnregisterVM_def Some upd_state_def)
    qed
    have "state_ok own ac (ac_states ?ac ! b)" if "b < length (ac_states ?ac)" for b
      using assms that by (auto simp: co_ok_def UnregisterVM_def Some upd_state_def nth_upd state_ok_def)
    then show ?thesis
      using assms ag state_ok_grows [OF _ g] by (auto simp: co_ok_def UnregisterVM_def Some upd_state_def)
  qed (use assms in \<open>simp add: UnregisterVM_def\<close>)
qed

lemma co_inv_start: "co_inv co_start"
  by (simp add: co_inv_def co_start_def co_ok_def NewAgentCoordinator_def)

lemma co_inv_step: "co_inv s \<Longrightarrow> co_step s m = Some s' \<Longrightarrow> co_inv s'"
proof -
  assume "co_inv s" and st: "co_step s m = Some s'"
  then obtain own where ok: "co_ok own (co_log s) (co_ac s)"
    and calls: "list_all (call_ok own (co_log s) (co_ac s)) (co_calls s)" by (auto simp: co_inv_def)
  show "co_inv s'"
  proof (cases m)
    case (MRegister v)
    with st RegisterVM_ok(1) [OF ok, of v] grows_list_all [OF calls RegisterVM_ok(2) [OF ok, of v], of "[]"]
    show ?thesis by (auto simp: co_inv_def)
  next
    case (MUnregister v)
    with st UnregisterVM_ok(1) [OF ok, of v] grows_list_all [OF calls UnregisterVM_ok(2) [OF ok, of v], of "[]"]
    show ?thesis by (auto simp: co_inv_def)
  next
    case (MCall c)
    then have "call_ok own (co_log s) (co_ac s) c" using st by (cases c) (auto split: if_splits)
    with MCall st ok calls show ?thesis by (auto simp: co_inv_def split: if_splits)
  next
    case (MRun i fire)
    with st obtain c ac where i: "i < length (co_calls s)" and adv: "advance fire (co_calls s ! i) (co_ac s) = Some (c, ac)"
      and s': "s' = \<lparr>co_ac = ac, co_calls = (co_calls s)[i := c], co_log = co_log s @ events (co_calls s ! i) c\<rparr>"
      by (auto split: if_splits option.splits simp del: advance.simps)
    have "call_ok own (co_log s) (co_ac s) (co_calls s ! i)" using calls i by (simp add: list_all_length)
    from step_advance [OF ok this adv] obtain own' where new: "co_ok own' (co_log s') ac"
      "grows own (co_ac s) own' ac" "call_ok own' (co_log s') ac c" by (auto simp: step_ok_def s' simp del: events.simps)
    then have "list_all (call_ok own' (co_log s') ac) ((co_calls s)[i := c])"
      using grows_list_all [OF calls new(2)] by (auto simp: s' list_all_length nth_upd simp del: events.simps)
    with new(1) show ?thesis by (auto simp: co_inv_def s' simp del: events.simps)
  qed
qed

lemma co_inv_run: "co_run co_start ms = Some s \<Longrightarrow> co_inv s"
  by (rule co_run_invariant [where P = co_inv]) (auto intro: co_inv_start co_inv_step)

subsection \<open>Channels\<close>

text \<open>What a log shows for one channel, given the events that concern it.\<close>

fun on :: "(event \<Rightarrow> (nat \<times> 'x) option) \<Rightarrow> nat \<Rightarrow> event list \<Rightarrow> 'x list" where
  "on f a [] = []"
| "on f a (e # es) = (case f e of Some (b, x) \<Rightarrow> if b = a then x # on f a es else on f a es | None \<Rightarrow> on f a es)"

lemma on_append [simp]: "on f a (es @ es') = on f a es @ on f a es'"
  by (induction es) (auto split: option.split)

text \<open>
  A channel of the coordinator: its sends and receives are events of the log, and every step keeps what was sent as what
  was received followed by what the channel holds.
\<close>

locale channel =
  fixes put :: "event \<Rightarrow> (nat \<times> 'x) option" and get :: "event \<Rightarrow> (nat \<times> 'x) option"
    and buf :: "AgentCoordinator \<Rightarrow> nat \<Rightarrow> 'x list"
  assumes empty: "buf NewAgentCoordinator a = []"
    and register: "buf (RegisterVM v ac) a = buf ac a"
    and unregister: "buf (UnregisterVM v ac) a = buf ac a"
    and advance: "call_ok own lg ac c \<Longrightarrow> advance fire c ac = Some (c', ac') \<Longrightarrow>
      buf ac a @ on put a (events c c') = on get a (events c c') @ buf ac' a"
begin

lemma step:
  assumes "co_inv s" and "co_step s m = Some s'" and "on put a (co_log s) = on get a (co_log s) @ buf (co_ac s) a"
  shows "on put a (co_log s') = on get a (co_log s') @ buf (co_ac s') a"
proof (cases m)
  case (MRun i fire)
  with assms(2) obtain c ac where i: "i < length (co_calls s)" and adv: "advance fire (co_calls s ! i) (co_ac s) = Some (c, ac)"
    and s': "s' = \<lparr>co_ac = ac, co_calls = (co_calls s)[i := c], co_log = co_log s @ events (co_calls s ! i) c\<rparr>"
    by (auto split: if_splits option.splits simp del: advance.simps)
  from assms(1) i obtain own where "call_ok own (co_log s) (co_ac s) (co_calls s ! i)"
    by (auto simp: co_inv_def list_all_length)
  from advance [OF this adv, of a] assms(3) show ?thesis by (simp add: s' del: events.simps)
qed (use assms in \<open>auto simp: register unregister split: if_splits\<close>)

lemma fifo:
  assumes "co_run co_start ms = Some s"
  shows "on put a (co_log s) = on get a (co_log s) @ buf (co_ac s) a"
proof -
  have "co_inv s \<and> on put a (co_log s) = on get a (co_log s) @ buf (co_ac s) a"
    by (rule co_run_invariant [OF assms, where P = "\<lambda>s. co_inv s \<and> on put a (co_log s) = on get a (co_log s) @ buf (co_ac s) a"])
      (use co_inv_start co_inv_step step empty in \<open>auto simp: co_start_def\<close>)
  then show ?thesis ..
qed

end

fun put_command :: "event \<Rightarrow> (nat \<times> AgentCommand) option" where
  "put_command (Queued a c) = Some (a, c)"
| "put_command _ = None"

fun get_command :: "event \<Rightarrow> (nat \<times> AgentCommand) option" where
  "get_command (Fetched a c) = Some (a, c)"
| "get_command _ = None"

fun put_result :: "event \<Rightarrow> (nat \<times> AgentResult) option" where
  "put_result (Delivered v ch r) = Some (ch, r)"
| "put_result _ = None"

fun get_result :: "event \<Rightarrow> (nat \<times> AgentResult) option" where
  "get_result (Received ch r) = Some (ch, r)"
| "get_result _ = None"

definition commands :: "AgentCoordinator \<Rightarrow> nat \<Rightarrow> AgentCommand list" where
  "commands ac a = (if a < length (ac_states ac) then as_commands (ac_states ac ! a) else [])"

definition results :: "AgentCoordinator \<Rightarrow> nat \<Rightarrow> AgentResult list" where
  "results ac ch = (if ch < length (ac_chans ac) then ac_chans ac ! ch else [])"

lemma commands_upd [simp]:
  "commands (upd_state b f ac) a = (if a = b \<and> b < length (ac_states ac) then as_commands (f (ac_states ac ! b)) else commands ac a)"
  by (auto simp: commands_def upd_state_def nth_upd)

lemma commands_at: "a < length (ac_states ac) \<Longrightarrow> commands ac a = as_commands (ac_states ac ! a)"
  and results_at: "ch < length (ac_chans ac) \<Longrightarrow> results ac ch = ac_chans ac ! ch"
  by (simp_all add: commands_def results_def)

lemma commands_chans [simp]: "commands (ac\<lparr>ac_chans := cs\<rparr>) a = commands ac a"
  by (simp add: commands_def)

lemma results_upd [simp]: "results (upd_state b f ac) a = results ac a"
  by (simp add: results_def upd_state_def)

lemma results_chans [simp]: "results (ac\<lparr>ac_chans := (ac_chans ac)[ch := rs]\<rparr>) a =
    (if a = ch \<and> ch < length (ac_chans ac) then rs else results ac a)"
  "results (ac\<lparr>ac_chans := ac_chans ac @ [[]]\<rparr>) a = results ac a"
  by (auto simp: results_def nth_upd nth_append)

lemma results_new: "results ((upd_state b f ac)\<lparr>ac_chans := ac_chans ac @ [[]]\<rparr>) a = results ac a"
  by (auto simp: results_def nth_append upd_state_def)

lemma commands_send:
  assumes "call_ok own lg ac (SendCall v c p)" and "SendCommand fire v c p ac = Some (p', ac')"
  shows "commands ac a @ on put_command a (send_events c p p') = on get_command a (send_events c p p') @ commands ac' a"
proof (cases p)
  case (SEnqueue b ch)
  then show ?thesis using assms by (auto simp: Let_def at_state_def commands_at split: option.splits if_splits)
next
  case (SAwait b ch)
  then show ?thesis using assms by (auto split: option.splits list.splits)
qed (use assms in \<open>auto simp: Let_def commands_at split: option.splits\<close>)

lemma results_send:
  assumes "call_ok own lg ac (SendCall v c p)" and "SendCommand fire v c p ac = Some (p', ac')"
  shows "results ac a @ on put_result a (send_events c p p') = on get_result a (send_events c p p') @ results ac' a"
proof (cases p)
  case (SEnqueue b ch)
  then show ?thesis using assms by (auto simp: Let_def split: option.splits if_splits)
next
  case (SAwait b ch)
  then show ?thesis using assms by (auto simp: at_chan_def results_at split: option.splits list.splits)
qed (use assms in \<open>auto simp: Let_def results_new split: option.splits\<close>)

interpretation cq: channel put_command get_command commands
proof (unfold_locales, goal_cases)
  case (4 own lg ac c fire c' ac' a)
  show ?case
  proof (cases c)
    case (NextCall v p)
    with 4 show ?thesis
      by (cases p) (auto simp: Let_def at_state_def commands_at split: option.splits list.splits if_splits)
  next
    case (NotifyCall v i p)
    with 4 show ?thesis by (cases p) (auto simp: commands_at split: option.splits)
  next
    case (WaitCall v p)
    with 4 show ?thesis by (cases p) (auto split: option.splits if_splits)
  next
    case (SendCall v d p)
    with 4 show ?thesis using commands_send by fastforce
  next
    case (DeliverCall v r p)
    with 4 show ?thesis by (cases p) (auto split: option.splits if_splits)
  qed
qed (auto simp: NewAgentCoordinator_def RegisterVM_def UnregisterVM_def commands_def upd_state_def nth_append nth_upd new_agentState_def split: option.split)

interpretation rc: channel put_result get_result results
proof (unfold_locales, goal_cases)
  case (4 own lg ac c fire c' ac' a)
  show ?case
  proof (cases c)
    case (NextCall v p)
    with 4 show ?thesis by (cases p) (auto simp: Let_def split: option.splits list.splits if_splits)
  next
    case (NotifyCall v i p)
    with 4 show ?thesis by (cases p) (auto split: option.splits)
  next
    case (WaitCall v p)
    with 4 show ?thesis by (cases p) (auto split: option.splits if_splits)
  next
    case (SendCall v d p)
    with 4 show ?thesis using results_send by fastforce
  next
    case (DeliverCall v r p)
    with 4 show ?thesis by (cases p) (auto simp: at_chan_def results_at split: option.splits if_splits)
  qed
qed (auto simp: NewAgentCoordinator_def RegisterVM_def UnregisterVM_def results_def upd_state_def split: option.split)

subsection \<open>Waiters\<close>

text \<open>The waiter of a command belongs to a call of \<open>SendCommand\<close> in progress.\<close>

fun holds :: "nat \<Rightarrow> string \<Rightarrow> call \<Rightarrow> bool" where
  "holds a i (SendCall v c p) \<longleftrightarrow> cmd_ID c = i \<and>
     (case p of SEnqueue b _ \<Rightarrow> b = a | SAwait b _ \<Rightarrow> b = a | SDefer b _ \<Rightarrow> b = a | _ \<Rightarrow> False)"
| "holds a i _ \<longleftrightarrow> False"

definition waits :: "AgentCoordinator \<Rightarrow> nat \<Rightarrow> string \<Rightarrow> bool" where
  "waits ac a i \<longleftrightarrow> a < length (ac_states ac) \<and> map_of (as_resultWaiters (ac_states ac ! a)) i \<noteq> None"

definition held :: "co_sys \<Rightarrow> bool" where
  "held s \<longleftrightarrow> (\<forall>a i. waits (co_ac s) a i \<longrightarrow> (\<exists>c \<in> set (co_calls s). holds a i c))"

lemma waits_upd [simp]: "waits (upd_state b f ac) a i \<longleftrightarrow>
    a < length (ac_states ac) \<and> (if a = b then map_of (as_resultWaiters (f (ac_states ac ! b))) i \<noteq> None else waits ac a i)"
  by (auto simp: waits_def upd_state_def nth_upd)

lemma waits_chans [simp]: "waits (ac\<lparr>ac_chans := cs\<rparr>) a i = waits ac a i"
  by (simp add: waits_def)

lemma waitsI: "a < length (ac_states ac) \<Longrightarrow> map_of (as_resultWaiters (ac_states ac ! a)) i = Some ch \<Longrightarrow> waits ac a i"
  by (simp add: waits_def)

lemma waits_advance:
  assumes "advance fire c ac = Some (c', ac')" and "waits ac' a i"
  shows "holds a i c' \<or> waits ac a i \<and> \<not> holds a i c"
proof (cases c)
  case (SendCall v d p)
  with assms show ?thesis
    by (cases p) (auto simp: Let_def split: option.splits list.splits if_splits intro: waitsI)
next
  case (NotifyCall v j p)
  with assms show ?thesis by (cases p) (auto split: option.splits if_splits intro: waitsI)
next
  case (WaitCall v p)
  with assms show ?thesis by (cases p) (auto split: option.splits if_splits)
next
  case (NextCall v p)
  with assms show ?thesis by (cases p) (auto simp: Let_def split: option.splits list.splits if_splits intro: waitsI)
next
  case (DeliverCall v r p)
  with assms show ?thesis by (cases p) (auto split: option.splits if_splits)
qed

lemma held_step: "held s \<Longrightarrow> co_step s m = Some s' \<Longrightarrow> held s'"
proof (cases m)
  case (MRun k fire)
  assume h: "held s" and "co_step s m = Some s'"
  with MRun obtain c ac where k: "k < length (co_calls s)" and adv: "advance fire (co_calls s ! k) (co_ac s) = Some (c, ac)"
    and s': "co_ac s' = ac" "co_calls s' = (co_calls s)[k := c]"
    by (auto split: if_splits option.splits simp del: advance.simps)
  show ?thesis
    unfolding held_def
  proof (intro allI impI)
    fix a i
    assume "waits (co_ac s') a i"
    then consider "holds a i c" | "waits (co_ac s) a i" "\<not> holds a i (co_calls s ! k)"
      using waits_advance [OF adv] s'(1) by blast
    then show "\<exists>d \<in> set (co_calls s'). holds a i d"
    proof cases
      case 1
      then show ?thesis using k s'(2) set_update_memI by metis
    next
      case 2
      then obtain j where "j < length (co_calls s)" "holds a i (co_calls s ! j)"
        using h unfolding held_def by (metis in_set_conv_nth)
      moreover from this 2 have "j \<noteq> k" by blast
      ultimately show ?thesis unfolding s'(2) by (metis length_list_update nth_list_update_neq nth_mem)
    qed
  qed
next
  case (MRegister v)
  assume h: "held s" and "co_step s m = Some s'"
  moreover have "waits (RegisterVM v (co_ac s)) a i \<longleftrightarrow> waits (co_ac s) a i" for a i
    by (auto simp: waits_def RegisterVM_def nth_append new_agentState_def)
  ultimately show ?thesis using MRegister by (auto simp: held_def)
next
  case (MUnregister v)
  assume h: "held s" and "co_step s m = Some s'"
  moreover have "waits (UnregisterVM v (co_ac s)) a i \<longleftrightarrow> waits (co_ac s) a i" for a i
    by (auto simp: waits_def UnregisterVM_def upd_state_def nth_upd split: option.split)
  ultimately show ?thesis using MUnregister by (auto simp: held_def)
qed (auto simp: held_def split: if_splits)

lemma held_run: "co_run co_start ms = Some s \<Longrightarrow> held s"
proof -
  have "held co_start" by (simp add: held_def waits_def co_start_def NewAgentCoordinator_def)
  then show "co_run co_start ms = Some s \<Longrightarrow> held s" by (rule co_run_invariant [where P = held, rotated]) (rule held_step)
qed

subsection \<open>Returning\<close>

fun returned :: "call \<Rightarrow> bool" where
  "returned (NotifyCall v i p) = (case p of NReturn _ \<Rightarrow> True | _ \<Rightarrow> False)"
| "returned (WaitCall v p) = (case p of WReturn _ \<Rightarrow> True | _ \<Rightarrow> False)"
| "returned (SendCall v c p) = (case p of SReturn _ \<Rightarrow> True | _ \<Rightarrow> False)"
| "returned (NextCall v p) = (case p of GReturn _ \<Rightarrow> True | _ \<Rightarrow> False)"
| "returned (DeliverCall v r p) = (case p of DReturn _ \<Rightarrow> True | _ \<Rightarrow> False)"

text \<open>At most so many steps are left.\<close>

fun steps_left :: "call \<Rightarrow> nat" where
  "steps_left (NotifyCall v i p) = (case p of NEnter \<Rightarrow> 2 | NReady _ \<Rightarrow> 1 | NReturn _ \<Rightarrow> 0)"
| "steps_left (WaitCall v p) = (case p of WEnter \<Rightarrow> 2 | WSelect _ \<Rightarrow> 1 | WReturn _ \<Rightarrow> 0)"
| "steps_left (SendCall v c p) =
     (case p of SEnter \<Rightarrow> 5 | SRegister _ \<Rightarrow> 4 | SEnqueue _ _ \<Rightarrow> 3 | SAwait _ _ \<Rightarrow> 2 | SDefer _ _ \<Rightarrow> 1 | SReturn _ \<Rightarrow> 0)"
| "steps_left (NextCall v p) = (case p of GEnter \<Rightarrow> 2 | GSelect _ \<Rightarrow> 1 | GReturn _ \<Rightarrow> 0)"
| "steps_left (DeliverCall v r p) = (case p of DEnter \<Rightarrow> 3 | DWaiter _ \<Rightarrow> 2 | DSelect _ \<Rightarrow> 1 | DReturn _ \<Rightarrow> 0)"

lemma steps_left_returned: "steps_left c = 0 \<longleftrightarrow> returned c"
  by (cases c) (auto split: notify_pc.splits wait_pc.splits send_pc.splits next_pc.splits deliver_pc.splits)

lemma advance_decreases: "advance fire c ac = Some (c', ac') \<Longrightarrow> steps_left c' < steps_left c"
proof (cases c)
  case (SendCall v d p)
  assume "advance fire c ac = Some (c', ac')"
  with SendCall show ?thesis by (cases p) (auto simp: Let_def split: option.splits list.splits if_splits)
next
  case (NotifyCall v j p)
  assume "advance fire c ac = Some (c', ac')"
  with NotifyCall show ?thesis by (cases p) (auto split: option.splits)
next
  case (WaitCall v p)
  assume "advance fire c ac = Some (c', ac')"
  with WaitCall show ?thesis by (cases p) (auto split: option.splits if_splits)
next
  case (NextCall v p)
  assume "advance fire c ac = Some (c', ac')"
  with NextCall show ?thesis by (cases p) (auto simp: Let_def split: option.splits list.splits if_splits)
next
  case (DeliverCall v r p)
  assume "advance fire c ac = Some (c', ac')"
  with DeliverCall show ?thesis by (cases p) (auto split: option.splits if_splits)
qed

lemma advance_cancelled: "\<not> returned c \<Longrightarrow> advance (Some e) c ac \<noteq> None"
  by (cases c) (auto simp: Let_def split: notify_pc.splits wait_pc.splits send_pc.splits next_pc.splits deliver_pc.splits option.splits)

lemma cancelled_returns:
  "i < length (co_calls s) \<Longrightarrow> steps_left (co_calls s ! i) \<le> n \<Longrightarrow>
   \<exists>k \<le> n. \<exists>s'. co_run s (replicate k (MRun i (Some e))) = Some s' \<and> returned (co_calls s' ! i)"
proof (induction n arbitrary: s)
  case 0
  then show ?case using steps_left_returned by (intro exI [of _ 0]) auto
next
  case (Suc n)
  show ?case
  proof (cases "returned (co_calls s ! i)")
    case True
    then show ?thesis by (intro exI [of _ 0]) auto
  next
    case False
    then obtain c ac where adv: "advance (Some e) (co_calls s ! i) (co_ac s) = Some (c, ac)"
      using advance_cancelled by fastforce
    let ?s = "\<lparr>co_ac = ac, co_calls = (co_calls s)[i := c], co_log = co_log s @ events (co_calls s ! i) c\<rparr>"
    have "steps_left (co_calls ?s ! i) \<le> n" using advance_decreases [OF adv] Suc.prems by simp
    with Suc obtain k s' where k: "k \<le> n" "co_run ?s (replicate k (MRun i (Some e))) = Some s'" "returned (co_calls s' ! i)"
      by (metis co_sys.select_convs(2) length_list_update)
    then have "co_run s (replicate (Suc k) (MRun i (Some e))) = Some s'"
      using Suc.prems(1) adv by (simp del: events.simps advance.simps)
    with k show ?thesis using Suc_le_mono by blast
  qed
qed


subsection \<open>Properties\<close>

text \<open>Registering a VM, one command that is answered, and the schedule in which the VM is unregistered before the command is queued.\<close>

definition example_cmd :: AgentCommand where
  "example_cmd = \<lparr>cmd_ID = ''c1'', cmd_Type = ''EXEC'', cmd_Parameters = []\<rparr>"

definition example_answer :: AgentResult where
  "example_answer = \<lparr>ares_CommandID = ''c1'', ares_Status = ''passed'', ares_Output = [], ares_Logs = [], ares_DurationMs = 1\<rparr>"

definition send_moves :: "move list" where
  "send_moves = [MRegister ''vm'', MCall (SendCall ''vm'' example_cmd SEnter), MRun 0 None, MRun 0 None, MRun 0 None,
     MCall (NextCall ''vm'' GEnter), MRun 1 None, MRun 1 None]"

definition answer_moves :: "move list" where
  "answer_moves = [MCall (DeliverCall ''vm'' example_answer DEnter), MRun 2 None, MRun 2 None, MRun 2 None, MRun 0 None, MRun 0 None]"

text \<open>
  C10: an answer reaches the command it belongs to. Under every schedule of registrations, commands, polls and
  results, a \<open>SendCommand\<close> that returns a result returns one that was delivered for its VM and that names its
  command.
\<close>

theorem agent_results_match:
  assumes "co_run co_start ms = Some s" and "SendCall v c (SReturn (Ok r)) \<in> set (co_calls s)"
  shows "ares_CommandID r = cmd_ID c \<and> (\<exists>ch. Delivered v ch r \<in> set (co_log s))"
proof -
  obtain own where "list_all (call_ok own (co_log s) (co_ac s)) (co_calls s)"
    using co_inv_run [OF assms(1)] by (auto simp: co_inv_def)
  then have "call_ok own (co_log s) (co_ac s) (SendCall v c (SReturn (Ok r)))" using assms(2) unfolding list_all_iff by blast
  then show ?thesis by (simp add: answered_def)
qed

theorem agent_results_match_witness:
  "\<exists>s. co_run co_start (send_moves @ answer_moves) = Some s \<and>
     SendCall ''vm'' example_cmd (SReturn (Ok example_answer)) \<in> set (co_calls s) \<and>
     (\<exists>ch. Delivered ''vm'' ch example_answer \<in> set (co_log s))"
proof -
  let ?s = "the (co_run co_start (send_moves @ answer_moves))"
  have "co_run co_start (send_moves @ answer_moves) \<noteq> None" by code_simp
  then have run: "co_run co_start (send_moves @ answer_moves) = Some ?s" by auto
  have "hd (co_calls ?s) = SendCall ''vm'' example_cmd (SReturn (Ok example_answer)) \<and> co_calls ?s \<noteq> []" by code_simp
  then have ret: "SendCall ''vm'' example_cmd (SReturn (Ok example_answer)) \<in> set (co_calls ?s)" by (metis list.set_sel(1))
  from agent_results_match [OF run ret] run ret show ?thesis by blast
qed

text \<open>
  C11: commands and results pass in order and at most once. For every state of a VM, the commands that were queued are the
  commands that polls returned, in the same order, followed by those still in the buffer, which holds at
  most 16; and for every result channel the results that were delivered are the one that was received
  followed by what the channel holds, which is at most one.
\<close>

theorem agent_fifo:
  assumes "co_run co_start ms = Some s"
  shows "on put_command a (co_log s) = on get_command a (co_log s) @ commands (co_ac s) a \<and>
    on put_result ch (co_log s) = on get_result ch (co_log s) @ results (co_ac s) ch \<and>
    length (commands (co_ac s) a) \<le> 16 \<and> length (results (co_ac s) ch) \<le> 1"
proof -
  obtain own where "co_ok own (co_log s) (co_ac s)" using co_inv_run [OF assms] by (auto simp: co_inv_def)
  then have "length (commands (co_ac s) a) \<le> 16" and "length (results (co_ac s) ch) \<le> 1"
    by (auto simp: co_ok_def state_ok_def chan_ok_def commands_def results_def command_buffer_def)
  with cq.fifo [OF assms] rc.fifo [OF assms] show ?thesis by blast
qed

theorem agent_fifo_witness:
  "\<exists>s. co_run co_start send_moves = Some s \<and> on put_command 0 (co_log s) = [example_cmd] \<and>
     on get_command 0 (co_log s) = [example_cmd] \<and> commands (co_ac s) 0 = []"
proof -
  let ?s = "the (co_run co_start send_moves)"
  have "co_run co_start send_moves \<noteq> None" by code_simp
  then have run: "co_run co_start send_moves = Some ?s" by auto
  have "on put_command 0 (co_log ?s) = [example_cmd]" "on get_command 0 (co_log ?s) = [example_cmd]" by code_simp+
  with agent_fifo [OF run, of 0 0] run show ?thesis by auto
qed

text \<open>
  C12: no call hangs or leaks. Once the context of a call is done (or the timer of a delivery expired), five
  of its own steps are enough for it to return, with no help from other goroutines; and when all calls
  have returned, no waiter is left in the state of any VM.
\<close>

theorem agent_calls_return:
  assumes "co_run co_start ms = Some s"
  shows "(\<forall>i e. i < length (co_calls s) \<longrightarrow>
      (\<exists>k \<le> 5. \<exists>s'. co_run s (replicate k (MRun i (Some e))) = Some s' \<and> returned (co_calls s' ! i))) \<and>
    (list_all returned (co_calls s) \<longrightarrow> list_all (\<lambda>st. as_resultWaiters st = []) (ac_states (co_ac s)))"
proof (intro conjI allI impI)
  fix i e
  assume "i < length (co_calls s)"
  moreover have "steps_left c \<le> 5" for c
    by (cases c) (auto split: notify_pc.splits wait_pc.splits send_pc.splits next_pc.splits deliver_pc.splits)
  ultimately show "\<exists>k \<le> 5. \<exists>s'. co_run s (replicate k (MRun i (Some e))) = Some s' \<and> returned (co_calls s' ! i)"
    using cancelled_returns by blast
next
  assume ret: "list_all returned (co_calls s)"
  have "\<not> holds a i c" if "returned c" for a i c using that by (cases c) (auto split: send_pc.splits)
  with ret have "\<not> waits (co_ac s) a i" for a i
    using held_run [OF assms] unfolding held_def list_all_iff by blast
  then have "map_of (as_resultWaiters st) i = None" if "st \<in> set (ac_states (co_ac s))" for st i
    using that by (auto simp: waits_def in_set_conv_nth)
  then show "list_all (\<lambda>st. as_resultWaiters st = []) (ac_states (co_ac s))"
    unfolding list_all_iff by (metis map_of_eq_empty_iff)
qed

theorem agent_calls_return_witness:
  "\<exists>s. co_run co_start send_moves = Some s \<and> \<not> returned (hd (co_calls s)) \<and>
     (\<exists>k \<le> 5. \<exists>s'. co_run s (replicate k (MRun 0 (Some ECanceled))) = Some s' \<and> returned (co_calls s' ! 0))"
proof -
  let ?s = "the (co_run co_start send_moves)"
  have "co_run co_start send_moves \<noteq> None" by code_simp
  then have run: "co_run co_start send_moves = Some ?s" by auto
  have "\<not> returned (hd (co_calls ?s))" and "0 < length (co_calls ?s)" by code_simp+
  with agent_calls_return [OF run] run show ?thesis by blast
qed


end
