(* ===== verification/Store_Interface.thy ===== *)
theory Store_Interface
  imports Memory_Store
begin

text \<open>
  The interface \<open>storage.Store\<close> of \<open>internal/storage/store.go\<close> as a record of operations on a world, which the API
  server and the VM manager are written against, and its implementation by the memory store. Contexts are not
  shown: the memory store ignores them. The world of the memory store has the time \<open>time.Now\<close> returns and the
  order in which a loop over a map visits its keys, which Go leaves open.
\<close>

record 'w Store =
  sto_CreateTestRun :: "TestRun \<Rightarrow> 'w \<Rightarrow> (error + TestRun) \<times> 'w"
  sto_GetTestRun :: "string \<Rightarrow> 'w \<Rightarrow> (error + TestRun) \<times> 'w"
  sto_UpdateTestRunStatus :: "string \<Rightarrow> TestRunStatus \<Rightarrow> string \<Rightarrow> 'w \<Rightarrow> (error + unit) \<times> 'w"
  sto_ListTestRuns :: "ListTestRunsRequest \<Rightarrow> 'w \<Rightarrow> (error + TestRun list) \<times> 'w"
  sto_ListRunningTestRuns :: "'w \<Rightarrow> (error + TestRun list) \<times> 'w"
  sto_SaveTestResult :: "TestResult \<Rightarrow> 'w \<Rightarrow> (error + unit) \<times> 'w"
  sto_GetTestResults :: "string \<Rightarrow> 'w \<Rightarrow> (error + TestResult list) \<times> 'w"
  sto_SaveVM :: "VMInstance \<Rightarrow> 'w \<Rightarrow> (error + unit) \<times> 'w"
  sto_GetVM :: "string \<Rightarrow> 'w \<Rightarrow> (error + VMInstance) \<times> 'w"
  sto_UpdateVMStatus :: "string \<Rightarrow> VMStatus \<Rightarrow> 'w \<Rightarrow> (error + unit) \<times> 'w"
  sto_ListVMs :: "ListVMsRequest \<Rightarrow> 'w \<Rightarrow> (error + VMInstance list) \<times> 'w"
  sto_ListOrphanedVMs :: "'w \<Rightarrow> (error + VMInstance list) \<times> 'w"
  sto_DeleteVM :: "string \<Rightarrow> 'w \<Rightarrow> (error + unit) \<times> 'w"
  sto_Ping :: "'w \<Rightarrow> (error + unit) \<times> 'w"
  sto_Close :: "'w \<Rightarrow> (error + unit) \<times> 'w"

record store_world =
  sw_store :: MemoryStore
  sw_now :: int
  sw_order :: "string list \<Rightarrow> string list"

text \<open>The operations of the memory store never panic.\<close>

fun read_op :: "'a res \<Rightarrow> 'w \<Rightarrow> (error + 'a) \<times> 'w" where
  "read_op (Ok x) w = (Inr x, w)"
| "read_op (Err e) w = (Inl e, w)"
| "read_op (Panic p) w = (Inl (EText p), w)"

fun write_op :: "MemoryStore res \<Rightarrow> 'x store_world_scheme \<Rightarrow> (error + unit) \<times> 'x store_world_scheme" where
  "write_op (Ok m) w = (Inr (), w\<lparr>sw_store := m\<rparr>)"
| "write_op (Err e) w = (Inl e, w)"
| "write_op (Panic p) w = (Inl (EText p), w)"

definition runs_order :: "'x store_world_scheme \<Rightarrow> string list" where
  "runs_order w = sw_order w (gkeys (ms_testRuns (sw_store w)))"

definition vms_order :: "'x store_world_scheme \<Rightarrow> string list" where
  "vms_order w = sw_order w (gkeys (ms_vms (sw_store w)))"

definition mem_Store :: "'x store_world_scheme Store" where
  "mem_Store = \<lparr>
     sto_CreateTestRun = (\<lambda>run w. case CreateTestRun (sw_now w) (sw_store w) run of (r, m) \<Rightarrow> (Inr r, w\<lparr>sw_store := m\<rparr>)),
     sto_GetTestRun = (\<lambda>i w. read_op (GetTestRun (sw_store w) i) w),
     sto_UpdateTestRunStatus = (\<lambda>i st msg w. write_op (UpdateTestRunStatus (sw_now w) (sw_store w) i st msg) w),
     sto_ListTestRuns = (\<lambda>req w. (Inr (ListTestRuns (sw_store w) (runs_order w) req), w)),
     sto_ListRunningTestRuns = (\<lambda>w. (Inr (ListRunningTestRuns (sw_store w) (runs_order w)), w)),
     sto_SaveTestResult = (\<lambda>r w. (Inr (), w\<lparr>sw_store := snd (SaveTestResult (sw_store w) r)\<rparr>)),
     sto_GetTestResults = (\<lambda>i w. (Inr (GetTestResults (sw_store w) i), w)),
     sto_SaveVM = (\<lambda>vm w. (Inr (), w\<lparr>sw_store := snd (SaveVM (sw_store w) vm)\<rparr>)),
     sto_GetVM = (\<lambda>i w. read_op (GetVM (sw_store w) i) w),
     sto_UpdateVMStatus = (\<lambda>i st w. write_op (UpdateVMStatus (sw_store w) i st) w),
     sto_ListVMs = (\<lambda>req w. (Inr (ListVMs (sw_store w) (vms_order w) req), w)),
     sto_ListOrphanedVMs = (\<lambda>w. (Inr (ListOrphanedVMs (sw_store w) (vms_order w)), w)),
     sto_DeleteVM = (\<lambda>i w. write_op (DeleteVM (sw_store w) i) w),
     sto_Ping = (\<lambda>w. read_op (Ping (sw_store w)) w),
     sto_Close = (\<lambda>w. read_op (CloseStore (sw_store w)) w)\<rparr>"

text \<open>The order of a map loop is an order of the keys.\<close>

definition fair_order :: "'x store_world_scheme \<Rightarrow> bool" where
  "fair_order w \<longleftrightarrow> (\<forall>ks. distinct ks \<longrightarrow> distinct (sw_order w ks) \<and> set (sw_order w ks) = set ks)"

lemma runs_order_range: "fair_order w \<Longrightarrow> ms_inv (sw_store w) \<Longrightarrow> is_range (runs_order w) (ms_testRuns (sw_store w))"
  and vms_order_range: "fair_order w \<Longrightarrow> ms_inv (sw_store w) \<Longrightarrow> is_range (vms_order w) (ms_vms (sw_store w))"
  by (auto simp: fair_order_def is_range_code runs_order_def vms_order_def ms_inv_def runs_ok_def vms_ok_def)

lemma mem_Store_sel [simp]:
  "sto_CreateTestRun mem_Store run w = (Inr (fst (CreateTestRun (sw_now w) (sw_store w) run)), w\<lparr>sw_store := snd (CreateTestRun (sw_now w) (sw_store w) run)\<rparr>)"
  "sto_GetTestRun mem_Store i w = read_op (GetTestRun (sw_store w) i) w"
  "sto_UpdateTestRunStatus mem_Store i st msg w = write_op (UpdateTestRunStatus (sw_now w) (sw_store w) i st msg) w"
  "sto_ListTestRuns mem_Store req w = (Inr (ListTestRuns (sw_store w) (runs_order w) req), w)"
  "sto_GetTestResults mem_Store i w = (Inr (GetTestResults (sw_store w) i), w)"
  "sto_GetVM mem_Store i w = read_op (GetVM (sw_store w) i) w"
  "sto_SaveVM mem_Store vm w = (Inr (), w\<lparr>sw_store := snd (SaveVM (sw_store w) vm)\<rparr>)"
  "sto_UpdateVMStatus mem_Store i vst w = write_op (UpdateVMStatus (sw_store w) i vst) w"
  "sto_ListVMs mem_Store vreq w = (Inr (ListVMs (sw_store w) (vms_order w) vreq), w)"
  "sto_Ping mem_Store w = (Inr (), w)"
  by (simp_all add: mem_Store_def split_beta Ping_def)

end
