(* ===== verification/API.thy ===== *)
theory API
  imports Store_Interface Engine
begin

text \<open>
  The gRPC server, \<open>internal/api/grpc_server.go\<close>: the handlers of the orchestrator service and the conversions between
  the types of the core and the protocol messages of \<open>proto/orchestrator.proto\<close>. A handler takes the request and the world
  and returns the reply, a status error with its code, or the panic that ends the process.
\<close>

subsection \<open>Protocol messages\<close>

text \<open>An enumeration of a protocol message is open: a number without a name is kept.\<close>

datatype pb_TestRunStatus =
    TEST_RUN_STATUS_UNSPECIFIED
  | TEST_RUN_STATUS_PENDING
  | TEST_RUN_STATUS_QUEUED
  | TEST_RUN_STATUS_RUNNING
  | TEST_RUN_STATUS_PASSED
  | TEST_RUN_STATUS_FAILED
  | TEST_RUN_STATUS_ERRORED
  | TEST_RUN_STATUS_CANCELLED
  | TEST_RUN_STATUS_TIMEOUT
  | TEST_RUN_STATUS_OTHER int

datatype pb_VMStatus =
    VM_STATUS_UNSPECIFIED
  | VM_STATUS_CREATING
  | VM_STATUS_BOOTING
  | VM_STATUS_READY
  | VM_STATUS_RUNNING_TEST
  | VM_STATUS_STOPPING
  | VM_STATUS_STOPPED
  | VM_STATUS_ERROR
  | VM_STATUS_DESTROYED
  | VM_STATUS_OTHER int

text \<open>The message \<open>timestamppb.New\<close> makes of a time.\<close>

datatype Timestamp = TimestampNew int

record pb_TestRun =
  pr_Id :: string
  pr_DeviceId :: string
  pr_TestSuiteId :: string
  pr_Status :: pb_TestRunStatus
  pr_VmId :: string
  pr_Priority :: int
  pr_CreatedAt :: Timestamp
  pr_StartedAt :: "Timestamp option"
  pr_CompletedAt :: "Timestamp option"
  pr_DurationMs :: int
  pr_RequestedBy :: string
  pr_Tags :: "string list"
  pr_ErrorMessage :: string

record pb_TestResult =
  ptr_Id :: string
  ptr_TestRunId :: string
  ptr_TestName :: string
  ptr_Category :: string
  ptr_Status :: pb_TestRunStatus
  ptr_DurationMs :: int
  ptr_Message :: string
  ptr_Metrics :: "(string, rat) gomap"
  ptr_Logs :: string
  ptr_CompletedAt :: Timestamp

record pb_VMInstance =
  pv_Id :: string
  pv_Status :: pb_VMStatus
  pv_DeviceId :: string
  pv_QmpSocketPath :: string
  pv_SerialPorts :: "string list"
  pv_Pid :: int
  pv_AllocatedCpus :: int
  pv_AllocatedMemMb :: int
  pv_ImagePath :: string
  pv_CreatedAt :: Timestamp
  pv_AgentStatus :: string
  pv_CurrentTestRunId :: string
  pv_LastHeartbeat :: "Timestamp option"

record pb_DeviceEntry =
  pd_Id :: string
  pd_Name :: string
  pd_VendorId :: string
  pd_DeviceId :: string
  pd_PciClass :: string
  pd_QemuDeviceName :: string
  pd_DriverModule :: string
  pd_DriverPath :: string
  pd_Description :: string
  pd_Capabilities :: "string list"
  pd_TestSuites :: "string list"

record pb_SubmitTestRunRequest =
  ps_DeviceId :: string
  ps_TestSuiteId :: string
  ps_Priority :: int
  ps_Tags :: "string list"
  ps_RequestedBy :: string

record pb_ListTestRunsRequest =
  pl_DeviceId :: string
  pl_Status :: pb_TestRunStatus
  pl_Limit :: int
  pl_Offset :: int

record pb_ListVMsRequest =
  plv_Status :: pb_VMStatus
  plv_DeviceId :: string

record pb_ListTestRunsResponse =
  plr_TestRuns :: "pb_TestRun list"
  plr_TotalCount :: int

record pb_CancelTestRunResponse =
  pc_Success :: bool
  pc_Message :: string

record pb_ComponentHealth =
  ph_Status :: string
  ph_Message :: string

record pb_GetHealthResponse =
  pg_Status :: string
  pg_Components :: "(string, pb_ComponentHealth) gomap"
  pg_Timestamp :: Timestamp

subsection \<open>Conversions\<close>

fun testRunStatusToProto :: "TestRunStatus \<Rightarrow> pb_TestRunStatus" where
  "testRunStatusToProto TestRunStatusPending = TEST_RUN_STATUS_PENDING"
| "testRunStatusToProto TestRunStatusQueued = TEST_RUN_STATUS_QUEUED"
| "testRunStatusToProto TestRunStatusRunning = TEST_RUN_STATUS_RUNNING"
| "testRunStatusToProto TestRunStatusPassed = TEST_RUN_STATUS_PASSED"
| "testRunStatusToProto TestRunStatusFailed = TEST_RUN_STATUS_FAILED"
| "testRunStatusToProto TestRunStatusErrored = TEST_RUN_STATUS_ERRORED"
| "testRunStatusToProto TestRunStatusCancelled = TEST_RUN_STATUS_CANCELLED"
| "testRunStatusToProto TestRunStatusTimeout = TEST_RUN_STATUS_TIMEOUT"
| "testRunStatusToProto TestRunStatusUnset = TEST_RUN_STATUS_UNSPECIFIED"

fun protoToTestRunStatus :: "pb_TestRunStatus \<Rightarrow> TestRunStatus" where
  "protoToTestRunStatus TEST_RUN_STATUS_PENDING = TestRunStatusPending"
| "protoToTestRunStatus TEST_RUN_STATUS_QUEUED = TestRunStatusQueued"
| "protoToTestRunStatus TEST_RUN_STATUS_RUNNING = TestRunStatusRunning"
| "protoToTestRunStatus TEST_RUN_STATUS_PASSED = TestRunStatusPassed"
| "protoToTestRunStatus TEST_RUN_STATUS_FAILED = TestRunStatusFailed"
| "protoToTestRunStatus TEST_RUN_STATUS_ERRORED = TestRunStatusErrored"
| "protoToTestRunStatus TEST_RUN_STATUS_CANCELLED = TestRunStatusCancelled"
| "protoToTestRunStatus TEST_RUN_STATUS_TIMEOUT = TestRunStatusTimeout"
| "protoToTestRunStatus _ = TestRunStatusUnset"

fun vmStatusToProto :: "VMStatus \<Rightarrow> pb_VMStatus" where
  "vmStatusToProto VMStatusCreating = VM_STATUS_CREATING"
| "vmStatusToProto VMStatusBooting = VM_STATUS_BOOTING"
| "vmStatusToProto VMStatusReady = VM_STATUS_READY"
| "vmStatusToProto VMStatusRunningTest = VM_STATUS_RUNNING_TEST"
| "vmStatusToProto VMStatusStopping = VM_STATUS_STOPPING"
| "vmStatusToProto VMStatusStopped = VM_STATUS_STOPPED"
| "vmStatusToProto VMStatusError = VM_STATUS_ERROR"
| "vmStatusToProto VMStatusDestroyed = VM_STATUS_DESTROYED"
| "vmStatusToProto VMStatusUnset = VM_STATUS_UNSPECIFIED"

fun protoToVMStatus :: "pb_VMStatus \<Rightarrow> VMStatus" where
  "protoToVMStatus VM_STATUS_CREATING = VMStatusCreating"
| "protoToVMStatus VM_STATUS_BOOTING = VMStatusBooting"
| "protoToVMStatus VM_STATUS_READY = VMStatusReady"
| "protoToVMStatus VM_STATUS_RUNNING_TEST = VMStatusRunningTest"
| "protoToVMStatus VM_STATUS_STOPPING = VMStatusStopping"
| "protoToVMStatus VM_STATUS_STOPPED = VMStatusStopped"
| "protoToVMStatus VM_STATUS_ERROR = VMStatusError"
| "protoToVMStatus VM_STATUS_DESTROYED = VMStatusDestroyed"
| "protoToVMStatus _ = VMStatusUnset"

fun agent_status_str :: "AgentStatus \<Rightarrow> string" where
  "agent_status_str AgentStatusUnknown = ''UNKNOWN''"
| "agent_status_str AgentStatusInitializing = ''INITIALIZING''"
| "agent_status_str AgentStatusReady = ''READY''"
| "agent_status_str AgentStatusExecuting = ''EXECUTING''"
| "agent_status_str AgentStatusReporting = ''REPORTING''"
| "agent_status_str AgentStatusDead = ''DEAD''"

definition testRunToProto :: "TestRun \<Rightarrow> pb_TestRun" where
  "testRunToProto r = \<lparr>
     pr_Id = run_ID r, pr_DeviceId = run_DeviceID r, pr_TestSuiteId = run_TestSuiteID r,
     pr_Status = testRunStatusToProto (run_Status r), pr_VmId = run_VMID r, pr_Priority = wrap32 (run_Priority r),
     pr_CreatedAt = TimestampNew (run_CreatedAt r), pr_StartedAt = map_option TimestampNew (run_StartedAt r),
     pr_CompletedAt = map_option TimestampNew (run_CompletedAt r), pr_DurationMs = run_DurationMs r,
     pr_RequestedBy = run_RequestedBy r, pr_Tags = run_Tags r, pr_ErrorMessage = run_ErrorMessage r\<rparr>"

definition testResultToProto :: "TestResult \<Rightarrow> pb_TestResult" where
  "testResultToProto r = \<lparr>
     ptr_Id = tres_ID r, ptr_TestRunId = tres_TestRunID r, ptr_TestName = tres_TestName r, ptr_Category = tres_Category r,
     ptr_Status = testRunStatusToProto (tres_Status r), ptr_DurationMs = tres_DurationMs r, ptr_Message = tres_Message r,
     ptr_Metrics = tres_Metrics r, ptr_Logs = tres_Logs r, ptr_CompletedAt = TimestampNew (tres_CompletedAt r)\<rparr>"

definition vmToProto :: "VMInstance \<Rightarrow> pb_VMInstance" where
  "vmToProto vm = \<lparr>
     pv_Id = vm_ID vm, pv_Status = vmStatusToProto (vm_Status vm), pv_DeviceId = vm_DeviceID vm,
     pv_QmpSocketPath = vm_QMPSocketPath vm, pv_SerialPorts = vm_SerialPorts vm, pv_Pid = wrap32 (vm_PID vm),
     pv_AllocatedCpus = wrap32 (vm_AllocatedCPUs vm), pv_AllocatedMemMb = wrap32 (vm_AllocatedMemMB vm),
     pv_ImagePath = vm_ImagePath vm, pv_CreatedAt = TimestampNew (vm_CreatedAt vm),
     pv_AgentStatus = agent_status_str (vm_AgentStatus vm), pv_CurrentTestRunId = vm_CurrentTestRunID vm,
     pv_LastHeartbeat = map_option TimestampNew (vm_LastHeartbeat vm)\<rparr>"

definition deviceToProto :: "DeviceEntry \<Rightarrow> pb_DeviceEntry" where
  "deviceToProto d = \<lparr>
     pd_Id = dev_ID d, pd_Name = dev_Name d, pd_VendorId = dev_VendorID d, pd_DeviceId = dev_DeviceID d,
     pd_PciClass = dev_PCIClass d, pd_QemuDeviceName = dev_QEMUDeviceName d, pd_DriverModule = dev_DriverModule d,
     pd_DriverPath = dev_DriverPath d, pd_Description = dev_Description d, pd_Capabilities = dev_Capabilities d,
     pd_TestSuites = dev_TestSuites d\<rparr>"

subsection \<open>Handlers\<close>

datatype code = NotFound | InvalidArgument | Internal

datatype 'a rpc = Reply 'a | Status code string | Crash string

text \<open>\<open>srv_engine\<close> is \<open>engine.SubmitTestRun\<close>, which panics on a closed scheduler.\<close>

record 'w GRPCServer =
  srv_store :: "'w Store"
  srv_registry :: DeviceRegistry
  srv_engine :: "(TestRun \<Rightarrow> 'w \<Rightarrow> unit res \<times> 'w) option"
  srv_audit :: "(audit_record \<Rightarrow> 'w \<Rightarrow> 'w) option"
  srv_now :: "'w \<Rightarrow> int"

definition NewGRPCServer :: "'w Store \<Rightarrow> DeviceRegistry \<Rightarrow> (TestRun \<Rightarrow> 'w \<Rightarrow> unit res \<times> 'w) option \<Rightarrow>
    (audit_record \<Rightarrow> 'w \<Rightarrow> 'w) option \<Rightarrow> ('w \<Rightarrow> int) \<Rightarrow> 'w GRPCServer" where
  "NewGRPCServer store registry engine adt now =
     \<lparr>srv_store = store, srv_registry = registry, srv_engine = engine, srv_audit = adt, srv_now = now\<rparr>"

definition audit_log :: "'w GRPCServer \<Rightarrow> audit_record \<Rightarrow> 'w \<Rightarrow> 'w" where
  "audit_log s r w = (case srv_audit s of None \<Rightarrow> w | Some lg \<Rightarrow> lg r w)"

definition submitted_run :: "pb_SubmitTestRunRequest \<Rightarrow> TestRun" where
  "submitted_run req = \<lparr>run_ID = [], run_DeviceID = ps_DeviceId req, run_TestSuiteID = ps_TestSuiteId req,
     run_Status = TestRunStatusPending, run_VMID = [], run_Priority = ps_Priority req, run_CreatedAt = 0,
     run_StartedAt = None, run_CompletedAt = None, run_DurationMs = 0, run_RequestedBy = ps_RequestedBy req,
     run_Tags = ps_Tags req, run_ErrorMessage = []\<rparr>"

definition SubmitTestRun_rpc :: "'w GRPCServer \<Rightarrow> pb_SubmitTestRunRequest \<Rightarrow> 'w \<Rightarrow> pb_TestRun rpc \<times> 'w" where
  "SubmitTestRun_rpc s req w =
     (case FindDevice (srv_registry s) (ps_DeviceId req) of
        Err err \<Rightarrow> (Status NotFound (''device not found: '' @ error_text err), w)
      | Panic p \<Rightarrow> (Crash p, w)
      | Ok _ \<Rightarrow>
          if ps_TestSuiteId req = '''' then (Status InvalidArgument ''test_suite_id is required'', w)
          else case sto_CreateTestRun (srv_store s) (submitted_run req) w of
              (Inl err, w1) \<Rightarrow> (Status Internal (''failed to create test run: '' @ error_text err), w1)
            | (Inr created, w1) \<Rightarrow>
                let w2 = audit_log s (LogSubmit (run_ID created) (run_DeviceID created) (run_TestSuiteID created)
                           (run_RequestedBy created) (run_Tags created)) w1
                in case srv_engine s of
                     None \<Rightarrow> (Reply (testRunToProto created), w2)
                   | Some submit \<Rightarrow>
                       (case submit created w2 of
                          (Panic p, w3) \<Rightarrow> (Crash p, w3)
                        | (_, w3) \<Rightarrow> (Reply (testRunToProto created), w3)))"

definition GetTestRun_rpc :: "'w GRPCServer \<Rightarrow> string \<Rightarrow> 'w \<Rightarrow> pb_TestRun rpc \<times> 'w" where
  "GetTestRun_rpc s i w =
     (if i = '''' then (Status InvalidArgument ''id is required'', w)
      else case sto_GetTestRun (srv_store s) i w of
          (Inl err, w1) \<Rightarrow> (Status NotFound (''test run not found: '' @ error_text err), w1)
        | (Inr run, w1) \<Rightarrow> (Reply (testRunToProto run), w1))"

definition core_list_req :: "pb_ListTestRunsRequest \<Rightarrow> ListTestRunsRequest" where
  "core_list_req req = \<lparr>lr_DeviceID = pl_DeviceId req,
     lr_Status = (if pl_Status req \<noteq> TEST_RUN_STATUS_UNSPECIFIED then protoToTestRunStatus (pl_Status req) else TestRunStatusUnset),
     lr_Limit = pl_Limit req, lr_Offset = pl_Offset req\<rparr>"

definition ListTestRuns_rpc :: "'w GRPCServer \<Rightarrow> pb_ListTestRunsRequest \<Rightarrow> 'w \<Rightarrow> pb_ListTestRunsResponse rpc \<times> 'w" where
  "ListTestRuns_rpc s req w =
     (case sto_ListTestRuns (srv_store s) (core_list_req req) w of
        (Inl err, w1) \<Rightarrow> (Status Internal (''failed to list test runs: '' @ error_text err), w1)
      | (Inr runs, w1) \<Rightarrow>
          (Reply \<lparr>plr_TestRuns = map testRunToProto runs, plr_TotalCount = wrap32 (int (length runs))\<rparr>, w1))"

definition cancellable :: "TestRunStatus \<Rightarrow> bool" where
  "cancellable st \<longleftrightarrow> \<not> (st \<noteq> TestRunStatusPending \<and> st \<noteq> TestRunStatusRunning \<and> st \<noteq> TestRunStatusQueued)"

definition CancelTestRun_rpc :: "'w GRPCServer \<Rightarrow> string \<Rightarrow> 'w \<Rightarrow> pb_CancelTestRunResponse rpc \<times> 'w" where
  "CancelTestRun_rpc s i w =
     (if i = '''' then (Status InvalidArgument ''id is required'', w)
      else case sto_GetTestRun (srv_store s) i w of
          (Inl err, w1) \<Rightarrow> (Status NotFound (''test run not found: '' @ error_text err), w1)
        | (Inr run, w1) \<Rightarrow>
            if \<not> cancellable (run_Status run)
            then (Reply \<lparr>pc_Success = False, pc_Message = ''cannot cancel test run in status '' @ run_status_str (run_Status run)\<rparr>, w1)
            else case sto_UpdateTestRunStatus (srv_store s) i TestRunStatusCancelled ''cancelled by user'' w1 of
                (Inl err, w2) \<Rightarrow> (Status Internal (''failed to cancel: '' @ error_text err), w2)
              | (Inr _, w2) \<Rightarrow>
                  (Reply \<lparr>pc_Success = True, pc_Message = ''test run cancelled''\<rparr>, audit_log s (LogCancel i (run_RequestedBy run)) w2))"

definition GetTestResults_rpc :: "'w GRPCServer \<Rightarrow> string \<Rightarrow> 'w \<Rightarrow> pb_TestResult list rpc \<times> 'w" where
  "GetTestResults_rpc s i w =
     (if i = '''' then (Status InvalidArgument ''test_run_id is required'', w)
      else case sto_GetTestResults (srv_store s) i w of
          (Inl err, w1) \<Rightarrow> (Status Internal (''failed to get results: '' @ error_text err), w1)
        | (Inr results, w1) \<Rightarrow> (Reply (map testResultToProto results), w1))"

definition core_vms_req :: "pb_ListVMsRequest \<Rightarrow> ListVMsRequest" where
  "core_vms_req req = \<lparr>
     lv_Status = (if plv_Status req \<noteq> VM_STATUS_UNSPECIFIED then protoToVMStatus (plv_Status req) else VMStatusUnset),
     lv_DeviceID = plv_DeviceId req\<rparr>"

definition ListVMs_rpc :: "'w GRPCServer \<Rightarrow> pb_ListVMsRequest \<Rightarrow> 'w \<Rightarrow> pb_VMInstance list rpc \<times> 'w" where
  "ListVMs_rpc s req w =
     (case sto_ListVMs (srv_store s) (core_vms_req req) w of
        (Inl err, w1) \<Rightarrow> (Status Internal (''failed to list VMs: '' @ error_text err), w1)
      | (Inr vms, w1) \<Rightarrow> (Reply (map vmToProto vms), w1))"

definition GetVM_rpc :: "'w GRPCServer \<Rightarrow> string \<Rightarrow> 'w \<Rightarrow> pb_VMInstance rpc \<times> 'w" where
  "GetVM_rpc s i w =
     (if i = '''' then (Status InvalidArgument ''id is required'', w)
      else case sto_GetVM (srv_store s) i w of
          (Inl err, w1) \<Rightarrow> (Status NotFound (''vm not found: '' @ error_text err), w1)
        | (Inr vm, w1) \<Rightarrow> (Reply (vmToProto vm), w1))"

definition ListDevices_rpc :: "'w GRPCServer \<Rightarrow> pb_DeviceEntry list rpc" where
  "ListDevices_rpc s = Reply (map deviceToProto (reg_Devices (srv_registry s)))"

definition GetDevice_rpc :: "'w GRPCServer \<Rightarrow> string \<Rightarrow> pb_DeviceEntry rpc" where
  "GetDevice_rpc s i =
     (if i = '''' then Status InvalidArgument ''id is required''
      else case FindDevice (srv_registry s) i of
          Err err \<Rightarrow> Status NotFound (''device not found: '' @ error_text err)
        | Panic p \<Rightarrow> Crash p
        | Ok d \<Rightarrow> Reply (deviceToProto d))"

fun overall_status :: "pb_ComponentHealth list \<Rightarrow> string" where
  "overall_status [] = ''healthy''"
| "overall_status (c # cs) = (if ph_Status c = ''unhealthy'' then ''degraded'' else overall_status cs)"

definition GetHealth_rpc :: "'w GRPCServer \<Rightarrow> 'w \<Rightarrow> pb_GetHealthResponse rpc \<times> 'w" where
  "GetHealth_rpc s w =
     (case sto_Ping (srv_store s) w of
        (r, w1) \<Rightarrow>
          let storage = (case r of Inl err \<Rightarrow> \<lparr>ph_Status = ''unhealthy'', ph_Message = error_text err\<rparr>
                         | Inr _ \<Rightarrow> \<lparr>ph_Status = ''healthy'', ph_Message = ''ok''\<rparr>);
              components = gput ''grpc_server'' \<lparr>ph_Status = ''healthy'', ph_Message = ''serving''\<rparr>
                             (gput ''storage'' storage [])
          in (Reply \<lparr>pg_Status = overall_status (gvals components), pg_Components = components,
                     pg_Timestamp = TimestampNew (srv_now s w1)\<rparr>, w1))"

subsection \<open>The server of the memory store and the engine\<close>

record 'e api_world = store_world +
  aw_sched :: Scheduler
  aw_audit :: "audit_record list"
  aw_engine :: "'e est"

definition engine_submit :: "'e ExecutionEngine \<Rightarrow> TestRun \<Rightarrow> 'e api_world \<Rightarrow> unit res \<times> 'e api_world" where
  "engine_submit e run w =
     (case run_state (SubmitTestRun e (aw_sched w) run) (aw_engine w) of
        ((s, r), st) \<Rightarrow> (r, w\<lparr>aw_sched := s, aw_engine := st\<rparr>))"

definition mem_server :: "'e ExecutionEngine \<Rightarrow> DeviceRegistry \<Rightarrow> 'e api_world GRPCServer" where
  "mem_server e reg = NewGRPCServer mem_Store reg (Some (engine_submit e)) (Some (\<lambda>r w. w\<lparr>aw_audit := aw_audit w @ [r]\<rparr>)) sw_now"

lemma mem_server_sel [simp]:
  "srv_store (mem_server e reg) = mem_Store" "srv_registry (mem_server e reg) = reg"
  "srv_engine (mem_server e reg) = Some (engine_submit e)" "srv_now (mem_server e reg) = sw_now"
  "audit_log (mem_server e reg) r w = w\<lparr>aw_audit := aw_audit w @ [r]\<rparr>"
  by (simp_all add: mem_server_def NewGRPCServer_def audit_log_def)

lemma SubmitTestRun_enqueues: "fst (run_state (SubmitTestRun e s run) st) = Enqueue s run"
  by (cases "Enqueue s run"; cases "snd (Enqueue s run)")
    (auto simp: SubmitTestRun_def ret_def State_Monad.bind_def State_Monad.return_def split_beta)

lemma engine_submit_open:
  assumes "\<not> sch_closed (aw_sched w)"
  obtains st where "engine_submit e run w =
    (Ok (), w\<lparr>aw_sched := (aw_sched w)\<lparr>sch_queue := sch_queue (aw_sched w) @ [run], sch_token := True\<rparr>, aw_engine := st\<rparr>)"
proof -
  have "Enqueue (aw_sched w) run = ((aw_sched w)\<lparr>sch_queue := sch_queue (aw_sched w) @ [run], sch_token := True\<rparr>, Ok ())"
    using assms by (simp add: Enqueue_def enqueue_cs_def signal_def)
  with that show thesis
    using SubmitTestRun_enqueues [of e "aw_sched w" run "aw_engine w"] by (simp add: engine_submit_def split_beta)
qed

lemma FindDevice_iff:
  "(\<exists>d. FindDevice reg i = Ok d) \<longleftrightarrow> i \<in> dev_ID ` set (reg_Devices reg)"
  "i \<notin> dev_ID ` set (reg_Devices reg) \<Longrightarrow> FindDevice reg i = Err (EDeviceNotFound i)"
proof -
  have "find_device ds i = (if i \<in> dev_ID ` set ds then Ok (the (find (\<lambda>d. dev_ID d = i) ds)) else Err (EDeviceNotFound i))" for ds
    by (induction ds) auto
  then show "(\<exists>d. FindDevice reg i = Ok d) \<longleftrightarrow> i \<in> dev_ID ` set (reg_Devices reg)"
    and "i \<notin> dev_ID ` set (reg_Devices reg) \<Longrightarrow> FindDevice reg i = Err (EDeviceNotFound i)"
    by (auto simp: FindDevice_def)
qed

definition run_typed :: "pb_TestRun \<Rightarrow> bool" where
  "run_typed p \<longleftrightarrow> in_int32 (pr_Priority p) \<and> pr_Status p \<noteq> TEST_RUN_STATUS_UNSPECIFIED \<and> (\<forall>n. pr_Status p \<noteq> TEST_RUN_STATUS_OTHER n)"

definition vm_typed :: "pb_VMInstance \<Rightarrow> bool" where
  "vm_typed p \<longleftrightarrow> in_int32 (pv_Pid p) \<and> in_int32 (pv_AllocatedCpus p) \<and> in_int32 (pv_AllocatedMemMb p) \<and>
     (\<forall>n. pv_Status p \<noteq> VM_STATUS_OTHER n)"

lemma pick_stored: "v \<in> set (pick P m ks) \<Longrightarrow> \<exists>k. map_of m k = Some v"
  by (induction ks) (auto split: option.splits if_splits)

lemma wrap32_range [simp]: "in_int32 (wrap32 x)"
  by (auto simp: in_int32_def wrap32_def)

lemma run_typed_proto: "run_Status r \<noteq> TestRunStatusUnset \<Longrightarrow> run_typed (testRunToProto r)"
  by (cases "run_Status r") (auto simp: run_typed_def testRunToProto_def)

lemma vm_typed_proto: "vm_typed (vmToProto vm)"
  by (cases "vm_Status vm") (auto simp: vm_typed_def vmToProto_def)

lemma stored_run_typed: "ms_inv m \<Longrightarrow> map_of (ms_testRuns m) i = Some r \<Longrightarrow> run_typed (testRunToProto r)"
  using runs_okD(2) run_typed_proto by (auto simp: ms_inv_def)

subsection \<open>Properties\<close>

text \<open>A world with one device, two stored runs, the first of them running, and an open scheduler.\<close>

definition api_example :: "unit api_world" where
  "api_example = \<lparr>sw_store = foldl store_step NewMemoryStore (take 3 example_ops), sw_now = 9, sw_order = (\<lambda>ks. ks),
     aw_sched = NewScheduler 1, aw_audit = [], aw_engine = \<lparr>es_calls = [], es_world = ()\<rparr>\<rparr>"

definition api_request :: pb_SubmitTestRunRequest where
  "api_request = \<lparr>ps_DeviceId = dev_ID example_device, ps_TestSuiteId = ''smoke'', ps_Priority = 3, ps_Tags = [], ps_RequestedBy = ''ci''\<rparr>"

abbreviation example_server :: "unit api_world GRPCServer" where
  "example_server \<equiv> mem_server (scripted_engine (\<lambda>_. Inr (answer ''passed'' ''''))) example_registry"

lemma api_example_ok: "ms_inv (sw_store api_example)" "ms_counter (sw_store api_example) < 2 ^ 63 - 1"
  "\<not> sch_closed (aw_sched api_example)"
proof -
  show "ms_inv (sw_store api_example)"
    unfolding api_example_def api_world.simps store_world.simps
    by (rule ms_inv_steps [OF ms_inv_new]) (simp_all add: example_ops_def NewMemoryStore_def)
  show "ms_counter (sw_store api_example) < 2 ^ 63 - 1" "\<not> sch_closed (aw_sched api_example)" by code_simp+
qed

text \<open>
  C15: submitting a run. For an unknown device or an empty suite the request is refused and nothing changes. Otherwise a run with
  an ID no stored run has is stored as pending, put at the end of the scheduler's queue, recorded in the audit log and
  returned; no other stored run changes.
\<close>

theorem api_submit:
  assumes "ms_inv (sw_store w)" and "ms_counter (sw_store w) < 2 ^ 63 - 1" and "\<not> sch_closed (aw_sched w)"
  shows "case SubmitTestRun_rpc (mem_server e reg) req w of (r, w') \<Rightarrow>
    if ps_DeviceId req \<notin> dev_ID ` set (reg_Devices reg)
    then r = Status NotFound (''device not found: '' @ error_text (EDeviceNotFound (ps_DeviceId req))) \<and> w' = w
    else if ps_TestSuiteId req = '''' then r = Status InvalidArgument ''test_suite_id is required'' \<and> w' = w
    else \<exists>run. r = Reply (testRunToProto run) \<and>
      run = (submitted_run req)\<lparr>run_ID := run_ID run, run_CreatedAt := sw_now w\<rparr> \<and>
      map_of (ms_testRuns (sw_store w)) (run_ID run) = None \<and>
      map_of (ms_testRuns (sw_store w')) = (map_of (ms_testRuns (sw_store w)))(run_ID run \<mapsto> run) \<and> ms_inv (sw_store w') \<and>
      sch_queue (aw_sched w') = sch_queue (aw_sched w) @ [run] \<and>
      aw_audit w' = aw_audit w @ [LogSubmit (run_ID run) (ps_DeviceId req) (ps_TestSuiteId req) (ps_RequestedBy req) (ps_Tags req)]"
proof -
  consider (device) "ps_DeviceId req \<notin> dev_ID ` set (reg_Devices reg)"
    | (suite) d where "FindDevice reg (ps_DeviceId req) = Ok d" "ps_TestSuiteId req = ''''"
    | (ok) d where "FindDevice reg (ps_DeviceId req) = Ok d" "ps_TestSuiteId req \<noteq> ''''"
    using FindDevice_iff(1) by blast
  then show ?thesis
  proof cases
    case device
    then show ?thesis by (simp add: SubmitTestRun_rpc_def FindDevice_iff(2))
  next
    case (suite d)
    moreover from this have "ps_DeviceId req \<in> dev_ID ` set (reg_Devices reg)" using FindDevice_iff(1) by blast
    ultimately show ?thesis by (simp add: SubmitTestRun_rpc_def)
  next
    case (ok d)
    then have dev: "ps_DeviceId req \<in> dev_ID ` set (reg_Devices reg)" using FindDevice_iff(1) by blast
    obtain run m where c: "CreateTestRun (sw_now w) (sw_store w) (submitted_run req) = (run, m)" by fastforce
    have run: "run = (submitted_run req)\<lparr>run_ID := run_ID run, run_CreatedAt := sw_now w\<rparr>"
      and rid: "run_ID run = ''tr-'' @ itoa (ms_counter (sw_store w) + 1)"
      and m: "ms_testRuns m = gput (run_ID run) run (ms_testRuns (sw_store w))"
      using c CreateTestRun_eq [OF assms(1,2)] by (auto simp: Let_def submitted_run_def)
    have flds: "run_DeviceID run = ps_DeviceId req" "run_TestSuiteID run = ps_TestSuiteId req"
      "run_RequestedBy run = ps_RequestedBy req" "run_Tags run = ps_Tags req"
      by (subst run, simp add: submitted_run_def)+
    have fresh: "map_of (ms_testRuns (sw_store w)) (run_ID run) = None"
      using fresh_run_id [of "ms_counter (sw_store w)" "ms_testRuns (sw_store w)"] assms(1) by (simp add: rid ms_inv_def)
    have inv: "ms_inv m" using ms_inv_create [OF assms(1,2), of "sw_now w" "submitted_run req"] by (simp add: c)
    let ?w = "w\<lparr>sw_store := m, aw_audit := aw_audit w @ [LogSubmit (run_ID run) (run_DeviceID run) (run_TestSuiteID run)
      (run_RequestedBy run) (run_Tags run)]\<rparr>"
    from assms(3) have "\<not> sch_closed (aw_sched ?w)" by simp
    then obtain st where sub: "engine_submit e run ?w = (Ok (), ?w\<lparr>aw_sched := (aw_sched ?w)\<lparr>sch_queue := sch_queue (aw_sched ?w) @ [run],
        sch_token := True\<rparr>, aw_engine := st\<rparr>)" by (rule engine_submit_open)
    have eq: "SubmitTestRun_rpc (mem_server e reg) req w = (Reply (testRunToProto run), ?w\<lparr>aw_sched := (aw_sched ?w)\<lparr>sch_queue :=
        sch_queue (aw_sched ?w) @ [run], sch_token := True\<rparr>, aw_engine := st\<rparr>)"
      using ok sub by (simp add: SubmitTestRun_rpc_def c)
    have "map_of (gput (run_ID run) run (ms_testRuns (sw_store w))) = (map_of (ms_testRuns (sw_store w)))(run_ID run \<mapsto> run)"
      by (rule gomap_conv)
    then show ?thesis
      unfolding eq prod.case using dev ok(2) fresh inv flds run
      by (simp add: m)
  qed
qed

theorem api_submit_witness:
  "\<exists>run w'. SubmitTestRun_rpc example_server api_request api_example = (Reply (testRunToProto run), w') \<and>
     run_Status run = TestRunStatusPending \<and> sch_queue (aw_sched w') = [run] \<and>
     map_of (ms_testRuns (sw_store w')) (run_ID run) = Some run"
proof -
  have "ps_DeviceId api_request \<in> dev_ID ` set (reg_Devices example_registry)" "ps_TestSuiteId api_request \<noteq> ''''"
    "sch_queue (aw_sched api_example) = []" by code_simp+
  moreover obtain r w' where "SubmitTestRun_rpc example_server api_request api_example = (r, w')" by fastforce
  ultimately obtain run where run: "r = Reply (testRunToProto run)"
      "run = (submitted_run api_request)\<lparr>run_ID := run_ID run, run_CreatedAt := sw_now api_example\<rparr>"
      "map_of (ms_testRuns (sw_store w')) = (map_of (ms_testRuns (sw_store api_example)))(run_ID run \<mapsto> run)"
      "sch_queue (aw_sched w') = [run]" "SubmitTestRun_rpc example_server api_request api_example = (r, w')"
    using api_submit [OF api_example_ok, where e = "scripted_engine (\<lambda>_. Inr (answer ''passed'' ''''))"
        and reg = example_registry and req = api_request] by auto
  have "run_Status run = TestRunStatusPending" by (subst run(2)) (simp add: submitted_run_def)
  with run(1,3-5) show ?thesis by (intro exI [of _ run] exI [of _ w']) simp
qed





text \<open>
  C17: statuses survive the protocol. Converting a status to its message and back gives the status again, for runs and for VMs, and a
  message status with a name is the image of a status; a number without a name reads as no status.
\<close>

theorem api_status_roundtrip:
  "protoToTestRunStatus (testRunStatusToProto s) = s \<and> protoToVMStatus (vmStatusToProto v) = v \<and>
   testRunStatusToProto (protoToTestRunStatus p) = (case p of TEST_RUN_STATUS_OTHER n \<Rightarrow> TEST_RUN_STATUS_UNSPECIFIED | _ \<Rightarrow> p) \<and>
   vmStatusToProto (protoToVMStatus q) = (case q of VM_STATUS_OTHER n \<Rightarrow> VM_STATUS_UNSPECIFIED | _ \<Rightarrow> q)"
proof (intro conjI)
  show "protoToTestRunStatus (testRunStatusToProto s) = s" by (cases s) simp_all
  show "protoToVMStatus (vmStatusToProto v) = v" by (cases v) simp_all
  show "testRunStatusToProto (protoToTestRunStatus p) = (case p of TEST_RUN_STATUS_OTHER n \<Rightarrow> TEST_RUN_STATUS_UNSPECIFIED | _ \<Rightarrow> p)"
    by (cases p) simp_all
  show "vmStatusToProto (protoToVMStatus q) = (case q of VM_STATUS_OTHER n \<Rightarrow> VM_STATUS_UNSPECIFIED | _ \<Rightarrow> q)"
    by (cases q) simp_all
qed

end
