(* ===== verification/VM_Manager.thy ===== *)
theory VM_Manager
  imports Store_Interface Config Recovery "HOL-Library.State_Monad"
begin

text \<open>
  The VM manager, \<open>internal/vm/manager.go\<close>. Its state is the map of live VMs and the counter of the identifiers. What it calls of
  the operating system, of \<open>qemu-img\<close> and of the QMP client is a record of operations on a world; the store is
  the interface of \<open>storage/store.go\<close>. Log output and the writers that collect it are left out.
\<close>

subsection \<open>State\<close>

text \<open>\<open>None\<close> as the device is a nil \<open>DeviceEntry\<close>, of which only the name is used after creation.\<close>

record VMConfig =
  vc_DeviceEntry :: "DeviceEntry option"
  vc_MemoryMB :: int
  vc_CPUs :: int
  vc_KernelPath :: string
  vc_RootFSPath :: string
  vc_ShareDir :: string
  vc_GuestMount :: string

definition zero_VMConfig :: VMConfig where
  "zero_VMConfig = \<lparr>vc_DeviceEntry = None, vc_MemoryMB = 0, vc_CPUs = 0, vc_KernelPath = '''', vc_RootFSPath = '''',
     vc_ShareDir = '''', vc_GuestMount = ''''\<rparr>"

text \<open>A process is known by its ID, a QMP client by its socket.\<close>

record liveVM =
  live_process :: int
  live_qmpClient :: string
  live_instance :: VMInstance

text \<open>
  \<open>ho_Pause\<close> is the \<open>select\<close> between two attempts to connect: the error of the context when it is done, nothing after
  500 ms. \<open>ho_QemuImg\<close> gives the error and the output of the command. \<open>ho_WaitExit\<close> tells whether the process exits within 10 s.
\<close>

record 'w HostOps =
  ho_Now :: "'w \<Rightarrow> int \<times> 'w"
  ho_MkdirAll :: "string \<Rightarrow> 'w \<Rightarrow> (error + unit) \<times> 'w"
  ho_Chmod :: "string \<Rightarrow> 'w \<Rightarrow> unit \<times> 'w"
  ho_Remove :: "string \<Rightarrow> 'w \<Rightarrow> (error + unit) \<times> 'w"
  ho_QemuImg :: "string list \<Rightarrow> 'w \<Rightarrow> (error \<times> string + unit) \<times> 'w"
  ho_Start :: "string \<Rightarrow> string list \<Rightarrow> 'w \<Rightarrow> (error + int) \<times> 'w"
  ho_Connect :: "string \<Rightarrow> 'w \<Rightarrow> (error + unit) \<times> 'w"
  ho_Pause :: "'w \<Rightarrow> error option \<times> 'w"
  ho_QueryStatus :: "string \<Rightarrow> 'w \<Rightarrow> (error + bool) \<times> 'w"
  ho_Powerdown :: "string \<Rightarrow> 'w \<Rightarrow> (error + unit) \<times> 'w"
  ho_WaitExit :: "int \<Rightarrow> 'w \<Rightarrow> bool \<times> 'w"
  ho_Terminate :: "int \<Rightarrow> 'w \<Rightarrow> unit \<times> 'w"
  ho_Kill :: "int \<Rightarrow> 'w \<Rightarrow> unit \<times> 'w"
  ho_CloseQMP :: "string \<Rightarrow> 'w \<Rightarrow> unit \<times> 'w"

record 'w VMManager =
  vmm_cfg :: GlobalConfig
  vmm_store :: "'w Store"
  vmm_host :: "'w HostOps"

record 'w vmm_state =
  mm_liveVMs :: "(string, liveVM) gomap"
  mm_counter :: int
  mm_world :: 'w

definition NewVMManager :: "'w \<Rightarrow> 'w vmm_state" where
  "NewVMManager w = \<lparr>mm_liveVMs = [], mm_counter = 0, mm_world = w\<rparr>"

type_synonym ('w, 'a) vmact = "('w vmm_state, 'a) state"

definition world :: "('w \<Rightarrow> 'a \<times> 'w) \<Rightarrow> ('w, 'a) vmact" where
  "world f = State (\<lambda>s. case f (mm_world s) of (r, w) \<Rightarrow> (r, s\<lparr>mm_world := w\<rparr>))"

definition lookup_live :: "string \<Rightarrow> ('w, liveVM option) vmact" where
  "lookup_live vmID = State (\<lambda>s. (map_of (mm_liveVMs s) vmID, s))"

subsection \<open>Paths and arguments\<close>

text \<open>\<open>filepath.Dir\<close>: the path up to its last slash, cleaned.\<close>

definition path_dir :: "string \<Rightarrow> string" where
  "path_dir p = path_clean (rev (dropWhile (\<lambda>c. c \<noteq> CHR ''/'') (rev p)))"

definition or_def :: "string \<Rightarrow> string \<Rightarrow> string" where
  "or_def s d = (if s = '''' then d else s)"

definition overlay_path :: "string \<Rightarrow> string" where
  "overlay_path vmID = path_join [''/tmp/dvf/overlays'', vmID @ ''.qcow2'']"

definition AgentSocketPath :: "string \<Rightarrow> string" where
  "AgentSocketPath vmID = path_join [''/tmp/dvf/agent'', vmID @ ''.sock'']"

definition qmp_socket :: "GlobalConfig \<Rightarrow> string \<Rightarrow> string" where
  "qmp_socket cfg vmID = path_join [or_def (qc_SocketDir (gc_QEMU cfg)) ''/tmp/dvf/qmp'', vmID @ ''.sock'']"

definition vm_mem :: "GlobalConfig \<Rightarrow> VMConfig \<Rightarrow> int" where
  "vm_mem cfg c = (if vc_MemoryMB c = 0 then qc_DefaultMemoryMB (gc_QEMU cfg) else vc_MemoryMB c)"

definition vm_cpus :: "GlobalConfig \<Rightarrow> VMConfig \<Rightarrow> int" where
  "vm_cpus cfg c = (if vc_CPUs c = 0 then qc_DefaultCPUs (gc_QEMU cfg) else vc_CPUs c)"

definition BuildQEMUArgs :: "GlobalConfig \<Rightarrow> string \<Rightarrow> VMConfig \<Rightarrow> string list" where
  "BuildQEMUArgs cfg vmID c =
     (let q = gc_QEMU cfg;
          kernelPath = or_def (vc_KernelPath c) (qc_KernelPath q);
          shareDir = or_def (vc_ShareDir c) (qc_ShareDir q);
          dataDir = or_def (qc_DataDir q) (path_join [path_dir (path_dir (qc_BinaryPath q)), ''share'', ''qemu''])
      in [''-L'', dataDir, ''-machine'', ''q35'', ''-enable-kvm'', ''-cpu'', ''host'',
          ''-kernel'', kernelPath,
          ''-drive'', ''file='' @ overlay_path vmID @ '',format=qcow2,if=virtio'',
          ''-append'', ''root=/dev/vda console=ttyS0 rw init=/dvf-init dvf_vm_id='' @ vmID,
          ''-m'', itoa (vm_mem cfg c), ''-smp'', itoa (vm_cpus cfg c), ''-nographic'',
          ''-virtfs'', ''local,path='' @ shareDir @ '',mount_tag=hostshare,security_model=none,id=hostshare'',
          ''-qmp'', ''unix:'' @ qmp_socket cfg vmID @ '',server,wait=off'',
          ''-chardev'', ''socket,id=agent-chr,path='' @ AgentSocketPath vmID @ '',server=on,wait=off'',
          ''-device'', ''virtio-serial-pci'', ''-device'', ''virtserialport,chardev=agent-chr,name=dvf.agent.0''] @
         (case vc_DeviceEntry c of None \<Rightarrow> [] | Some d \<Rightarrow> [''-device'', dev_QEMUDeviceName d]))"

subsection \<open>Operations\<close>

text \<open>Unix time is in seconds, times are in nanoseconds.\<close>

definition vm_id :: "int \<Rightarrow> int \<Rightarrow> string" where
  "vm_id unix c = ''vm-'' @ itoa unix @ ''-'' @ itoa c"

definition nextVMID :: "'w VMManager \<Rightarrow> ('w, string) vmact" where
  "nextVMID m =
     do {
       now \<leftarrow> world (ho_Now (vmm_host m));
       State (\<lambda>s. let c = wrap64 (mm_counter s + 1) in (vm_id (now div 10 ^ 9) c, s\<lparr>mm_counter := c\<rparr>))
     }"

definition new_instance :: "GlobalConfig \<Rightarrow> VMConfig \<Rightarrow> string \<Rightarrow> int \<Rightarrow> VMInstance" where
  "new_instance cfg c vmID now = \<lparr>
     vm_ID = vmID, vm_Status = VMStatusCreating,
     vm_DeviceID = (case vc_DeviceEntry c of None \<Rightarrow> '''' | Some d \<Rightarrow> dev_ID d),
     vm_QEMUDeviceName = (case vc_DeviceEntry c of None \<Rightarrow> '''' | Some d \<Rightarrow> dev_QEMUDeviceName d),
     vm_QMPSocketPath = qmp_socket cfg vmID, vm_SerialPorts = [], vm_PID = 0,
     vm_AllocatedCPUs = vm_cpus cfg c, vm_AllocatedMemMB = vm_mem cfg c,
     vm_ImagePath = or_def (vc_RootFSPath c) (qc_RootFSPath (gc_QEMU cfg)), vm_OverlayPath = '''', vm_CreatedAt = now,
     vm_AgentStatus = AgentStatusUnknown, vm_LastHeartbeat = None, vm_CurrentTestRunID = ''''\<rparr>"

definition CreateVM :: "'w VMManager \<Rightarrow> VMConfig \<Rightarrow> ('w, error + VMInstance) vmact" where
  "CreateVM m c =
     do {
       vmID \<leftarrow> nextVMID m;
       now \<leftarrow> world (ho_Now (vmm_host m));
       let inst = new_instance (vmm_cfg m) c vmID now;
       r \<leftarrow> world (sto_SaveVM (vmm_store m) inst);
       (case r of
          Inl err \<Rightarrow> State_Monad.return (Inl (EWrap ''saving VM record'' err))
        | Inr _ \<Rightarrow> State_Monad.return (Inr inst))
     }"

text \<open>The store's errors are ignored where the code ignores them.\<close>

definition set_status :: "'w VMManager \<Rightarrow> string \<Rightarrow> VMStatus \<Rightarrow> ('w, unit) vmact" where
  "set_status m vmID st = do { _ \<leftarrow> world (sto_UpdateVMStatus (vmm_store m) vmID st); State_Monad.return () }"

datatype connection = Connected | TimedOut error | Refused error

fun connect_loop :: "'w VMManager \<Rightarrow> string \<Rightarrow> nat \<Rightarrow> error option \<Rightarrow> ('w, connection) vmact" where
  "connect_loop m sock 0 qmpErr = State_Monad.return (case qmpErr of None \<Rightarrow> Connected | Some err \<Rightarrow> Refused err)"
| "connect_loop m sock (Suc n) qmpErr =
     do {
       r \<leftarrow> world (ho_Connect (vmm_host m) sock);
       (case r of
          Inr _ \<Rightarrow> State_Monad.return Connected
        | Inl err \<Rightarrow>
            do {
              d \<leftarrow> world (ho_Pause (vmm_host m));
              (case d of
                 Some ctxErr \<Rightarrow> State_Monad.return (TimedOut ctxErr)
               | None \<Rightarrow> connect_loop m sock n (Some err))
            })
     }"

text \<open>After the process was started.\<close>

definition start_connect :: "'w VMManager \<Rightarrow> string \<Rightarrow> VMInstance \<Rightarrow> int \<Rightarrow> ('w, error + unit) vmact" where
  "start_connect m vmID inst pid =
     do {
       _ \<leftarrow> set_status m vmID VMStatusBooting;
       let inst = inst\<lparr>vm_PID := pid\<rparr>;
       let sock = vm_QMPSocketPath inst;
       c \<leftarrow> connect_loop m sock 30 None;
       (case c of
          TimedOut err \<Rightarrow>
            do { _ \<leftarrow> set_status m vmID VMStatusError; State_Monad.return (Inl (EWrap (''QMP connect timeout for VM '' @ vmID) err)) }
        | Refused err \<Rightarrow>
            do { _ \<leftarrow> set_status m vmID VMStatusError; State_Monad.return (Inl (EWrap (''connecting QMP for VM '' @ vmID) err)) }
        | Connected \<Rightarrow>
            do {
              _ \<leftarrow> State (\<lambda>s. ((), s\<lparr>mm_liveVMs := gput vmID \<lparr>live_process = pid, live_qmpClient = sock, live_instance = inst\<rparr>
                                  (mm_liveVMs s)\<rparr>));
              r \<leftarrow> world (ho_QueryStatus (vmm_host m) sock);
              _ \<leftarrow> (case r of Inr True \<Rightarrow> set_status m vmID VMStatusReady | _ \<Rightarrow> State_Monad.return ());
              State_Monad.return (Inr ())
            })
     }"

definition start_config :: "VMInstance \<Rightarrow> VMConfig" where
  "start_config inst = zero_VMConfig\<lparr>
     vc_DeviceEntry := (if vm_QEMUDeviceName inst \<noteq> '''' then Some (zero_DeviceEntry\<lparr>dev_QEMUDeviceName := vm_QEMUDeviceName inst\<rparr>) else None),
     vc_MemoryMB := vm_AllocatedMemMB inst, vc_CPUs := vm_AllocatedCPUs inst\<rparr>"

definition start_process :: "'w VMManager \<Rightarrow> string \<Rightarrow> VMInstance \<Rightarrow> ('w, error + unit) vmact" where
  "start_process m vmID inst =
     do {
       r \<leftarrow> world (ho_Start (vmm_host m) (qc_BinaryPath (gc_QEMU (vmm_cfg m))) (BuildQEMUArgs (vmm_cfg m) vmID (start_config inst)));
       (case r of
          Inl err \<Rightarrow> do { _ \<leftarrow> set_status m vmID VMStatusError; State_Monad.return (Inl (EWrap ''starting QEMU process'' err)) }
        | Inr pid \<Rightarrow> start_connect m vmID inst pid)
     }"

definition start_overlay :: "'w VMManager \<Rightarrow> string \<Rightarrow> VMInstance \<Rightarrow> ('w, error + unit) vmact" where
  "start_overlay m vmID inst =
     do {
       r \<leftarrow> world (ho_MkdirAll (vmm_host m) ''/tmp/dvf/overlays'');
       (case r of
          Inl err \<Rightarrow> State_Monad.return (Inl (EWrap ''creating overlay dir'' err))
        | Inr _ \<Rightarrow>
            do {
              let overlaySrc = or_def (vm_ImagePath inst) (qc_RootFSPath (gc_QEMU (vmm_cfg m)));
              r \<leftarrow> world (ho_QemuImg (vmm_host m) [''create'', ''-f'', ''qcow2'', ''-b'', overlaySrc, ''-F'', ''raw'', overlay_path vmID]);
              (case r of
                 Inl (err, out) \<Rightarrow> State_Monad.return
                   (Inl (EText (''creating qcow2 overlay for '' @ vmID @ '': '' @ error_text err @ [CHR 0x0A] @ out)))
               | Inr _ \<Rightarrow> start_process m vmID inst)
            })
     }"

definition StartVM :: "'w VMManager \<Rightarrow> string \<Rightarrow> ('w, error + unit) vmact" where
  "StartVM m vmID =
     do {
       r \<leftarrow> world (sto_GetVM (vmm_store m) vmID);
       (case r of
          Inl err \<Rightarrow> State_Monad.return (Inl (EWrap (''getting VM '' @ vmID) err))
        | Inr inst \<Rightarrow>
            do {
              let socketDir = path_dir (vm_QMPSocketPath inst);
              r \<leftarrow> world (ho_MkdirAll (vmm_host m) socketDir);
              (case r of
                 Inl err \<Rightarrow> State_Monad.return (Inl (EWrap (''creating socket dir '' @ socketDir) err))
               | Inr _ \<Rightarrow>
                   do {
                     _ \<leftarrow> world (ho_Chmod (vmm_host m) socketDir);
                     r \<leftarrow> world (ho_MkdirAll (vmm_host m) ''/tmp/dvf/agent'');
                     (case r of
                        Inl err \<Rightarrow> State_Monad.return (Inl (EWrap ''creating agent socket dir'' err))
                      | Inr _ \<Rightarrow>
                          do {
                            _ \<leftarrow> world (ho_Chmod (vmm_host m) ''/tmp/dvf/agent'');
                            _ \<leftarrow> world (ho_Chmod (vmm_host m) ''/tmp/dvf'');
                            _ \<leftarrow> world (ho_Remove (vmm_host m) (vm_QMPSocketPath inst));
                            start_overlay m vmID inst
                          })
                   })
            })
     }"

definition cleanup :: "'w VMManager \<Rightarrow> string \<Rightarrow> ('w, unit) vmact" where
  "cleanup m vmID =
     do {
       live \<leftarrow> lookup_live vmID;
       (case live of
          None \<Rightarrow> State_Monad.return ()
        | Some l \<Rightarrow>
            do {
              _ \<leftarrow> world (ho_CloseQMP (vmm_host m) (live_qmpClient l));
              State (\<lambda>s. ((), s\<lparr>mm_liveVMs := gdel vmID (mm_liveVMs s)\<rparr>))
            })
     }"

definition force_kill :: "'w VMManager \<Rightarrow> string \<Rightarrow> int \<Rightarrow> ('w, error + unit) vmact" where
  "force_kill m vmID pid =
     do {
       _ \<leftarrow> world (ho_Terminate (vmm_host m) pid);
       _ \<leftarrow> world (ho_Kill (vmm_host m) pid);
       _ \<leftarrow> cleanup m vmID;
       _ \<leftarrow> set_status m vmID VMStatusStopped;
       State_Monad.return (Inr ())
     }"

definition stop_running :: "'w VMManager \<Rightarrow> string \<Rightarrow> liveVM \<Rightarrow> ('w, error + unit) vmact" where
  "stop_running m vmID l =
     do {
       _ \<leftarrow> set_status m vmID VMStatusStopping;
       r \<leftarrow> world (ho_Powerdown (vmm_host m) (live_qmpClient l));
       (case r of
          Inl _ \<Rightarrow> force_kill m vmID (live_process l)
        | Inr _ \<Rightarrow>
            do {
              exited \<leftarrow> world (ho_WaitExit (vmm_host m) (live_process l));
              if exited
              then do {
                _ \<leftarrow> cleanup m vmID;
                _ \<leftarrow> set_status m vmID VMStatusStopped;
                State_Monad.return (Inr ())
              }
              else force_kill m vmID (live_process l)
            })
     }"

definition StopVM :: "'w VMManager \<Rightarrow> string \<Rightarrow> ('w, error + unit) vmact" where
  "StopVM m vmID =
     do {
       live \<leftarrow> lookup_live vmID;
       (case live of
          None \<Rightarrow> State_Monad.return (Inl (EText (''VM '' @ vmID @ '' is not running'')))
        | Some l \<Rightarrow> stop_running m vmID l)
     }"

definition destroy_files :: "'w VMManager \<Rightarrow> string \<Rightarrow> ('w, error + unit) vmact" where
  "destroy_files m vmID =
     do {
       r \<leftarrow> world (sto_GetVM (vmm_store m) vmID);
       _ \<leftarrow> (case r of
               Inr inst \<Rightarrow> if vm_QMPSocketPath inst \<noteq> ''''
                 then do { _ \<leftarrow> world (ho_Remove (vmm_host m) (vm_QMPSocketPath inst)); State_Monad.return () }
                 else State_Monad.return ()
             | Inl _ \<Rightarrow> State_Monad.return ());
       _ \<leftarrow> set_status m vmID VMStatusDestroyed;
       _ \<leftarrow> world (ho_Remove (vmm_host m) (overlay_path vmID));
       State_Monad.return (Inr ())
     }"

definition DestroyVM :: "'w VMManager \<Rightarrow> string \<Rightarrow> ('w, error + unit) vmact" where
  "DestroyVM m vmID =
     do {
       running \<leftarrow> lookup_live vmID;
       _ \<leftarrow> (if running \<noteq> None then do { _ \<leftarrow> StopVM m vmID; State_Monad.return () } else State_Monad.return ());
       destroy_files m vmID
     }"

definition GetQMPClient :: "string \<Rightarrow> ('w, error + string) vmact" where
  "GetQMPClient vmID =
     do {
       live \<leftarrow> lookup_live vmID;
       State_Monad.return (case live of None \<Rightarrow> Inl (EText (''VM '' @ vmID @ '' is not running'')) | Some l \<Rightarrow> Inr (live_qmpClient l))
     }"


subsection \<open>Reasoning about actions\<close>

text \<open>Every run of an action relates its states by \<open>T\<close>; a preorder passes from the parts of an action to the whole.\<close>

definition along :: "('s \<Rightarrow> 's \<Rightarrow> bool) \<Rightarrow> ('s, 'a) state \<Rightarrow> bool" where
  "along T m \<longleftrightarrow> (\<forall>s. T s (snd (run_state m s)))"

definition preorder :: "('s \<Rightarrow> 's \<Rightarrow> bool) \<Rightarrow> bool" where
  "preorder T \<longleftrightarrow> (\<forall>s. T s s) \<and> (\<forall>s s' s''. T s s' \<longrightarrow> T s' s'' \<longrightarrow> T s s'')"

lemma alongD: "along T m \<Longrightarrow> run_state m s = (r, s') \<Longrightarrow> T s s'"
  unfolding along_def by (metis snd_conv)

lemma along_return: "preorder T \<Longrightarrow> along T (State_Monad.return x)"
  by (simp add: along_def preorder_def State_Monad.return_def)

lemma along_bind: "preorder T \<Longrightarrow> along T m \<Longrightarrow> (\<And>x. along T (f x)) \<Longrightarrow> along T (State_Monad.bind m f)"
  unfolding along_def preorder_def State_Monad.bind_def by (simp add: split_beta) metis

lemma along_cases:
  "(\<And>e. along T (f e)) \<Longrightarrow> (\<And>x. along T (g x)) \<Longrightarrow> along T (case r of Inl e \<Rightarrow> f e | Inr x \<Rightarrow> g x)"
  "along T m \<Longrightarrow> (\<And>x. along T (h x)) \<Longrightarrow> along T (case q of None \<Rightarrow> m | Some x \<Rightarrow> h x)"
  "along T m \<Longrightarrow> along T m' \<Longrightarrow> along T (if b then m else m')"
  "along T m \<Longrightarrow> along T m' \<Longrightarrow> along T (case b of True \<Rightarrow> m | False \<Rightarrow> m')"
  "along T m \<Longrightarrow> (\<And>x. along T (k x)) \<Longrightarrow> (\<And>x. along T (l x)) \<Longrightarrow>
     along T (case c of Connected \<Rightarrow> m | TimedOut x \<Rightarrow> k x | Refused x \<Rightarrow> l x)"
  "(\<And>x y. along T (p x y)) \<Longrightarrow> along T (case z of (x, y) \<Rightarrow> p x y)"
  by (auto split: sum.split option.split bool.split connection.split prod.split)

subsection \<open>Contract of the store and the host\<close>

text \<open>
  \<open>view\<close> is what the store holds of the VMs. Saving and updating do what they say or fail without effect, reading returns what is
  stored, and the operations of the host leave the store alone.
\<close>

locale vm_host =
  fixes m :: "'w VMManager" and view :: "'w \<Rightarrow> string \<Rightarrow> VMInstance option"
  assumes save: "vm_ID vm \<noteq> '''' \<Longrightarrow>
      view (snd (sto_SaveVM (vmm_store m) vm w)) \<in> {view w, (view w)(vm_ID vm \<mapsto> vm)}"
    and get: "view (snd (sto_GetVM (vmm_store m) i w)) = view w"
    and got: "fst (sto_GetVM (vmm_store m) i w) = Inr vm \<Longrightarrow> view w i = Some vm"
    and upd: "view (snd (sto_UpdateVMStatus (vmm_store m) i st w)) \<in>
      {view w, (view w)(i := map_option (\<lambda>vm. vm\<lparr>vm_Status := st\<rparr>) (view w i))}"
    and host: "view (snd (ho_Now (vmm_host m) w)) = view w" "view (snd (ho_MkdirAll (vmm_host m) p w)) = view w"
      "view (snd (ho_Chmod (vmm_host m) p w)) = view w" "view (snd (ho_Remove (vmm_host m) p w)) = view w"
      "view (snd (ho_QemuImg (vmm_host m) as w)) = view w" "view (snd (ho_Start (vmm_host m) p as w)) = view w"
      "view (snd (ho_Connect (vmm_host m) p w)) = view w" "view (snd (ho_Pause (vmm_host m) w)) = view w"
      "view (snd (ho_QueryStatus (vmm_host m) p w)) = view w" "view (snd (ho_Powerdown (vmm_host m) p w)) = view w"
      "view (snd (ho_WaitExit (vmm_host m) pid w)) = view w" "view (snd (ho_Terminate (vmm_host m) pid w)) = view w"
      "view (snd (ho_Kill (vmm_host m) pid w)) = view w" "view (snd (ho_CloseQMP (vmm_host m) p w)) = view w"
begin

text \<open>An operation on one VM leaves the others alone, and of the stored record of the VM only the status changes.\<close>

definition frame :: "string \<Rightarrow> 'w vmm_state \<Rightarrow> 'w vmm_state \<Rightarrow> bool" where
  "frame v s s' \<longleftrightarrow> mm_counter s' = mm_counter s \<and>
     (\<forall>j. j \<noteq> v \<longrightarrow> map_of (mm_liveVMs s') j = map_of (mm_liveVMs s) j \<and> view (mm_world s') j = view (mm_world s) j) \<and>
     map_option (vm_Status_update (\<lambda>_. VMStatusUnset)) (view (mm_world s') v) =
     map_option (vm_Status_update (\<lambda>_. VMStatusUnset)) (view (mm_world s) v)"

lemma frame_preorder: "preorder (frame v)"
  unfolding preorder_def frame_def by auto

lemma frame_world: "(\<And>w. view (snd (f w)) = view w) \<Longrightarrow> along (frame v) (world f)"
  by (simp add: along_def frame_def world_def split_beta)

lemma frame_status: "along (frame v) (set_status m v st)"
proof -
  have "frame v s (s\<lparr>mm_world := snd (sto_UpdateVMStatus (vmm_store m) v st (mm_world s))\<rparr>)" for s
    using upd [of v st "mm_world s"] by (auto simp: frame_def option.map_comp comp_def)
  then show ?thesis
    by (simp add: set_status_def along_def world_def State_Monad.bind_def State_Monad.return_def split_beta)
qed

lemma frame_live:
  "along (frame v) (lookup_live v)"
  "along (frame v) (State (\<lambda>s. ((), s\<lparr>mm_liveVMs := gput v l (mm_liveVMs s)\<rparr>)))"
  "along (frame v) (State (\<lambda>s. ((), s\<lparr>mm_liveVMs := gdel v (mm_liveVMs s)\<rparr>)))"
  by (auto simp: along_def frame_def lookup_live_def)

lemmas frame_rules = along_bind [OF frame_preorder] along_return [OF frame_preorder] along_cases frame_world frame_status frame_live get host

lemma frame_connect: "along (frame v) (connect_loop m sock n err)"
  by (induction n arbitrary: err) (auto intro!: frame_rules)

lemma frame_start: "along (frame v) (StartVM m v)"
  unfolding StartVM_def start_overlay_def start_process_def start_connect_def Let_def
  by (intro frame_rules frame_connect)

lemma frame_cleanup: "along (frame v) (cleanup m v)"
  unfolding cleanup_def by (intro frame_rules)

lemma frame_stop: "along (frame v) (StopVM m v)"
  unfolding StopVM_def stop_running_def force_kill_def by (intro frame_rules frame_cleanup)

lemma frame_destroy: "along (frame v) (DestroyVM m v)"
  unfolding DestroyVM_def destroy_files_def by (intro frame_rules frame_stop)


text \<open>No operation stores a process ID.\<close>

definition no_pid :: "'w vmm_state \<Rightarrow> bool" where
  "no_pid s \<longleftrightarrow> (\<forall>i vm. view (mm_world s) i = Some vm \<longrightarrow> vm_PID vm = 0)"

lemma frame_no_pid: "frame v s s' \<Longrightarrow> no_pid s \<Longrightarrow> no_pid s'"
proof -
  assume f: "frame v s s'" and n: "no_pid s"
  show "no_pid s'"
    unfolding no_pid_def
  proof (intro allI impI)
    fix i vm
    assume i: "view (mm_world s') i = Some vm"
    show "vm_PID vm = 0"
    proof (cases "i = v")
      case True
      with i f obtain vm0 where "view (mm_world s) v = Some vm0"
          "vm\<lparr>vm_Status := VMStatusUnset\<rparr> = vm0\<lparr>vm_Status := VMStatusUnset\<rparr>"
        by (cases "view (mm_world s) v") (auto simp: frame_def)
      moreover from this(2) have "vm_PID vm = vm_PID vm0" by (metis VMInstance.select_convs(7) VMInstance.surjective VMInstance.update_convs(2))
      ultimately show ?thesis using n by (auto simp: no_pid_def)
    next
      case False
      with i f n show ?thesis by (auto simp: frame_def no_pid_def)
    qed
  qed
qed

lemma create_no_pid: "no_pid s \<Longrightarrow> no_pid (snd (run_state (CreateVM m c) s))"
proof -
  assume n: "no_pid s"
  obtain now w1 where now: "ho_Now (vmm_host m) (mm_world s) = (now, w1)" by fastforce
  obtain now2 w2 where now2: "ho_Now (vmm_host m) w1 = (now2, w2)" by fastforce
  let ?c = "wrap64 (mm_counter s + 1)"
  let ?vm = "new_instance (vmm_cfg m) c (vm_id (now div 10 ^ 9) ?c) now2"
  have vm: "vm_ID ?vm = vm_id (now div 10 ^ 9) ?c" "vm_PID ?vm = 0" by (simp_all add: new_instance_def)
  have "view w2 = view (mm_world s)" using host(1) [of "mm_world s"] host(1) [of w1] by (simp add: now now2)
  moreover have "vm_ID ?vm \<noteq> ''''" by (simp add: new_instance_def vm_id_def)
  ultimately have v: "view (snd (sto_SaveVM (vmm_store m) ?vm w2)) \<in> {view (mm_world s), (view (mm_world s))(vm_ID ?vm \<mapsto> ?vm)}"
    using save [of ?vm w2] by simp
  have "mm_world (snd (run_state (CreateVM m c) s)) = snd (sto_SaveVM (vmm_store m) ?vm w2)"
    by (simp add: CreateVM_def nextVMID_def world_def State_Monad.bind_def State_Monad.return_def now now2 Let_def split_beta
        split: sum.split)
  with v n vm(2) show ?thesis by (auto simp: no_pid_def split: if_splits)
qed

end

subsection \<open>Sequences of operations\<close>

datatype vm_op = OpCreate VMConfig | OpStart string | OpStop string | OpDestroy string

fun vm_step :: "'w VMManager \<Rightarrow> 'w vmm_state \<Rightarrow> vm_op \<Rightarrow> 'w vmm_state" where
  "vm_step m s (OpCreate c) = snd (run_state (CreateVM m c) s)"
| "vm_step m s (OpStart v) = snd (run_state (StartVM m v) s)"
| "vm_step m s (OpStop v) = snd (run_state (StopVM m v) s)"
| "vm_step m s (OpDestroy v) = snd (run_state (DestroyVM m v) s)"

lemma run_lookup: "run_state (State_Monad.bind (lookup_live v) f) s = run_state (f (map_of (mm_liveVMs s) v)) s"
  by (simp add: lookup_live_def State_Monad.bind_def)

context vm_host
begin

lemma along_no_pid: "along (frame v) a \<Longrightarrow> no_pid s \<Longrightarrow> no_pid (snd (run_state a s))"
  unfolding along_def using frame_no_pid by blast

lemma step_no_pid: "no_pid s \<Longrightarrow> no_pid (vm_step m s op)"
proof (cases op)
  case (OpCreate c)
  then show "no_pid s \<Longrightarrow> no_pid (vm_step m s op)" using create_no_pid by simp
next
  case (OpStart v)
  then show "no_pid s \<Longrightarrow> no_pid (vm_step m s op)" using along_no_pid [OF frame_start] by simp
next
  case (OpStop v)
  then show "no_pid s \<Longrightarrow> no_pid (vm_step m s op)" using along_no_pid [OF frame_stop] by simp
next
  case (OpDestroy v)
  then show "no_pid s \<Longrightarrow> no_pid (vm_step m s op)" using along_no_pid [OF frame_destroy] by simp
qed

lemma steps_no_pid: "no_pid s \<Longrightarrow> no_pid (foldl (vm_step m) s ops)"
  by (induction ops arbitrary: s) (auto intro: step_no_pid)

text \<open>The result of starting a VM: it is live, or the live VMs are as before.\<close>

definition started :: "string \<Rightarrow> ('w, error + unit) vmact \<Rightarrow> bool" where
  "started v a \<longleftrightarrow> (\<forall>s. case run_state a s of (r, s') \<Rightarrow>
     (case r of Inl _ \<Rightarrow> mm_liveVMs s' = mm_liveVMs s | Inr _ \<Rightarrow> map_of (mm_liveVMs s') v \<noteq> None))"

abbreviation same_live :: "'w vmm_state \<Rightarrow> 'w vmm_state \<Rightarrow> bool" where
  "same_live s s' \<equiv> mm_liveVMs s' = mm_liveVMs s"

lemma same_live_preorder: "preorder same_live"
  by (simp add: preorder_def)

lemma same_live_world: "along same_live (world f)"
  by (simp add: along_def world_def split_beta)

lemma same_live_status: "along same_live (set_status m v st)"
  unfolding set_status_def by (intro along_bind [OF same_live_preorder] along_return [OF same_live_preorder] same_live_world)

lemma same_live_connect: "along same_live (connect_loop m sock n err)"
  by (induction n arbitrary: err)
    (auto intro!: along_bind [OF same_live_preorder] along_return [OF same_live_preorder] same_live_world along_cases)

lemma started_bind: "along same_live a \<Longrightarrow> (\<And>x. started v (f x)) \<Longrightarrow> started v (State_Monad.bind a f)"
proof -
  assume a: "along same_live a" and f: "\<And>x. started v (f x)"
  show ?thesis
    unfolding started_def
  proof
    fix s
    obtain x s1 where x: "run_state a s = (x, s1)" by fastforce
    then have "mm_liveVMs s1 = mm_liveVMs s" using a alongD by fastforce
    with f [of x, unfolded started_def, THEN spec, of s1] x show "case run_state (State_Monad.bind a f) s of (r, s') \<Rightarrow>
        (case r of Inl _ \<Rightarrow> mm_liveVMs s' = mm_liveVMs s | Inr _ \<Rightarrow> map_of (mm_liveVMs s') v \<noteq> None)"
      by (auto simp: State_Monad.bind_def split: prod.splits sum.splits)
  qed
qed

lemma started_fail: "started v (State_Monad.return (Inl e))"
  by (simp add: started_def State_Monad.return_def)

lemma started_cases:
  "(\<And>e. started v (f e)) \<Longrightarrow> (\<And>x. started v (g x)) \<Longrightarrow> started v (case r of Inl e \<Rightarrow> f e | Inr x \<Rightarrow> g x)"
  "started v a \<Longrightarrow> (\<And>x. started v (k x)) \<Longrightarrow> (\<And>x. started v (l x)) \<Longrightarrow>
     started v (case c of Connected \<Rightarrow> a | TimedOut x \<Rightarrow> k x | Refused x \<Rightarrow> l x)"
  "(\<And>x y. started v (p x y)) \<Longrightarrow> started v (case z of (x, y) \<Rightarrow> p x y)"
  by (auto split: sum.split connection.split prod.split)

lemma started_live:
  "started v (State_Monad.bind (State (\<lambda>s. ((), s\<lparr>mm_liveVMs := gput v l (mm_liveVMs s)\<rparr>)))
     (\<lambda>_. State_Monad.bind (world f)
       (\<lambda>r. State_Monad.bind (case r of Inr True \<Rightarrow> set_status m v VMStatusReady | _ \<Rightarrow> State_Monad.return ())
         (\<lambda>_. State_Monad.return (Inr ())))))"
proof -
  have "mm_liveVMs (snd (run_state (set_status m v st) s)) = mm_liveVMs s" for st s
    using same_live_status by (simp add: along_def)
  then show ?thesis
    by (auto simp: started_def State_Monad.bind_def State_Monad.return_def world_def split_beta split: sum.split bool.split)
qed

lemma StartVM_started: "started v (StartVM m v)"
  unfolding StartVM_def start_overlay_def start_process_def start_connect_def Let_def
  by (intro started_bind started_fail started_cases started_live same_live_world same_live_status same_live_connect)

text \<open>After stopping, the VM is not live.\<close>

definition leaves :: "('w vmm_state \<Rightarrow> bool) \<Rightarrow> ('w, 'a) vmact \<Rightarrow> bool" where
  "leaves Q a \<longleftrightarrow> (\<forall>s. Q (snd (run_state a s)))"

lemma leaves_bind: "(\<And>x. leaves Q (f x)) \<Longrightarrow> leaves Q (State_Monad.bind a f)"
  by (simp add: leaves_def State_Monad.bind_def split_beta)

lemma leaves_then: "leaves Q a \<Longrightarrow> (\<And>x. along (\<lambda>s s'. Q s \<longrightarrow> Q s') (f x)) \<Longrightarrow> leaves Q (State_Monad.bind a f)"
  by (simp add: leaves_def along_def State_Monad.bind_def split_beta)

lemma leaves_cases:
  "(\<And>e. leaves Q (f e)) \<Longrightarrow> (\<And>x. leaves Q (g x)) \<Longrightarrow> leaves Q (case r of Inl e \<Rightarrow> f e | Inr x \<Rightarrow> g x)"
  "leaves Q a \<Longrightarrow> leaves Q a' \<Longrightarrow> leaves Q (if b then a else a')"
  by (auto split: sum.split)

abbreviation gone :: "string \<Rightarrow> 'w vmm_state \<Rightarrow> bool" where
  "gone v s \<equiv> map_of (mm_liveVMs s) v = None"

lemma cleanup_gone: "leaves (gone v) (cleanup m v)"
  by (auto simp: leaves_def cleanup_def lookup_live_def State_Monad.bind_def State_Monad.return_def world_def split_beta split: option.split)

lemma status_then: "along (\<lambda>s s'. gone v s \<longrightarrow> gone v s') (State_Monad.bind (set_status m w st) (\<lambda>_. State_Monad.return x))"
  using same_live_status [of w st] by (simp add: along_def State_Monad.bind_def State_Monad.return_def split_beta)

lemma stop_gone: "leaves (gone v) (StopVM m v)"
proof -
  have kill: "leaves (gone v) (force_kill m v pid)" for pid
    unfolding force_kill_def by (intro leaves_bind leaves_then [OF cleanup_gone] status_then)
  have "leaves (gone v) (stop_running m v l)" for l
    unfolding stop_running_def by (intro leaves_bind leaves_cases kill leaves_then [OF cleanup_gone] status_then)
  then show ?thesis
    unfolding leaves_def StopVM_def run_lookup by (simp add: State_Monad.return_def split: option.split)
qed


lemma same_live_files: "along same_live (destroy_files m v)"
  unfolding destroy_files_def
  by (intro along_bind [OF same_live_preorder] along_return [OF same_live_preorder] same_live_world same_live_status along_cases)

lemma destroy_gone: "leaves (gone v) (DestroyVM m v)"
proof -
  have files: "along (\<lambda>s s'. gone v s \<longrightarrow> gone v s') (destroy_files m v)" using same_live_files by (simp add: along_def)
  have "leaves (gone v) (State_Monad.bind (State_Monad.bind (StopVM m v) (\<lambda>_. State_Monad.return ())) (\<lambda>_. destroy_files m v))"
    by (intro leaves_then files stop_gone) (simp add: along_def State_Monad.return_def)
  moreover have "gone v s \<Longrightarrow> gone v (snd (run_state (destroy_files m v) s))" for s using files by (simp add: along_def)
  ultimately show ?thesis
    unfolding leaves_def DestroyVM_def run_lookup by (auto simp: State_Monad.bind_def State_Monad.return_def split_beta)
qed

lemma destroy_ok: "fst (run_state (DestroyVM m v) s) = Inr ()"
  by (simp add: DestroyVM_def destroy_files_def State_Monad.bind_def State_Monad.return_def split_beta)

end

text \<open>A store whose updates do not fail.\<close>

locale vm_host_total = vm_host +
  assumes upd_done: "view (snd (sto_UpdateVMStatus (vmm_store m) i st w)) =
    (view w)(i := map_option (\<lambda>vm. vm\<lparr>vm_Status := st\<rparr>) (view w i))"
begin

lemma status_set: "leaves (\<lambda>s. \<forall>vm. view (mm_world s) v = Some vm \<longrightarrow> vm_Status vm = st) (set_status m v st)"
  by (auto simp: leaves_def set_status_def world_def upd_done State_Monad.bind_def State_Monad.return_def split_beta)

lemma destroy_status: "leaves (\<lambda>s. \<forall>vm. view (mm_world s) v = Some vm \<longrightarrow> vm_Status vm = VMStatusDestroyed) (DestroyVM m v)"
  unfolding DestroyVM_def destroy_files_def
  by (intro leaves_bind leaves_then [OF status_set])
    (simp add: along_def State_Monad.bind_def State_Monad.return_def world_def host split_beta)

lemma destroy_view:
  assumes "run_state (DestroyVM m v) s = (r, s')"
  shows "view (mm_world s') = (view (mm_world s))(v := map_option (\<lambda>vm. vm\<lparr>vm_Status := VMStatusDestroyed\<rparr>) (view (mm_world s) v))"
proof
  fix j
  have f: "frame v s s'" using alongD [OF frame_destroy assms] .
  show "view (mm_world s') j = ((view (mm_world s))(v := map_option (\<lambda>vm. vm\<lparr>vm_Status := VMStatusDestroyed\<rparr>) (view (mm_world s) v))) j"
  proof (cases "j = v \<and> view (mm_world s') v \<noteq> None")
    case True
    then obtain vm where vm: "view (mm_world s') v = Some vm" by blast
    with f obtain vm0 where vm0: "view (mm_world s) v = Some vm0"
        "vm\<lparr>vm_Status := VMStatusUnset\<rparr> = vm0\<lparr>vm_Status := VMStatusUnset\<rparr>"
      by (cases "view (mm_world s) v") (auto simp: frame_def)
    have "vm_Status vm = VMStatusDestroyed" using destroy_status [of v] assms vm by (auto simp: leaves_def dest: spec [of _ s])
    then have "vm = (vm\<lparr>vm_Status := VMStatusUnset\<rparr>)\<lparr>vm_Status := VMStatusDestroyed\<rparr>" by simp
    also have "\<dots> = vm0\<lparr>vm_Status := VMStatusDestroyed\<rparr>" unfolding vm0(2) by simp
    finally show ?thesis using True vm vm0(1) by simp
  next
    case False
    with f show ?thesis by (cases "j = v") (auto simp: frame_def)
  qed
qed

end


subsection \<open>Names and paths\<close>

text \<open>A file name: one segment, which cleaning keeps.\<close>

definition plain :: "string \<Rightarrow> bool" where
  "plain n \<longleftrightarrow> n \<noteq> '''' \<and> n \<noteq> ''.'' \<and> n \<noteq> ''..'' \<and> CHR ''/'' \<notin> set n"

lemma path_join_inject:
  assumes "d \<noteq> ''''" and "plain n" and "plain n'" and "path_join [d, n] = path_join [d, n']"
  shows "n = n'"
proof -
  obtain c cs where d: "d = c # cs" using assms(1) by (cases d) auto
  have *: "path_join [d, k] = (if c = CHR ''/'' then ''/'' else '''') @
      join_slash (clean_segs (c = CHR ''/'') [] (split_slash d) @ [k])" if k: "plain k" for k
  proof -
    have "path_join [d, k] = path_clean (d @ CHR ''/'' # k)" using k d by (simp add: path_join_def plain_def)
    also have "\<dots> = (let segs = clean_segs (c = CHR ''/'') [] (split_slash (d @ CHR ''/'' # k)) in
        if c = CHR ''/'' then CHR ''/'' # join_slash segs else if segs = [] then ''.'' else join_slash segs)"
      unfolding path_clean_def by (simp add: d Let_def)
    finally show ?thesis
      unfolding split_slash_append using k by (simp add: plain_def split_slash_plain clean_segs_plain Let_def)
  qed
  show ?thesis using assms(4) unfolding * [OF assms(2)] * [OF assms(3)] by (auto simp: join_slash_snoc split: if_splits)
qed

lemma plain_ext: "CHR ''/'' \<notin> set v \<Longrightarrow> plain (v @ ''.sock'')" "CHR ''/'' \<notin> set v \<Longrightarrow> plain (v @ ''.qcow2'')"
  by (auto simp: plain_def append_eq_Cons_conv)

lemma paths_inject:
  assumes "CHR ''/'' \<notin> set v" and "CHR ''/'' \<notin> set v'" and "v \<noteq> v'"
  shows "overlay_path v \<noteq> overlay_path v'" "AgentSocketPath v \<noteq> AgentSocketPath v'" "qmp_socket cfg v \<noteq> qmp_socket cfg v'"
proof -
  have *: "path_join [d, v @ e] \<noteq> path_join [d, v' @ e]" if "d \<noteq> ''''" "e \<in> {''.sock'', ''.qcow2''}" for d e
    using path_join_inject [of d "v @ e" "v' @ e"] that assms plain_ext [of v] plain_ext [of v'] by auto
  show "overlay_path v \<noteq> overlay_path v'" "AgentSocketPath v \<noteq> AgentSocketPath v'" "qmp_socket cfg v \<noteq> qmp_socket cfg v'"
    unfolding overlay_path_def AgentSocketPath_def qmp_socket_def or_def_def by (rule *; simp)+
qed

lemma itoa_no_slash: "CHR ''/'' \<notin> set (itoa i)"
proof -
  have "digit_val CHR ''/'' = None" by code_simp
  then show ?thesis using nat_str_is_digit [of "CHR ''/''"] by (auto simp: itoa_def is_digit_def split: if_splits)
qed

lemma vm_id_no_slash: "CHR ''/'' \<notin> set (vm_id u c)"
  by (simp add: vm_id_def itoa_no_slash)

lemma vm_id_inject: "0 \<le> c \<Longrightarrow> 0 \<le> c' \<Longrightarrow> vm_id u c = vm_id u' c' \<Longrightarrow> c = c'"
  using append_sep_inject [of "itoa u" "CHR ''-''" "itoa c" "itoa u'" "itoa c'"]
  by (auto simp: vm_id_def itoa_def nat_str_no_dash)


subsection \<open>The counter\<close>

abbreviation same_counter :: "'w vmm_state \<Rightarrow> 'w vmm_state \<Rightarrow> bool" where
  "same_counter s s' \<equiv> mm_counter s' = mm_counter s"

lemma counter_preorder: "preorder same_counter"
  by (simp add: preorder_def)

lemma counter_basic:
  "along same_counter (world f)" "along same_counter (lookup_live v)"
  "along same_counter (State (\<lambda>s. ((), s\<lparr>mm_liveVMs := g (mm_liveVMs s)\<rparr>)))"
  by (simp_all add: along_def world_def lookup_live_def split_beta)

lemmas counter_rules = along_bind [OF counter_preorder] along_return [OF counter_preorder] along_cases counter_basic

lemma counter_connect: "along same_counter (connect_loop m sock n err)"
  by (induction n arbitrary: err) (auto intro!: counter_rules)

lemma counter_ops:
  "along same_counter (StartVM m v)" "along same_counter (StopVM m v)" "along same_counter (DestroyVM m v)"
proof -
  show "along same_counter (StartVM m v)"
    unfolding StartVM_def start_overlay_def start_process_def start_connect_def set_status_def Let_def
    by (intro counter_rules counter_connect)
  show stop: "along same_counter (StopVM m v)"
    unfolding StopVM_def stop_running_def force_kill_def cleanup_def set_status_def by (intro counter_rules)
  show "along same_counter (DestroyVM m v)"
    unfolding DestroyVM_def destroy_files_def set_status_def by (intro counter_rules stop)
qed

lemma create_counter:
  "mm_counter (snd (run_state (CreateVM m c) s)) = wrap64 (mm_counter s + 1)"
  by (simp add: CreateVM_def nextVMID_def world_def State_Monad.bind_def State_Monad.return_def Let_def split_beta split: sum.split)

lemma create_result:
  "fst (run_state (CreateVM m c) s) = Inr i \<Longrightarrow>
   \<exists>u now. i = new_instance (vmm_cfg m) c (vm_id u (wrap64 (mm_counter s + 1))) now"
  by (auto simp: CreateVM_def nextVMID_def world_def State_Monad.bind_def State_Monad.return_def Let_def split_beta split: sum.splits)

lemma step_counter:
  "mm_counter (vm_step m s op) = mm_counter s \<or> mm_counter (vm_step m s op) = wrap64 (mm_counter s + 1)"
  using counter_ops [of m] by (cases op) (auto simp: along_def create_counter)

lemma steps_counter:
  "0 \<le> mm_counter s \<Longrightarrow> mm_counter s + int (length ops) < 2 ^ 63 \<Longrightarrow>
   mm_counter s \<le> mm_counter (foldl (vm_step m) s ops) \<and> mm_counter (foldl (vm_step m) s ops) \<le> mm_counter s + int (length ops)"
proof (induction ops arbitrary: s)
  case (Cons op ops)
  have w: "wrap64 (mm_counter s + 1) = mm_counter s + 1" using Cons.prems by (simp add: wrap64_id in_int64_def)
  from step_counter [of m s op] have "mm_counter (vm_step m s op) = mm_counter s \<or> mm_counter (vm_step m s op) = mm_counter s + 1"
    by (simp only: w)
  then show ?case using Cons.IH [of "vm_step m s op"] Cons.prems by auto
qed simp

subsection \<open>The memory store\<close>

definition mem_view :: "'x store_world_scheme \<Rightarrow> string \<Rightarrow> VMInstance option" where
  "mem_view w = map_of (ms_vms (sw_store w))"

text \<open>The operating system does not reach into the orchestrator's memory.\<close>

definition host_leaves :: "'x store_world_scheme HostOps \<Rightarrow> bool" where
  "host_leaves h \<longleftrightarrow> (\<forall>w p q as pid.
     sw_store (snd (ho_Now h w)) = sw_store w \<and> sw_store (snd (ho_MkdirAll h p w)) = sw_store w \<and>
     sw_store (snd (ho_Chmod h p w)) = sw_store w \<and> sw_store (snd (ho_Remove h p w)) = sw_store w \<and>
     sw_store (snd (ho_QemuImg h as w)) = sw_store w \<and> sw_store (snd (ho_Start h p as w)) = sw_store w \<and>
     sw_store (snd (ho_Connect h p w)) = sw_store w \<and> sw_store (snd (ho_Pause h w)) = sw_store w \<and>
     sw_store (snd (ho_QueryStatus h p w)) = sw_store w \<and> sw_store (snd (ho_Powerdown h p w)) = sw_store w \<and>
     sw_store (snd (ho_WaitExit h pid w)) = sw_store w \<and> sw_store (snd (ho_Terminate h pid w)) = sw_store w \<and>
     sw_store (snd (ho_Kill h pid w)) = sw_store w \<and> sw_store (snd (ho_CloseQMP h q w)) = sw_store w)"

lemma mem_vm_host:
  assumes "vmm_store m = mem_Store" and "host_leaves (vmm_host m)"
  shows "vm_host_total m mem_view"
proof
  fix vm :: VMInstance and i st w p as pid
  show "vm_ID vm \<noteq> '''' \<Longrightarrow>
      mem_view (snd (sto_SaveVM (vmm_store m) vm w)) \<in> {mem_view w, (mem_view w)(vm_ID vm \<mapsto> vm)}"
    by (auto simp: assms(1) mem_view_def SaveVM_def Let_def)
  show "mem_view (snd (sto_GetVM (vmm_store m) i w)) = mem_view w"
    by (auto simp: assms(1) GetVM_def split: option.split)
  show "fst (sto_GetVM (vmm_store m) i w) = Inr vm \<Longrightarrow> mem_view w i = Some vm"
    by (auto simp: assms(1) GetVM_def mem_view_def split: option.splits)
  show "mem_view (snd (sto_UpdateVMStatus (vmm_store m) i st w)) =
      (mem_view w)(i := map_option (\<lambda>vm. vm\<lparr>vm_Status := st\<rparr>) (mem_view w i))"
    by (auto simp: assms(1) UpdateVMStatus_def mem_view_def split: option.split)
  then show "mem_view (snd (sto_UpdateVMStatus (vmm_store m) i st w)) \<in>
      {mem_view w, (mem_view w)(i := map_option (\<lambda>vm. vm\<lparr>vm_Status := st\<rparr>) (mem_view w i))}" by simp
qed (use assms(2) in \<open>simp_all add: host_leaves_def mem_view_def\<close>)

text \<open>Recovering the runs touches neither the VMs nor a process.\<close>

definition vms_kept :: "rec_world \<Rightarrow> rec_world \<Rightarrow> bool" where
  "vms_kept w w' \<longleftrightarrow> rw_killed w' = rw_killed w \<and> rw_vms w' = rw_vms w \<and> ms_vms (rw_store w') = ms_vms (rw_store w)"

lemma vms_kept_refl [simp]: "vms_kept w w"
  and vms_kept_trans: "vms_kept w w1 \<Longrightarrow> vms_kept w1 w2 \<Longrightarrow> vms_kept w w2"
  by (simp_all add: vms_kept_def)

lemma update_vms_kept: "rs_UpdateTestRunStatus mem_recovery i st msg w = (r, w') \<Longrightarrow> vms_kept w w'"
  by (auto simp: mem_recovery_def vms_kept_def UpdateTestRunStatus_def split: option.splits)

lemma recover_runs_kept: "vms_kept w (fst (recover_runs mem_recovery runs w s))"
proof (induction runs arbitrary: w s)
  case (Cons run runs)
  obtain r w' where u: "rs_UpdateTestRunStatus mem_recovery (run_ID run) TestRunStatusErrored restart_msg w = (r, w')" by fastforce
  then have "vms_kept w w'" by (rule update_vms_kept)
  then have "vms_kept w (fst (recover_runs mem_recovery runs w' s'))" for s' using Cons.IH vms_kept_trans by blast
  then show ?case
    using Cons.IH \<open>vms_kept w w'\<close> by (auto simp: u split: TestRunStatus.split sum.split prod.split res.split)
qed simp

lemma recover_no_kill:
  assumes "\<forall>i vm. map_of (ms_vms (rw_store w)) i = Some vm \<longrightarrow> vm_PID vm = 0"
  shows "rw_killed (fst (RecoverState mem_recovery mem_kill w s)) = rw_killed w"
proof -
  obtain w2 s2 r where runs: "recover_runs mem_recovery (ListRunningTestRuns (rw_store w) (rw_runs w)) w s = (w2, s2, r)"
    by (metis prod_cases3)
  then have k: "vms_kept w w2" by (metis fst_conv recover_runs_kept)
  have "vm_PID vm = 0" if "vm \<in> set (ListOrphanedVMs (rw_store w2) (rw_vms w2))" for vm
    using that assms k by (auto simp: ListOrphanedVMs_def vms_kept_def pick_filter List.map_filter_def)
  then have "filter (\<lambda>p. p > 0) (map vm_PID (ListOrphanedVMs (rw_store w2) (rw_vms w2))) = []" by (auto simp: filter_empty_conv)
  moreover have "rs_ListRunningTestRuns mem_recovery v = (Inr (ListRunningTestRuns (rw_store v) (rw_runs v)), v)"
      "rs_ListOrphanedVMs mem_recovery v = (Inr (ListOrphanedVMs (rw_store v) (rw_vms v)), v)" for v
    by (simp_all add: mem_recovery_def)
  ultimately show ?thesis using k runs by (simp add: RecoverState_def recover_vms_mem vms_kept_def split: res.split)
qed

subsection \<open>An example host\<close>

text \<open>Processes run until they are killed.\<close>

record host_world = store_world +
  hw_pids :: "int list"

definition plain_host :: "host_world HostOps" where
  "plain_host = \<lparr>ho_Now = (\<lambda>w. (sw_now w, w)), ho_MkdirAll = (\<lambda>_ w. (Inr (), w)), ho_Chmod = (\<lambda>_ w. ((), w)),
     ho_Remove = (\<lambda>_ w. (Inr (), w)), ho_QemuImg = (\<lambda>_ w. (Inr (), w)),
     ho_Start = (\<lambda>_ _ w. (Inr 4242, w\<lparr>hw_pids := 4242 # hw_pids w\<rparr>)), ho_Connect = (\<lambda>_ w. (Inr (), w)),
     ho_Pause = (\<lambda>w. (None, w)), ho_QueryStatus = (\<lambda>_ w. (Inr False, w)), ho_Powerdown = (\<lambda>_ w. (Inr (), w)),
     ho_WaitExit = (\<lambda>_ w. (False, w)), ho_Terminate = (\<lambda>_ w. ((), w)),
     ho_Kill = (\<lambda>pid w. ((), w\<lparr>hw_pids := removeAll pid (hw_pids w)\<rparr>)), ho_CloseQMP = (\<lambda>_ w. ((), w))\<rparr>"

definition plain_manager :: "host_world VMManager" where
  "plain_manager = \<lparr>vmm_cfg = zero_GlobalConfig, vmm_store = mem_Store, vmm_host = plain_host\<rparr>"

definition plain_world :: host_world where
  "plain_world = \<lparr>sw_store = NewMemoryStore, sw_now = 7000000000, sw_order = (\<lambda>ks. ks), hw_pids = []\<rparr>"

lemma plain_leaves: "host_leaves plain_host"
  by (simp add: host_leaves_def plain_host_def)

interpretation plain_vms: vm_host_total plain_manager mem_view
  by (rule mem_vm_host) (simp_all add: plain_manager_def plain_leaves)

subsection \<open>Properties\<close>


definition plain_start :: "host_world vmm_state" where
  "plain_start = foldl (vm_step plain_manager) (NewVMManager plain_world) [OpCreate zero_VMConfig, OpCreate zero_VMConfig, OpStart ''vm-7-2'']"

lemma plain_rules: "vmm_store plain_manager = mem_Store" "host_leaves (vmm_host plain_manager)"
  by (simp_all add: plain_manager_def plain_leaves)


text \<open>
  C19: The process ID of a VM is never stored: after any sequence of operations of the VM manager every stored record has the PID 0, so that
  recovery after a crash kills no process, whatever was running.
\<close>

theorem vm_pid_lost:
  assumes "vmm_store m = mem_Store" and "host_leaves (vmm_host m)"
    and "\<forall>i vm. mem_view w i = Some vm \<longrightarrow> vm_PID vm = 0"
    and "rw_store rw = sw_store (mm_world (foldl (vm_step m) (NewVMManager w) ops))"
  shows "rw_killed (fst (RecoverState mem_recovery mem_kill rw sch)) = rw_killed rw"
proof (rule recover_no_kill)
  note h = vm_host_total.axioms(1) [OF mem_vm_host [OF assms(1,2)]]
  have "vm_host.no_pid mem_view (NewVMManager w)" using assms(3) by (simp add: vm_host.no_pid_def [OF h] NewVMManager_def)
  then have "vm_host.no_pid mem_view (foldl (vm_step m) (NewVMManager w) ops)" by (rule vm_host.steps_no_pid [OF h])
  then show "\<forall>i vm. map_of (ms_vms (rw_store rw)) i = Some vm \<longrightarrow> vm_PID vm = 0"
    unfolding vm_host.no_pid_def [OF h] assms(4) by (simp add: mem_view_def)
qed

definition plain_crash :: rec_world where
  "plain_crash = \<lparr>rw_store = sw_store (mm_world plain_start), rw_now = 9, rw_killed = [], rw_runs = [], rw_vms = [''vm-7-1'', ''vm-7-2'']\<rparr>"

theorem vm_pid_lost_witness:
  "rw_killed (fst (RecoverState mem_recovery mem_kill plain_crash (NewScheduler 2))) = [] \<and>
   map vm_Status (ListOrphanedVMs (rw_store plain_crash) (rw_vms plain_crash)) = [VMStatusCreating, VMStatusBooting] \<and>
   hw_pids (mm_world plain_start) = [4242]"
proof -
  have "\<forall>i vm. mem_view plain_world i = Some vm \<longrightarrow> vm_PID vm = 0"
    by (simp add: mem_view_def plain_world_def NewMemoryStore_def)
  moreover have "rw_store plain_crash = sw_store (mm_world (foldl (vm_step plain_manager) (NewVMManager plain_world)
      [OpCreate zero_VMConfig, OpCreate zero_VMConfig, OpStart ''vm-7-2'']))" by (simp add: plain_crash_def plain_start_def)
  ultimately have "rw_killed (fst (RecoverState mem_recovery mem_kill plain_crash (NewScheduler 2))) = rw_killed plain_crash"
    by (rule vm_pid_lost [OF plain_rules])
  moreover have "map vm_Status (ListOrphanedVMs (rw_store plain_crash) (rw_vms plain_crash)) = [VMStatusCreating, VMStatusBooting]"
    "hw_pids (mm_world plain_start) = [4242]" by code_simp+
  ultimately show ?thesis by (simp add: plain_crash_def)
qed

text \<open>
  C13: Two VMs of one manager never share a file. Two calls of \<open>CreateVM\<close>, with any operations between them, return different
  IDs, and the two VMs have different QMP sockets, agent sockets and disk overlays, as long as the counter does not
  wrap around.
\<close>

theorem vm_isolated:
  assumes "run_state (CreateVM m c) s = (Inr i, s1)"
    and "run_state (CreateVM m c') (foldl (vm_step m) s1 ops) = (Inr i', s2)"
    and "0 \<le> mm_counter s" and "mm_counter s + int (length ops) + 2 < 2 ^ 63"
  shows "vm_ID i \<noteq> vm_ID i' \<and> vm_QMPSocketPath i \<noteq> vm_QMPSocketPath i' \<and>
    AgentSocketPath (vm_ID i) \<noteq> AgentSocketPath (vm_ID i') \<and> overlay_path (vm_ID i) \<noteq> overlay_path (vm_ID i')"
proof -
  let ?s = "foldl (vm_step m) s1 ops"
  have s1: "mm_counter s1 = mm_counter s + 1"
    using create_counter [of m c s] assms by (simp add: wrap64_id in_int64_def)
  then have le: "mm_counter s1 \<le> mm_counter ?s" "mm_counter ?s \<le> mm_counter s1 + int (length ops)"
    using steps_counter [of s1 ops m] assms by auto
  then have w: "wrap64 (mm_counter s + 1) = mm_counter s + 1" "wrap64 (mm_counter ?s + 1) = mm_counter ?s + 1"
    using s1 assms by (simp_all add: wrap64_id in_int64_def)
  obtain u now where i: "i = new_instance (vmm_cfg m) c (vm_id u (mm_counter s + 1)) now"
    using create_result [of m c s i] assms(1) w(1) by auto
  obtain u' now' where i': "i' = new_instance (vmm_cfg m) c' (vm_id u' (mm_counter ?s + 1)) now'"
    using create_result [of m c' ?s i'] assms(2) w(2) by auto
  have "vm_id u (mm_counter s + 1) \<noteq> vm_id u' (mm_counter ?s + 1)"
    using vm_id_inject [of "mm_counter s + 1" "mm_counter ?s + 1"] le s1 assms(3) by auto
  then show ?thesis using paths_inject [OF vm_id_no_slash vm_id_no_slash] by (simp add: i i' new_instance_def)
qed

theorem vm_isolated_witness:
  "let s1 = snd (run_state (CreateVM plain_manager zero_VMConfig) (NewVMManager plain_world));
       s2 = foldl (vm_step plain_manager) s1 [OpStart ''vm-7-1'']
   in (case (fst (run_state (CreateVM plain_manager zero_VMConfig) (NewVMManager plain_world)),
             fst (run_state (CreateVM plain_manager zero_VMConfig) s2)) of
         (Inr i, Inr i') \<Rightarrow> overlay_path (vm_ID i) \<noteq> overlay_path (vm_ID i') \<and> vm_QMPSocketPath i = ''/tmp/dvf/qmp/vm-7-1.sock''
       | _ \<Rightarrow> False)"
proof -
  let ?s1 = "snd (run_state (CreateVM plain_manager zero_VMConfig) (NewVMManager plain_world))"
  let ?s2 = "foldl (vm_step plain_manager) ?s1 [OpStart ''vm-7-1'']"
  let ?vm = "\<lambda>v. new_instance (vmm_cfg plain_manager) zero_VMConfig v 7000000000"
  have a: "fst (run_state (CreateVM plain_manager zero_VMConfig) (NewVMManager plain_world)) = Inr (?vm ''vm-7-1'')"
    and b: "fst (run_state (CreateVM plain_manager zero_VMConfig) ?s2) = Inr (?vm ''vm-7-2'')"
    and q: "vm_QMPSocketPath (?vm ''vm-7-1'') = ''/tmp/dvf/qmp/vm-7-1.sock''" by code_simp+
  have "overlay_path (vm_ID (?vm ''vm-7-1'')) \<noteq> overlay_path (vm_ID (?vm ''vm-7-2''))"
    using vm_isolated [of plain_manager zero_VMConfig "NewVMManager plain_world" "?vm ''vm-7-1''" ?s1 zero_VMConfig
        "[OpStart ''vm-7-1'']" "?vm ''vm-7-2''" "snd (run_state (CreateVM plain_manager zero_VMConfig) ?s2)"]
    by (simp only: prod_eq_iff fst_conv snd_conv a b) (simp add: NewVMManager_def)
  then show ?thesis unfolding Let_def a b by (simp add: q)
qed

end
