(* ===== verification/Spec2Isabelle.thy ===== *)
theory Spec2Isabelle
  imports Engine_System Cluster Recovery Agent_Coordinator API VM_Manager
begin

text \<open>
  A verification development of the DVF orchestrator.
\<close>

end
